(* ===== verification/Prelude.thy ===== *)
theory Prelude
  imports Main "HOL-Library.Word"
begin

text \<open>
  Shared vocabulary of the development: the machine types of \<open>include/stdint.h\<close>, the flat
  byte memory that \<open>lib/string.c\<close> works on, NUL-terminated strings in that memory, and the
  lemma collections and word facts that the component theories use.
\<close>

unbundle bit_operations_syntax

subsection \<open>Machine types\<close>

type_synonym u8 = "8 word"
type_synonym u16 = "16 word"
type_synonym u32 = "32 word"

text \<open>
  A pointer is a 32-bit address; the null pointer is 0. The kernel runs in one flat address
  space, so memory is a total function from addresses to bytes.
\<close>

type_synonym ptr = u32
type_synonym mem = "u32 \<Rightarrow> u8"

text \<open>String literals of the source, as the bytes the compiler stores (without the final NUL).\<close>

definition bytes :: "string \<Rightarrow> u8 list" where
  "bytes s = map of_char s"

lemma of_char_u8_inject: "of_char c = (of_char d :: u8) \<longleftrightarrow> c = d"
proof
  assume "of_char c = (of_char d :: u8)"
  then have "unat (of_char c :: u8) = unat (of_char d :: u8)" by simp
  moreover have "unat (of_char c :: u8) = of_char c" for c by (simp add: of_char_def)
  ultimately show "c = d" by simp
qed simp

lemma bytes_inject [simp]: "bytes s = bytes t \<longleftrightarrow> s = t"
  unfolding bytes_def by (rule inj_map_eq_map) (simp add: inj_def of_char_u8_inject)

text \<open>
  The result of an operation that may call \<open>kernel_panic\<close>: \<open>Inl msg\<close> when it does (the
  call never returns), \<open>Inr x\<close> when it returns \<open>x\<close>. A loop that may run forever has the
  type \<open>'a option\<close>, with \<open>None\<close> for not returning.
\<close>

type_synonym 'a panicking = "u8 list + 'a"

definition pbind :: "'a panicking option \<Rightarrow> ('a \<Rightarrow> 'b panicking option) \<Rightarrow> 'b panicking option" where
  "pbind r f = (case r of None \<Rightarrow> None | Some (Inl msg) \<Rightarrow> Some (Inl msg) | Some (Inr x) \<Rightarrow> f x)"

definition preturn :: "'a \<Rightarrow> 'a panicking option" where
  "preturn x = Some (Inr x)"

lemma pbind_simps [simp]:
  "pbind None f = None" "pbind (Some (Inl msg)) f = Some (Inl msg)" "pbind (Some (Inr x)) f = f x"
  "pbind (preturn x) f = f x"
  by (simp_all add: pbind_def preturn_def)

lemma pbind_Inr: "pbind r f = Some (Inr y) \<longleftrightarrow> (\<exists>x. r = Some (Inr x) \<and> f x = Some (Inr y))"
  by (auto simp: pbind_def split: option.splits sum.splits)

lemma map_panicking_Inr:
  "map_option (map_sum id f) r = Some (Inr y) \<longleftrightarrow> (\<exists>x. r = Some (Inr x) \<and> y = f x)"
  by (cases r) (auto simp: map_sum_def split: sum.splits)

subsection \<open>Lemma collections\<close>

named_theorems cstr_refine \<open>memory-level string routines on well-formed strings\<close>
named_theorems wordaddr \<open>addresses and offsets as natural numbers\<close>

subsection \<open>Addresses\<close>

lemma unat_plus_of_nat [wordaddr]:
  "unat (p :: u32) + i < 2 ^ 32 \<Longrightarrow> unat (p + of_nat i) = unat p + i"
  by (simp add: unat_word_ariths unat_of_nat)

lemma unat_of_nat_u32 [wordaddr]: "i < 2 ^ 32 \<Longrightarrow> unat (of_nat i :: u32) = i"
  by (simp add: unat_of_nat)

lemma of_nat_u32_inject [wordaddr]:
  "i < 2 ^ 32 \<Longrightarrow> j < 2 ^ 32 \<Longrightarrow> ((of_nat i :: u32) = of_nat j) = (i = j)"
  by (metis unat_of_nat_u32)

lemma unat_u32_less: "unat (x :: u32) < 2 ^ 32"
  using unsigned_less [of x] by simp

lemma unat_Suc_less: "(i :: u32) < n \<Longrightarrow> unat (i + 1) = Suc (unat i)"
  by unat_arith

lemma of_nat_Suc_assoc: "(p :: u32) + of_nat (Suc i) = p + 1 + of_nat i"
  by simp

lemma sign_bit: "bit (c :: u8) 7 \<longleftrightarrow> 128 \<le> c"
proof -
  have "bit c 7 \<longleftrightarrow> odd (unat c div 128)"
    using bit_unsigned_iff [of c 7, where 'a = nat] by (simp add: bit_iff_odd)
  also have "\<dots> \<longleftrightarrow> 128 \<le> unat c"
  proof (cases "unat c < 128")
    case False
    moreover have "unat c < 256" using unsigned_less [of c] by simp
    ultimately have "unat c div 128 = 1" by (intro div_nat_eqI) auto
    with False show ?thesis by simp
  qed simp
  finally show ?thesis by (simp add: word_le_nat_alt)
qed

lemma sign_bit_and: "(c :: u8) AND 0x80 = 0 \<longleftrightarrow> c < 128"
proof -
  have "(0x80 :: u8) = push_bit 7 1" by (simp add: push_bit_eq_mult)
  then have "c AND 0x80 \<noteq> 0 \<longleftrightarrow> bit c 7" by (simp add: bit_iff_and_push_bit_not_eq_0)
  then show ?thesis by (auto simp: sign_bit)
qed

subsection \<open>Regions of memory\<close>

definition region :: "ptr \<Rightarrow> nat \<Rightarrow> ptr set" where
  "region p n = (\<lambda>i. p + of_nat i) ` {..<n}"

definition bytes_at :: "mem \<Rightarrow> ptr \<Rightarrow> nat \<Rightarrow> u8 list" where
  "bytes_at m p n = map (\<lambda>i. m (p + of_nat i)) [0..<n]"

lemma region_0 [simp]: "region p 0 = {}"
  by (simp add: region_def)

lemma region_memI [intro]: "i < n \<Longrightarrow> p + of_nat i \<in> region p n"
  by (auto simp: region_def)

lemma region_memE [elim]:
  assumes "a \<in> region p n"
  obtains i where "i < n" and "a = p + of_nat i"
  using assms by (auto simp: region_def)

lemma region_Suc: "region p (Suc n) = insert p (region (p + 1) n)"
proof -
  have "{..<Suc n} = insert 0 (Suc ` {..<n})"
    by (simp add: lessThan_Suc_eq_insert_0)
  then show ?thesis
    by (simp add: region_def image_image add.assoc)
qed

lemma region_apart:
  "unat p + n \<le> unat q \<Longrightarrow> unat q + k \<le> 2 ^ 32 \<Longrightarrow> region p n \<inter> region q k = {}"
proof -
  assume pq: "unat p + n \<le> unat q" and q: "unat q + k \<le> 2 ^ 32"
  have "unat a < unat q" if "a \<in> region p n" for a
  proof -
    obtain i where "i < n" "a = p + of_nat i" using \<open>a \<in> region p n\<close> by blast
    moreover have "unat (p + of_nat i) = unat p + i"
      using pq \<open>i < n\<close> unat_u32_less [of q] by (intro unat_plus_of_nat) simp
    ultimately show ?thesis using pq by simp
  qed
  moreover have "unat q \<le> unat a" if "a \<in> region q k" for a
  proof -
    obtain i where "i < k" "a = q + of_nat i" using \<open>a \<in> region q k\<close> by blast
    moreover have "unat (q + of_nat i) = unat q + i"
      using q \<open>i < k\<close> by (intro unat_plus_of_nat) simp
    ultimately show ?thesis by simp
  qed
  ultimately show ?thesis by fastforce
qed

lemma region_iff:
  "unat p + n \<le> 2 ^ 32 \<Longrightarrow> a \<in> region p n \<longleftrightarrow> unat p \<le> unat a \<and> unat a < unat p + n"
proof
  assume fits: "unat p + n \<le> 2 ^ 32"
  show "unat p \<le> unat a \<and> unat a < unat p + n" if "a \<in> region p n"
  proof -
    obtain i where i: "i < n" "a = p + of_nat i" using \<open>a \<in> _\<close> by blast
    have "unat p + i < 2 ^ 32" using i(1) fits by simp
    from unat_plus_of_nat [OF this] i show ?thesis by simp
  qed
  assume a: "unat p \<le> unat a \<and> unat a < unat p + n"
  define i where "i = unat a - unat p"
  have i: "i < n" "unat a = unat p + i" using a by (auto simp: i_def)
  have "unat (p + of_nat i) = unat a" using unat_plus_of_nat [of p i] i unat_u32_less [of a] by simp
  then have "a = p + of_nat i" by (simp add: word_unat_eq_iff)
  with i(1) show "a \<in> region p n" by blast
qed

lemma region_mono: "n \<le> k \<Longrightarrow> region p n \<subseteq> region p k"
  by (auto simp: region_def)

lemma length_bytes_at [simp]: "length (bytes_at m p n) = n"
  by (simp add: bytes_at_def)

lemma nth_bytes_at [simp]: "i < n \<Longrightarrow> bytes_at m p n ! i = m (p + of_nat i)"
  by (simp add: bytes_at_def)

lemma bytes_at_cong:
  "(\<And>a. a \<in> region p n \<Longrightarrow> m a = m' a) \<Longrightarrow> bytes_at m p n = bytes_at m' p n"
  by (simp add: bytes_at_def region_memI)

lemma bytes_at_eqI:
  "(\<And>i. i < n \<Longrightarrow> m (p + of_nat i) = m' (q + of_nat i)) \<Longrightarrow> bytes_at m p n = bytes_at m' q n"
  by (simp add: bytes_at_def)

subsection \<open>NUL-terminated strings\<close>

text \<open>\<open>cstr m p s\<close>: the bytes at \<open>p\<close> are those of \<open>s\<close>, none of them NUL, then a NUL.\<close>

fun cstr :: "mem \<Rightarrow> ptr \<Rightarrow> u8 list \<Rightarrow> bool" where
  "cstr m p [] = (m p = 0)"
| "cstr m p (c # cs) = (c \<noteq> 0 \<and> m p = c \<and> cstr m (p + 1) cs)"

lemma cstr_cong:
  "(\<And>a. a \<in> region p (Suc (length s)) \<Longrightarrow> m a = m' a) \<Longrightarrow> cstr m p s = cstr m' p s"
proof (induction s arbitrary: p)
  case Nil
  then show ?case by (simp add: region_Suc)
next
  case (Cons c s)
  have "cstr m (p + 1) s = cstr m' (p + 1) s"
    by (rule Cons.IH) (use Cons.prems in \<open>simp add: region_Suc\<close>)
  with Cons.prems show ?case by (auto simp: region_Suc)
qed

lemma cstr_nth: "cstr m p s \<Longrightarrow> i < length s \<Longrightarrow> m (p + of_nat i) = s ! i"
proof (induction s arbitrary: p i)
  case Nil
  then show ?case by simp
next
  case (Cons c s)
  show ?case
  proof (cases i)
    case 0
    with Cons.prems show ?thesis by simp
  next
    case (Suc j)
    with Cons.prems have "m (p + 1 + of_nat j) = s ! j"
      by (intro Cons.IH) auto
    then show ?thesis by (simp add: Suc add.assoc)
  qed
qed

lemma cstr_end: "cstr m p s \<Longrightarrow> m (p + of_nat (length s)) = 0"
  by (induction s arbitrary: p) (auto simp: add.assoc [symmetric])

lemma cstr_nonzero: "cstr m p s \<Longrightarrow> 0 \<notin> set s"
  by (induction s arbitrary: p) auto

lemma cstrI:
  assumes "0 \<notin> set s"
    and "\<And>i. i < length s \<Longrightarrow> m (p + of_nat i) = s ! i"
    and "m (p + of_nat (length s)) = 0"
  shows "cstr m p s"
  using assms
proof (induction s arbitrary: p)
  case Nil
  then show ?case by simp
next
  case (Cons c s)
  have "cstr m (p + 1) s"
  proof (rule Cons.IH)
    show "0 \<notin> set s" using Cons.prems(1) by simp
    show "m (p + 1 + of_nat i) = s ! i" if "i < length s" for i
      using Cons.prems(2) [of "Suc i"] that by (simp add: add.assoc)
    show "m (p + 1 + of_nat (length s)) = 0"
      using Cons.prems(3) by (simp add: add.assoc)
  qed
  with Cons.prems(1) Cons.prems(2) [of 0] show ?case by simp
qed

lemma cstr_unique: "cstr m p s \<Longrightarrow> cstr m p t \<Longrightarrow> s = t"
proof (induction s arbitrary: p t)
  case Nil
  then show ?case by (cases t) auto
next
  case (Cons c s)
  then show ?case by (cases t) auto
qed

subsection \<open>Addresses below and above a bound\<close>

lemma region_above:
  assumes "b \<in> region (of_nat c :: ptr) n" and "c + n \<le> 2 ^ 32"
  shows "c \<le> unat b"
proof -
  obtain i where i: "i < n" "b = of_nat c + of_nat i" using assms(1) by blast
  have "b = of_nat (c + i)" using i(2) by simp
  then have "unat b = c + i" using i(1) assms(2) by (simp only:) (rule unat_of_nat_u32, simp)
  then show ?thesis by simp
qed

lemma cstr_below:
  assumes "cstr m p s" and "unat p + length s < a" and "a \<le> 2 ^ 32" and "\<And>b. unat b < a \<Longrightarrow> m' b = m b"
  shows "cstr m' p s"
proof -
  have "unat b < a" if "b \<in> region p (Suc (length s))" for b
  proof -
    obtain i where i: "i < Suc (length s)" "b = p + of_nat i" using \<open>b \<in> _\<close> by blast
    have "unat p + i < 2 ^ 32" using i(1) assms(2,3) by simp
    from unat_plus_of_nat [OF this] show ?thesis using i assms(2) by simp
  qed
  then have "cstr m' p s = cstr m p s" using assms(4) by (intro cstr_cong) auto
  with assms(1) show ?thesis by simp
qed

subsection \<open>Memories for the examples\<close>

text \<open>A table of string literals: the strings of \<open>names\<close>, 64 bytes apart, from \<open>0x1000\<close> on.\<close>

definition lit_mem :: "string list \<Rightarrow> mem" where
  "lit_mem names a = (let k = unat a - 0x1000
     in if k div 64 < length names \<and> k mod 64 < length (names ! (k div 64))
        then of_char (names ! (k div 64) ! (k mod 64)) else 0)"

definition lit_index :: "string list \<Rightarrow> string \<Rightarrow> nat" where
  "lit_index names s = length (takeWhile (\<lambda>t. t \<noteq> s) names)"

definition lit_addr :: "string list \<Rightarrow> string \<Rightarrow> ptr" where
  "lit_addr names s = 0x1000 + of_nat (64 * lit_index names s)"

lemma lit_index: "s \<in> set names \<Longrightarrow> lit_index names s < length names \<and> names ! lit_index names s = s"
  by (induction names) (auto simp: lit_index_def)

lemma unat_lit_addr:
  assumes "s \<in> set names" and "length names < 0x1000" and "j < 64"
  shows "unat (lit_addr names s + of_nat j) = 0x1000 + 64 * lit_index names s + j"
proof -
  have i: "lit_index names s < 0x1000" using lit_index [OF assms(1)] assms(2) by simp
  have "lit_addr names s + of_nat j = 0x1000 + of_nat (64 * lit_index names s + j)"
    by (simp add: lit_addr_def)
  then have "unat (lit_addr names s + of_nat j) = unat (0x1000 :: ptr) + (64 * lit_index names s + j)"
    using i assms(3) unat_plus_of_nat [of "0x1000" "64 * lit_index names s + j"] by (simp add: add.assoc)
  then show ?thesis by simp
qed

lemma lit_addr_less:
  "s \<in> set names \<Longrightarrow> length names < 0x1000 \<Longrightarrow> length s < 64 \<Longrightarrow>
    unat (lit_addr names s) + length s < 0x60000"
  using unat_lit_addr [of s names 0] lit_index [of s names] by simp

lemma cstr_lit_mem:
  assumes "s \<in> set names" and "length names < 0x1000" and "length s < 64" and "0 \<notin> set (bytes s)"
  shows "cstr (lit_mem names) (lit_addr names s) (bytes s)"
proof (rule cstrI)
  note i = lit_index [OF assms(1)]
  have at: "lit_mem names (lit_addr names s + of_nat j) = (if j < length s then of_char (s ! j) else 0)"
    if "j < 64" for j
    using unat_lit_addr [OF assms(1,2) that] i that by (simp add: lit_mem_def Let_def)
  show "lit_mem names (lit_addr names s + of_nat j) = bytes s ! j" if "j < length (bytes s)" for j
    using at [of j] that assms(3) by (simp add: bytes_def)
  show "lit_mem names (lit_addr names s + of_nat (length (bytes s))) = 0"
    using at [of "length s"] assms(3) by (simp add: bytes_def)
qed (fact assms(4))

end
