(* ===== verification/CString.thy ===== *)
theory CString
  imports Prelude
begin

text \<open>
  \<open>lib/string.c\<close>, the copying, comparing and searching routines, on the flat byte memory.
  A \<open>for\<close> loop with a fixed bound is a fold over its index range or a recursion on the index;
  a scan for a NUL, which no bound stops, is a \<^theory_text>\<open>partial_function\<close> whose
  \<open>None\<close> is a scan that never ends. The second half of the theory shows what each routine
  computes on well-formed strings, as a function on byte lists.
\<close>

subsection \<open>Block operations\<close>

definition copy_byte :: "ptr \<Rightarrow> ptr \<Rightarrow> nat \<Rightarrow> mem \<Rightarrow> mem" where
  "copy_byte d s i m = m(d + of_nat i := m (s + of_nat i))"

definition memcpy :: "mem \<Rightarrow> ptr \<Rightarrow> ptr \<Rightarrow> u32 \<Rightarrow> mem \<times> ptr" where
  "memcpy m dest src n = (fold (copy_byte dest src) [0..<unat n] m, dest)"

definition set_byte :: "ptr \<Rightarrow> u8 \<Rightarrow> nat \<Rightarrow> mem \<Rightarrow> mem" where
  "set_byte p c i m = m(p + of_nat i := c)"

definition memset :: "mem \<Rightarrow> ptr \<Rightarrow> u32 \<Rightarrow> u32 \<Rightarrow> mem \<times> ptr" where
  "memset m s c n = (fold (set_byte s (ucast c)) [0..<unat n] m, s)"

definition memmove :: "mem \<Rightarrow> ptr \<Rightarrow> ptr \<Rightarrow> u32 \<Rightarrow> mem \<times> ptr" where
  "memmove m dest src n =
     (if dest < src then fold (copy_byte dest src) [0..<unat n] m
      else fold (copy_byte dest src) (rev [0..<unat n]) m, dest)"

fun memcmp_loop :: "mem \<Rightarrow> ptr \<Rightarrow> ptr \<Rightarrow> nat list \<Rightarrow> int" where
  "memcmp_loop m a b [] = 0"
| "memcmp_loop m a b (i # is) =
     (if m (a + of_nat i) \<noteq> m (b + of_nat i)
      then uint (m (a + of_nat i)) - uint (m (b + of_nat i))
      else memcmp_loop m a b is)"

definition memcmp :: "mem \<Rightarrow> ptr \<Rightarrow> ptr \<Rightarrow> u32 \<Rightarrow> int" where
  "memcmp m s1 s2 n = memcmp_loop m s1 s2 [0..<unat n]"

subsection \<open>String operations\<close>

partial_function (option) strlen_loop :: "mem \<Rightarrow> ptr \<Rightarrow> u32 \<Rightarrow> u32 option" where
  "strlen_loop m s len = (if m (s + len) \<noteq> 0 then strlen_loop m s (len + 1) else Some len)"

definition strlen :: "mem \<Rightarrow> ptr \<Rightarrow> u32 option" where
  "strlen m s = strlen_loop m s 0"

partial_function (option) strcmp :: "mem \<Rightarrow> ptr \<Rightarrow> ptr \<Rightarrow> int option" where
  "strcmp m s1 s2 =
     (if m s1 \<noteq> 0 \<and> m s1 = m s2 then strcmp m (s1 + 1) (s2 + 1)
      else Some (uint (m s1) - uint (m s2)))"

fun strncmp_loop :: "mem \<Rightarrow> ptr \<Rightarrow> ptr \<Rightarrow> nat list \<Rightarrow> int" where
  "strncmp_loop m s1 s2 [] = 0"
| "strncmp_loop m s1 s2 (i # is) =
     (if m (s1 + of_nat i) \<noteq> m (s2 + of_nat i)
      then uint (m (s1 + of_nat i)) - uint (m (s2 + of_nat i))
      else if m (s1 + of_nat i) = 0 then 0
      else strncmp_loop m s1 s2 is)"

definition strncmp :: "mem \<Rightarrow> ptr \<Rightarrow> ptr \<Rightarrow> u32 \<Rightarrow> int" where
  "strncmp m s1 s2 n = strncmp_loop m s1 s2 [0..<unat n]"

partial_function (option) strcpy_loop :: "mem \<Rightarrow> ptr \<Rightarrow> ptr \<Rightarrow> mem option" where
  "strcpy_loop m d s =
     (let c = m s; m' = m(d := c)
      in if c \<noteq> 0 then strcpy_loop m' (d + 1) (s + 1) else Some m')"

definition strcpy :: "mem \<Rightarrow> ptr \<Rightarrow> ptr \<Rightarrow> (mem \<times> ptr) option" where
  "strcpy m dest src = map_option (\<lambda>m'. (m', dest)) (strcpy_loop m dest src)"

text \<open>
  \<open>strncpy\<close>: the first loop copies while \<open>i < n\<close> and the source byte is not NUL, the second
  fills the rest with NULs. The first loop hands its index to the second.
\<close>

fun strncpy_pad :: "mem \<Rightarrow> ptr \<Rightarrow> nat list \<Rightarrow> mem" where
  "strncpy_pad m dest [] = m"
| "strncpy_pad m dest (i # is) = strncpy_pad (m(dest + of_nat i := 0)) dest is"

fun strncpy_loop :: "mem \<Rightarrow> ptr \<Rightarrow> ptr \<Rightarrow> nat list \<Rightarrow> mem" where
  "strncpy_loop m dest src [] = m"
| "strncpy_loop m dest src (i # is) =
     (if m (src + of_nat i) \<noteq> 0
      then strncpy_loop (m(dest + of_nat i := m (src + of_nat i))) dest src is
      else strncpy_pad m dest (i # is))"

definition strncpy :: "mem \<Rightarrow> ptr \<Rightarrow> ptr \<Rightarrow> u32 \<Rightarrow> mem \<times> ptr" where
  "strncpy m dest src n = (strncpy_loop m dest src [0..<unat n], dest)"

partial_function (option) find_end :: "mem \<Rightarrow> ptr \<Rightarrow> ptr option" where
  "find_end m d = (if m d \<noteq> 0 then find_end m (d + 1) else Some d)"

definition strcat :: "mem \<Rightarrow> ptr \<Rightarrow> ptr \<Rightarrow> (mem \<times> ptr) option" where
  "strcat m dest src =
     (case find_end m dest of
        None \<Rightarrow> None
      | Some d \<Rightarrow> map_option (\<lambda>m'. (m', dest)) (strcpy_loop m d src))"

definition strdup :: "mem \<Rightarrow> ptr \<Rightarrow> ptr" where
  "strdup m s = 0"

partial_function (option) strchr :: "mem \<Rightarrow> ptr \<Rightarrow> u32 \<Rightarrow> ptr option" where
  "strchr m s c =
     (if m s = 0 then Some 0 else if m s = ucast c then Some s else strchr m (s + 1) c)"

partial_function (option) strrchr_loop :: "mem \<Rightarrow> ptr \<Rightarrow> u32 \<Rightarrow> ptr \<Rightarrow> ptr option" where
  "strrchr_loop m s c lst =
     (if m s = 0 then Some lst
      else strrchr_loop m (s + 1) c (if m s = ucast c then s else lst))"

definition strrchr :: "mem \<Rightarrow> ptr \<Rightarrow> u32 \<Rightarrow> ptr option" where
  "strrchr m s c = strrchr_loop m s c 0"

partial_function (option) strstr_loop :: "mem \<Rightarrow> ptr \<Rightarrow> ptr \<Rightarrow> u32 \<Rightarrow> ptr option" where
  "strstr_loop m haystack needle needle_len =
     (if m haystack = 0 then Some 0
      else if strncmp m haystack needle needle_len = 0 then Some haystack
      else strstr_loop m (haystack + 1) needle needle_len)"

definition strstr :: "mem \<Rightarrow> ptr \<Rightarrow> ptr \<Rightarrow> ptr option" where
  "strstr m haystack needle =
     (case strlen m needle of
        None \<Rightarrow> None
      | Some needle_len \<Rightarrow>
          if needle_len = 0 then Some haystack
          else strstr_loop m haystack needle needle_len)"

subsection \<open>Block operations: what they compute\<close>

text \<open>\<open>overlay m d n f\<close> is \<open>m\<close> with \<open>f i\<close> stored at \<open>d + i\<close> for every \<open>i < n\<close>.\<close>

definition overlay :: "mem \<Rightarrow> ptr \<Rightarrow> nat \<Rightarrow> (nat \<Rightarrow> u8) \<Rightarrow> mem" where
  "overlay m d n f a = (if unat (a - d) < n then f (unat (a - d)) else m a)"

lemma overlay_hit: "i < n \<Longrightarrow> n \<le> 2 ^ 32 \<Longrightarrow> overlay m d n f (d + of_nat i) = f i"
  by (simp add: overlay_def unat_of_nat)

lemma overlay_miss: "n \<le> 2 ^ 32 \<Longrightarrow> a \<notin> region d n \<Longrightarrow> overlay m d n f a = m a"
proof -
  assume "n \<le> 2 ^ 32" and miss: "a \<notin> region d n"
  have "\<not> unat (a - d) < n"
  proof
    assume "unat (a - d) < n"
    then have "d + of_nat (unat (a - d)) \<in> region d n" by (rule region_memI)
    with miss show False by simp
  qed
  then show ?thesis by (simp add: overlay_def)
qed

lemma overlay_0 [simp]: "overlay m d 0 f = m"
  by (simp add: overlay_def fun_eq_iff)

lemma overlay_Suc:
  assumes "n < 2 ^ 32"
  shows "(overlay m d n f)(d + of_nat n := f n) = overlay m d (Suc n) f"
proof
  fix a
  show "((overlay m d n f)(d + of_nat n := f n)) a = overlay m d (Suc n) f a"
  proof (cases "a = d + of_nat n")
    case True
    then have "unat (a - d) = n" using assms by (simp add: unat_of_nat_u32)
    then show ?thesis using True by (simp add: overlay_def)
  next
    case False
    have "unat (a - d) \<noteq> n"
    proof
      assume "unat (a - d) = n"
      then have "of_nat n = a - d" by (metis word_unat_eq_iff unat_of_nat_u32 assms)
      then have "a = d + of_nat n" by simp
      with False show False by simp
    qed
    then have "unat (a - d) < Suc n \<longleftrightarrow> unat (a - d) < n" by arith
    then show ?thesis using False by (simp add: overlay_def)
  qed
qed

lemma memset_overlay: "fst (memset m s c n) = overlay m s (unat n) (\<lambda>_. ucast c)"
proof -
  have "fold (set_byte s (ucast c)) [0..<k] m = overlay m s k (\<lambda>_. ucast c)"
    if "k \<le> 2 ^ 32" for k
    using that
  proof (induction k)
    case 0
    then show ?case by simp
  next
    case (Suc k)
    then have "fold (set_byte s (ucast c)) [0..<k] m = overlay m s k (\<lambda>_. ucast c)" by simp
    moreover have "set_byte s (ucast c) k (overlay m s k (\<lambda>_. ucast c))
        = overlay m s (Suc k) (\<lambda>_. ucast c)"
      using overlay_Suc [of k m s "\<lambda>_. ucast c"] Suc.prems by (simp add: set_byte_def)
    ultimately show ?case by simp
  qed
  then show ?thesis using unat_u32_less [of n] by (simp add: memset_def)
qed

text \<open>
  A forward copy reads every source byte before it overwrites it unless an earlier iteration
  stored at that address; a backward copy is the mirror image.
\<close>

lemma copy_forward:
  assumes "k \<le> 2 ^ 32"
    and apart: "\<And>i j. j < i \<Longrightarrow> i < k \<Longrightarrow> s + of_nat i \<noteq> d + of_nat j"
  shows "fold (copy_byte d s) [0..<k] m = overlay m d k (\<lambda>i. m (s + of_nat i))"
  using assms
proof (induction k)
  case 0
  then show ?case by simp
next
  case (Suc k)
  let ?f = "\<lambda>i. m (s + of_nat i)"
  have IH: "fold (copy_byte d s) [0..<k] m = overlay m d k ?f"
    by (rule Suc.IH) (use Suc.prems in auto)
  have "s + of_nat k \<notin> region d k"
    using Suc.prems(2) by (auto simp: region_def)
  then have "overlay m d k ?f (s + of_nat k) = ?f k"
    using Suc.prems(1) by (simp add: overlay_miss)
  then have "copy_byte d s k (overlay m d k ?f) = overlay m d (Suc k) ?f"
    using Suc.prems(1) overlay_Suc [of k m d ?f] by (simp add: copy_byte_def)
  then show ?case by (simp add: IH)
qed

lemma copy_backward:
  assumes "n \<le> 2 ^ 32" and "k \<le> n"
    and apart: "\<And>i j. i < j \<Longrightarrow> j < n \<Longrightarrow> s + of_nat i \<noteq> d + of_nat j"
    and above: "\<And>a. m' a = (if \<exists>j. k \<le> j \<and> j < n \<and> a = d + of_nat j
                              then m (s + (a - d)) else m a)"
  shows "fold (copy_byte d s) (rev [0..<k]) m' = overlay m d n (\<lambda>i. m (s + of_nat i))"
  using assms(2) above
proof (induction k arbitrary: m')
  case 0
  show ?case
  proof
    fix a
    have "(\<exists>j. j < n \<and> a = d + of_nat j) \<longleftrightarrow> unat (a - d) < n"
    proof
      assume "\<exists>j. j < n \<and> a = d + of_nat j"
      then obtain j where j: "j < n" "a = d + of_nat j" by blast
      then have "unat (a - d) = j" using assms(1) by (simp add: unat_of_nat_u32)
      with j(1) show "unat (a - d) < n" by simp
    next
      assume "unat (a - d) < n"
      moreover have "a = d + of_nat (unat (a - d))" by simp
      ultimately show "\<exists>j. j < n \<and> a = d + of_nat j" by blast
    qed
    with 0 show "fold (copy_byte d s) (rev [0..<0]) m' a = overlay m d n (\<lambda>i. m (s + of_nat i)) a"
      by (simp add: overlay_def)
  qed
next
  case (Suc k)
  have src: "m' (s + of_nat k) = m (s + of_nat k)"
  proof -
    have "\<not> (\<exists>j. Suc k \<le> j \<and> j < n \<and> s + of_nat k = d + of_nat j)"
      using apart [of k] by auto
    then show ?thesis by (simp only: Suc.prems(2) if_False)
  qed
  let ?m = "copy_byte d s k m'"
  have "fold (copy_byte d s) (rev [0..<k]) ?m = overlay m d n (\<lambda>i. m (s + of_nat i))"
  proof (rule Suc.IH)
    show "k \<le> n" using Suc.prems(1) by simp
    fix a
    show "?m a = (if \<exists>j. k \<le> j \<and> j < n \<and> a = d + of_nat j then m (s + (a - d)) else m a)"
    proof (cases "a = d + of_nat k")
      case True
      moreover have "\<exists>j. k \<le> j \<and> j < n \<and> a = d + of_nat j"
        using True Suc.prems(1) by (intro exI [of _ k]) simp
      ultimately show ?thesis using src by (simp add: copy_byte_def)
    next
      case False
      then have "(\<exists>j. k \<le> j \<and> j < n \<and> a = d + of_nat j)
          \<longleftrightarrow> (\<exists>j. Suc k \<le> j \<and> j < n \<and> a = d + of_nat j)"
        by (metis Suc_leD Suc_leI le_neq_implies_less)
      with False show ?thesis by (simp add: copy_byte_def Suc.prems(2))
    qed
  qed
  then show ?case by simp
qed

lemma offsets_apart:
  assumes "unat (d :: u32) + n \<le> 2 ^ 32" and "unat s + n \<le> 2 ^ 32"
    and "i < n" and "j < n" and "s + of_nat i = d + of_nat j"
  shows "unat s + i = unat d + j"
proof -
  have "unat (s + of_nat i) = unat s + i" "unat (d + of_nat j) = unat d + j"
    using assms(1-4) by (auto intro!: unat_plus_of_nat)
  with assms(5) show ?thesis by simp
qed

lemma memmove_overlay:
  assumes "unat d + unat n \<le> 2 ^ 32" and "unat s + unat n \<le> 2 ^ 32"
  shows "fst (memmove m d s n) = overlay m d (unat n) (\<lambda>i. m (s + of_nat i))"
proof (cases "d < s")
  case True
  then have less: "unat d < unat s" by (simp add: word_less_nat_alt)
  have "fold (copy_byte d s) [0..<unat n] m = overlay m d (unat n) (\<lambda>i. m (s + of_nat i))"
  proof (rule copy_forward)
    show "unat n \<le> 2 ^ 32" using assms(1) by simp
    show "s + of_nat i \<noteq> d + of_nat j" if "j < i" "i < unat n" for i j
      using offsets_apart [OF assms, of i j] that less by auto
  qed
  with True show ?thesis by (simp add: memmove_def)
next
  case False
  then have le: "unat s \<le> unat d" by (simp add: word_le_nat_alt not_less)
  have "fold (copy_byte d s) (rev [0..<unat n]) m = overlay m d (unat n) (\<lambda>i. m (s + of_nat i))"
  proof (rule copy_backward)
    show "unat n \<le> 2 ^ 32" using assms(1) by simp
    show "s + of_nat i \<noteq> d + of_nat j" if "i < j" "j < unat n" for i j
      using offsets_apart [OF assms, of i j] that le by auto
  qed auto
  with False show ?thesis by (simp add: memmove_def)
qed

lemma memcpy_overlay:
  assumes "region d (unat n) \<inter> region s (unat n) = {}"
  shows "fst (memcpy m d s n) = overlay m d (unat n) (\<lambda>i. m (s + of_nat i))"
proof -
  have "s + of_nat i \<noteq> d + of_nat j" if "j < i" "i < unat n" for i j
  proof -
    have "d + of_nat j \<in> region d (unat n)" "s + of_nat i \<in> region s (unat n)"
      using that by auto
    with assms show ?thesis by auto
  qed
  then show ?thesis
    using unat_u32_less [of n] by (simp add: memcpy_def copy_forward)
qed

lemma bytes_at_overlay:
  "n \<le> 2 ^ 32 \<Longrightarrow> bytes_at (overlay m d n f) d n = map f [0..<n]"
  by (simp add: bytes_at_def overlay_hit)

subsection \<open>String operations: what they compute\<close>

text \<open>The reference functions, on the bytes of a string without its NUL.\<close>

fun strcmp_l :: "u8 list \<Rightarrow> u8 list \<Rightarrow> int" where
  "strcmp_l [] [] = 0"
| "strcmp_l [] (d # ds) = - uint d"
| "strcmp_l (c # cs) [] = uint c"
| "strcmp_l (c # cs) (d # ds) = (if c = d then strcmp_l cs ds else uint c - uint d)"

fun write_bytes :: "mem \<Rightarrow> ptr \<Rightarrow> u8 list \<Rightarrow> mem" where
  "write_bytes m p [] = m"
| "write_bytes m p (x # xs) = write_bytes (m(p := x)) (p + 1) xs"

definition strncpy_l :: "u8 list \<Rightarrow> nat \<Rightarrow> u8 list" where
  "strncpy_l s n = take n s @ replicate (n - length s) 0"

lemma strlen_loop_cstr:
  "cstr m (p + len) s \<Longrightarrow> strlen_loop m p len = Some (len + of_nat (length s))"
  by (induction s arbitrary: len) (auto simp: strlen_loop.simps add.assoc)

lemma strlen_cstr [cstr_refine]: "cstr m p s \<Longrightarrow> strlen m p = Some (of_nat (length s))"
  using strlen_loop_cstr [of m p 0 s] by (simp add: strlen_def)

lemma strcmp_cstr [cstr_refine]:
  "cstr m p s \<Longrightarrow> cstr m q t \<Longrightarrow> strcmp m p q = Some (strcmp_l s t)"
proof (induction s t arbitrary: p q rule: strcmp_l.induct)
  case 1
  then show ?case by (simp add: strcmp.simps)
next
  case (2 d ds)
  then show ?case by (simp add: strcmp.simps)
next
  case (3 c cs)
  then show ?case by (simp add: strcmp.simps)
next
  case (4 c cs d ds)
  show ?case
  proof (cases "c = d")
    case True
    then have "strcmp m (p + 1) (q + 1) = Some (strcmp_l cs ds)"
      using "4.prems" by (intro "4.IH") auto
    with True "4.prems" show ?thesis by (subst strcmp.simps) auto
  next
    case False
    with "4.prems" show ?thesis by (subst strcmp.simps) auto
  qed
qed

lemma strcmp_l_0_iff: "0 \<notin> set s \<Longrightarrow> 0 \<notin> set t \<Longrightarrow> strcmp_l s t = 0 \<longleftrightarrow> s = t"
proof (induction s t rule: strcmp_l.induct)
  case (4 c cs d ds)
  have "uint c \<noteq> uint d" if "c \<noteq> d" using that by (simp add: word_uint_eq_iff)
  with 4 show ?case by auto
qed (auto simp: uint_0_iff)

lemma strcmp_l_swap: "strcmp_l t s = - strcmp_l s t"
  by (induction s t rule: strcmp_l.induct) auto

lemma strncmp_loop_shift:
  "strncmp_loop m p q (map Suc is) = strncmp_loop m (p + 1) (q + 1) is"
  by (induction "is") (auto simp: add.assoc)

lemma strncmp_loop_cstr:
  "cstr m p s \<Longrightarrow> cstr m q t \<Longrightarrow>
    strncmp_loop m p q [0..<n] = strcmp_l (take n s) (take n t)"
proof (induction n arbitrary: p q s t)
  case 0
  then show ?case by simp
next
  case (Suc n)
  have upt: "[0..<Suc n] = 0 # map Suc [0..<n]"
    by (simp add: upt_conv_Cons map_Suc_upt del: upt_Suc)
  show ?case
  proof (cases s; cases t)
    fix c cs d ds
    assume "s = c # cs" and "t = d # ds"
    with Suc.prems Suc.IH [of "p + 1" cs "q + 1" ds] show ?thesis
      by (simp only: upt) (auto simp: strncmp_loop_shift)
  qed (use Suc.prems in \<open>auto simp add: upt simp del: upt_Suc\<close>)
qed

lemma strncmp_cstr [cstr_refine]:
  "cstr m p s \<Longrightarrow> cstr m q t \<Longrightarrow>
    strncmp m p q n = strcmp_l (take (unat n) s) (take (unat n) t)"
  by (simp add: strncmp_def strncmp_loop_cstr)

lemma strchr_cstr [cstr_refine]:
  "cstr m p s \<Longrightarrow> strchr m p c =
    Some (if ucast c \<in> set s then p + of_nat (length (takeWhile (\<lambda>x. x \<noteq> ucast c) s)) else 0)"
proof (induction s arbitrary: p)
  case Nil
  then show ?case by (simp add: strchr.simps)
next
  case (Cons x s)
  show ?case
    by (subst strchr.simps) (use Cons in \<open>auto simp: add.assoc\<close>)
qed

lemma strrchr_loop_cstr:
  "cstr m p s \<Longrightarrow>
    (ucast c \<notin> set s \<and> strrchr_loop m p c l = Some l) \<or>
    (\<exists>ys zs. s = ys @ ucast c # zs \<and> ucast c \<notin> set zs
       \<and> strrchr_loop m p c l = Some (p + of_nat (length ys)))"
proof (induction s arbitrary: p l)
  case Nil
  then show ?case by (simp add: strrchr_loop.simps)
next
  case (Cons x s)
  let ?l = "if x = ucast c then p else l"
  have unf: "strrchr_loop m p c l = strrchr_loop m (p + 1) c ?l"
    using Cons.prems by (subst strrchr_loop.simps) auto
  from Cons.prems have "cstr m (p + 1) s" by simp
  from Cons.IH [OF this, of ?l] show ?case
  proof (elim disjE exE conjE)
    assume notin: "ucast c \<notin> set s" and res: "strrchr_loop m (p + 1) c ?l = Some ?l"
    show ?case
    proof (cases "x = ucast c")
      case True
      then show ?thesis using notin res
        by (intro disjI2 exI [of _ "[]"] exI [of _ s]) (simp add: unf)
    next
      case False
      then show ?thesis using notin res by (intro disjI1) (simp add: unf)
    qed
  next
    fix ys zs
    assume "s = ys @ ucast c # zs" "ucast c \<notin> set zs"
      "strrchr_loop m (p + 1) c ?l = Some (p + 1 + of_nat (length ys))"
    then show ?case
      by (intro disjI2 exI [of _ "x # ys"] exI [of _ zs]) (simp add: unf add.assoc)
  qed
qed

lemma cstr_drop: "cstr m p s \<Longrightarrow> i \<le> length s \<Longrightarrow> cstr m (p + of_nat i) (drop i s)"
proof (induction s arbitrary: p i)
  case Nil
  then show ?case by simp
next
  case (Cons c s)
  then show ?case by (cases i) (auto simp: add.assoc [symmetric])
qed

lemma strncmp_prefix_iff:
  assumes "cstr m p s" and "cstr m q t" and "length t < 2 ^ 32"
  shows "strncmp m p q (of_nat (length t)) = 0 \<longleftrightarrow> take (length t) s = t"
proof -
  have "0 \<notin> set (take (length t) s)" "0 \<notin> set t"
    using assms(1,2) by (auto dest: cstr_nonzero in_set_takeD)
  then show ?thesis
    using assms by (simp add: strncmp_cstr unat_of_nat_u32 strcmp_l_0_iff)
qed

lemma strstr_loop_cstr:
  assumes "cstr m p s" and "cstr m q t" and "length t < 2 ^ 32" and "t \<noteq> []"
  shows "(\<exists>i < length s. strstr_loop m p q (of_nat (length t)) = Some (p + of_nat i)
            \<and> take (length t) (drop i s) = t \<and> (\<forall>j < i. take (length t) (drop j s) \<noteq> t))
       \<or> (strstr_loop m p q (of_nat (length t)) = Some 0
            \<and> (\<forall>j \<le> length s. take (length t) (drop j s) \<noteq> t))"
  using assms(1)
proof (induction s arbitrary: p)
  case Nil
  then show ?case using assms(4) by (simp add: strstr_loop.simps)
next
  case (Cons c s)
  let ?n = "of_nat (length t) :: u32"
  note prefix = strncmp_prefix_iff [OF Cons.prems assms(2,3)]
  show ?case
  proof (cases "take (length t) (c # s) = t")
    case True
    with Cons.prems prefix have "strstr_loop m p q ?n = Some p"
      by (subst strstr_loop.simps) auto
    with True show ?thesis by (intro disjI1 exI [of _ 0]) simp
  next
    case False
    with Cons.prems prefix have unf: "strstr_loop m p q ?n = strstr_loop m (p + 1) q ?n"
      by (subst strstr_loop.simps) auto
    from Cons.prems have "cstr m (p + 1) s" by simp
    from Cons.IH [OF this] show ?thesis
    proof (elim disjE exE conjE)
      fix i
      assume "i < length s" "strstr_loop m (p + 1) q ?n = Some (p + 1 + of_nat i)"
        "take (length t) (drop i s) = t" "\<forall>j < i. take (length t) (drop j s) \<noteq> t"
      with False show ?thesis
        by (intro disjI1 exI [of _ "Suc i"]) (auto simp: unf add.assoc less_Suc_eq_0_disj)
    next
      assume "strstr_loop m (p + 1) q ?n = Some 0"
        "\<forall>j \<le> length s. take (length t) (drop j s) \<noteq> t"
      moreover have "take (length t) (drop j (c # s)) \<noteq> t" if "j \<le> length (c # s)" for j
        using that False calculation(2) by (cases j) auto
      ultimately show ?thesis by (intro disjI2) (simp add: unf)
    qed
  qed
qed

subsection \<open>Copying strings\<close>

lemma region_tail: "a \<in> region (p + 1) n \<Longrightarrow> a \<in> region p (Suc n)"
  by (simp add: region_Suc)

lemma region_tails_disjoint:
  "region p (Suc n) \<inter> region q (Suc k) = {} \<Longrightarrow> region (p + 1) n \<inter> region (q + 1) k = {}"
  using region_tail [of _ p n] region_tail [of _ q k] by blast

lemma write_bytes_outside: "a \<notin> region p (length xs) \<Longrightarrow> write_bytes m p xs a = m a"
  by (induction xs arbitrary: m p) (auto simp: region_Suc)

lemma write_bytes_append:
  "write_bytes m p (xs @ ys) = write_bytes (write_bytes m p xs) (p + of_nat (length xs)) ys"
  by (induction xs arbitrary: m p) (auto simp: add.assoc)

lemma notin_region_tail: "n < 2 ^ 32 \<Longrightarrow> p \<notin> region (p + 1) n"
proof
  assume "n < 2 ^ 32" and "p \<in> region (p + 1) n"
  then obtain i where i: "i < n" and "p = p + 1 + of_nat i" by auto
  then have "(1 :: u32) + of_nat i = 0" by (simp add: add.assoc)
  then have "(of_nat (Suc i) :: u32) = of_nat 0" by simp
  with i \<open>n < 2 ^ 32\<close> show False by (subst (asm) of_nat_u32_inject) auto
qed

lemma write_bytes_nth:
  "length xs \<le> 2 ^ 32 \<Longrightarrow> i < length xs \<Longrightarrow> write_bytes m p xs (p + of_nat i) = xs ! i"
proof (induction xs arbitrary: m p i)
  case Nil
  then show ?case by simp
next
  case (Cons x xs)
  show ?case
  proof (cases i)
    case 0
    have "p \<notin> region (p + 1) (length xs)"
      by (rule notin_region_tail) (use Cons.prems in simp)
    then show ?thesis by (simp add: 0 write_bytes_outside)
  next
    case (Suc j)
    have "write_bytes (m(p := x)) (p + 1) xs (p + 1 + of_nat j) = xs ! j"
      by (rule Cons.IH) (use Cons.prems Suc in auto)
    then show ?thesis
      by (simp only: Suc write_bytes.simps nth_Cons_Suc of_nat_Suc_assoc)
  qed
qed

lemma cstr_write_bytes:
  "0 \<notin> set s \<Longrightarrow> length s < 2 ^ 32 \<Longrightarrow> cstr (write_bytes m p (s @ [0])) p s"
  by (rule cstrI) (auto simp: write_bytes_nth nth_append simp del: write_bytes.simps)

lemma bytes_at_write_bytes:
  "length xs \<le> 2 ^ 32 \<Longrightarrow> bytes_at (write_bytes m p xs) p (length xs) = xs"
  by (simp add: list_eq_iff_nth_eq write_bytes_nth)

lemma strcpy_loop_cstr:
  "cstr m src s \<Longrightarrow> region dest (Suc (length s)) \<inter> region src (Suc (length s)) = {} \<Longrightarrow>
    strcpy_loop m dest src = Some (write_bytes m dest (s @ [0]))"
proof (induction s arbitrary: m dest src)
  case Nil
  then show ?case by (subst strcpy_loop.simps) (simp add: Let_def)
next
  case (Cons c s)
  let ?m = "m(dest := c)"
  have "cstr ?m (src + 1) s = cstr m (src + 1) s"
    by (rule cstr_cong) (use Cons.prems(2) in \<open>auto simp: region_Suc\<close>)
  with Cons.prems(1) have "cstr ?m (src + 1) s" by simp
  moreover have "region (dest + 1) (Suc (length s)) \<inter> region (src + 1) (Suc (length s)) = {}"
    by (rule region_tails_disjoint) (use Cons.prems(2) in simp)
  ultimately have "strcpy_loop ?m (dest + 1) (src + 1) = Some (write_bytes ?m (dest + 1) (s @ [0]))"
    by (rule Cons.IH)
  with Cons.prems(1) show ?case by (subst strcpy_loop.simps) (simp add: Let_def)
qed

lemma find_end_cstr: "cstr m p s \<Longrightarrow> find_end m p = Some (p + of_nat (length s))"
  by (induction s arbitrary: p) (auto simp: find_end.simps add.assoc)

lemma strcat_cstr:
  assumes "cstr m dest t" and "cstr m src s"
    and "region dest (Suc (length t + length s)) \<inter> region src (Suc (length s)) = {}"
  shows "strcat m dest src = Some (write_bytes m (dest + of_nat (length t)) (s @ [0]), dest)"
proof -
  have "dest + of_nat (length t) + of_nat i \<in> region dest (Suc (length t + length s))"
    if "i < Suc (length s)" for i
    using that region_memI [of "length t + i" "Suc (length t + length s)" dest]
    by (simp add: add.assoc)
  then have "region (dest + of_nat (length t)) (Suc (length s))
      \<subseteq> region dest (Suc (length t + length s))"
    by (auto elim!: region_memE)
  with assms(3) have "region (dest + of_nat (length t)) (Suc (length s)) \<inter> region src (Suc (length s)) = {}"
    by blast
  with assms(1,2) show ?thesis
    by (simp add: strcat_def find_end_cstr strcpy_loop_cstr)
qed

text \<open>The bytes \<open>strncpy\<close> leaves in its \<open>n\<close>-byte destination.\<close>

lemma length_strncpy_l [simp]: "length (strncpy_l s n) = n"
  by (simp add: strncpy_l_def)

lemma nth_strncpy_l: "i < n \<Longrightarrow> strncpy_l s n ! i = (if i < length s then s ! i else 0)"
  by (auto simp: strncpy_l_def nth_append)

lemma strncpy_pad_overlay:
  assumes "n \<le> 2 ^ 32" and "length s \<le> k" and "k \<le> n"
  shows "strncpy_pad (overlay m d k (\<lambda>i. if i < length s then s ! i else 0)) d [k..<n]
           = overlay m d n (\<lambda>i. if i < length s then s ! i else 0)"
  using assms(3,2)
proof (induction rule: inc_induct)
  case base
  then show ?case by simp
next
  case (step k)
  let ?f = "\<lambda>i. if i < length s then s ! i else 0"
  have "(overlay m d k ?f)(d + of_nat k := 0) = overlay m d (Suc k) ?f"
    using overlay_Suc [of k m d ?f] step.hyps step.prems assms(1) by simp
  then have "strncpy_pad (overlay m d k ?f) d (k # [Suc k..<n])
      = strncpy_pad (overlay m d (Suc k) ?f) d [Suc k..<n]" by simp
  then show ?case using step by (simp add: upt_conv_Cons)
qed

lemma strncpy_loop_overlay:
  assumes "n \<le> 2 ^ 32" and "cstr m src s"
    and apart: "region d n \<inter> region src (Suc (length s)) = {}"
    and "k \<le> n" and "k \<le> length s"
  shows "strncpy_loop (overlay m d k (\<lambda>i. if i < length s then s ! i else 0)) d src [k..<n]
           = overlay m d n (\<lambda>i. if i < length s then s ! i else 0)"
  using assms(4,5)
proof (induction rule: inc_induct)
  case base
  then show ?case by simp
next
  case (step k)
  let ?f = "\<lambda>i. if i < length s then s ! i else 0"
  let ?M = "overlay m d k ?f"
  have "src + of_nat k \<in> region src (Suc (length s))" using step.prems by auto
  with apart have "src + of_nat k \<notin> region d k"
    using step.hyps region_mono [of k n d] by auto
  then have rd: "?M (src + of_nat k) = m (src + of_nat k)"
    using step.hyps assms(1) by (intro overlay_miss) auto
  show ?case
  proof (cases "k = length s")
    case True
    then have "m (src + of_nat k) = 0" using assms(2) by (simp add: cstr_end)
    then have "strncpy_loop ?M d src (k # [Suc k..<n]) = strncpy_pad ?M d (k # [Suc k..<n])"
      using rd by (simp only: strncpy_loop.simps) simp
    then have "strncpy_loop ?M d src [k..<n] = strncpy_pad ?M d [k..<n]"
      using step.hyps by (simp only: upt_conv_Cons [of k n])
    also have "\<dots> = overlay m d n ?f"
      by (rule strncpy_pad_overlay) (use assms(1) step.hyps True in auto)
    finally show ?thesis .
  next
    case False
    with step.prems have k: "k < length s" by simp
    then have sk: "m (src + of_nat k) = s ! k" using assms(2) by (simp add: cstr_nth)
    have "s ! k \<noteq> 0" using cstr_nonzero [OF assms(2)] k by (metis nth_mem)
    moreover have "?M(d + of_nat k := s ! k) = overlay m d (Suc k) ?f"
      using overlay_Suc [of k m d ?f] step.hyps k assms(1) by simp
    ultimately have "strncpy_loop ?M d src (k # [Suc k..<n])
        = strncpy_loop (overlay m d (Suc k) ?f) d src [Suc k..<n]"
      using rd sk by simp
    then show ?thesis using step k by (simp add: upt_conv_Cons)
  qed
qed

lemma strncpy_overlay:
  assumes "cstr m src s" and "region d (unat n) \<inter> region src (Suc (length s)) = {}"
  shows "fst (strncpy m d src n) = overlay m d (unat n) (\<lambda>i. if i < length s then s ! i else 0)"
  using strncpy_loop_overlay [of "unat n" m src s d 0] assms unat_u32_less [of n]
  by (simp add: strncpy_def)

lemma strncpy_bytes_at:
  assumes "cstr m src s" and "region d (unat n) \<inter> region src (Suc (length s)) = {}"
  shows "bytes_at (fst (strncpy m d src n)) d (unat n) = strncpy_l s (unat n)"
  using assms unat_u32_less [of n]
  by (simp add: strncpy_overlay bytes_at_overlay list_eq_iff_nth_eq nth_strncpy_l)

subsection \<open>Properties\<close>

lemma strcpy_eq_write:
  assumes "cstr m src s" and "region dest (Suc (length s)) \<inter> region src (Suc (length s)) = {}"
  shows "strcpy m dest src = Some (write_bytes m dest (s @ [0]), dest)"
  using strcpy_loop_cstr [OF assms] by (simp add: strcpy_def)

text \<open>Before the end of a string every byte is part of it; at its end no needle fits.\<close>

lemma prefix_at_end: "t \<noteq> [] \<Longrightarrow> take (length t) (drop i s) = t \<Longrightarrow> i < length s"
  by (cases "i < length s") auto

text \<open>C24. \<open>memmove\<close> delivers the source bytes even when the two ranges overlap, leaves every other
  byte alone and returns \<open>dest\<close>; \<open>memcpy\<close> is the same function when the destination lies
  below the source or the ranges are disjoint.\<close>

theorem memmove_moves:
  assumes "unat dest + unat n \<le> 2 ^ 32" and "unat src + unat n \<le> 2 ^ 32"
  shows "bytes_at (fst (memmove m dest src n)) dest (unat n) = bytes_at m src (unat n)
    \<and> (\<forall>a. a \<notin> region dest (unat n) \<longrightarrow> fst (memmove m dest src n) a = m a)
    \<and> snd (memmove m dest src n) = dest
    \<and> (dest < src \<or> region dest (unat n) \<inter> region src (unat n) = {} \<longrightarrow> memcpy m dest src n = memmove m dest src n)"
proof -
  note mv = memmove_overlay [OF assms, of m]
  have n: "unat n \<le> 2 ^ 32" using assms(1) by simp
  have "memcpy m dest src n = memmove m dest src n" if "dest < src"
    using that by (simp add: memcpy_def memmove_def)
  moreover have "memcpy m dest src n = memmove m dest src n"
    if "region dest (unat n) \<inter> region src (unat n) = {}"
    using memcpy_overlay [OF that, of m] mv by (intro prod_eqI) (simp_all add: memcpy_def memmove_def)
  ultimately show ?thesis
    using n by (auto simp: mv bytes_at_overlay overlay_miss bytes_at_def overlay_hit) (simp add: memmove_def)
qed

theorem memmove_moves_witness:
  "bytes_at (fst (memmove (\<lambda>a. ucast a) 0x1002 0x1000 4)) 0x1002 4 = [0, 1, 2, 3]"
proof -
  have "bytes_at (fst (memmove (\<lambda>a. ucast a) 0x1002 0x1000 4)) 0x1002 4
      = bytes_at (\<lambda>a. ucast a) 0x1000 4"
    using memmove_moves [of "0x1002" 4 "0x1000" "\<lambda>a. ucast a"] by simp
  also have "\<dots> = [0, 1, 2, 3]" by (simp add: bytes_at_def upt_conv_Cons)
  finally show ?thesis .
qed

text \<open>C37. \<open>strstr\<close> returns the address of the first occurrence of the needle, the haystack itself
  for an empty needle, and null exactly when the needle does not occur; it always returns.\<close>

theorem strstr_first:
  assumes "cstr m p s" and "cstr m q t" and "length t < 2 ^ 32"
  shows "strstr m p q = Some (if \<exists>i. take (length t) (drop i s) = t
           then p + of_nat (LEAST i. take (length t) (drop i s) = t) else 0)"
proof (cases "t = []")
  case True
  have "(LEAST i. take (length t) (drop i s) = t) = 0" using True by (intro Least_equality) auto
  then show ?thesis using True strlen_cstr [OF assms(2)] by (auto simp: strstr_def)
next
  case False
  have "of_nat (length t) \<noteq> (0 :: u32)"
    using False assms(3) of_nat_u32_inject [of "length t" 0] by simp
  then have eq: "strstr m p q = strstr_loop m p q (of_nat (length t))"
    using strlen_cstr [OF assms(2)] by (simp add: strstr_def)
  from strstr_loop_cstr [OF assms False] show ?thesis
  proof (elim disjE exE conjE)
    fix i
    assume i: "strstr_loop m p q (of_nat (length t)) = Some (p + of_nat i)"
      "take (length t) (drop i s) = t" "\<forall>j < i. take (length t) (drop j s) \<noteq> t"
    have "(LEAST i. take (length t) (drop i s) = t) = i"
      by (rule Least_equality) (use i in \<open>auto simp: not_less [symmetric]\<close>)
    with i eq show ?thesis by auto
  next
    assume "strstr_loop m p q (of_nat (length t)) = Some 0"
      "\<forall>j \<le> length s. take (length t) (drop j s) \<noteq> t"
    moreover from this(2) have "\<not> (\<exists>i. take (length t) (drop i s) = t)"
      using prefix_at_end [OF False, of _ s] less_imp_le by blast
    ultimately show ?thesis using eq by (simp only: if_False)
  qed
qed

theorem strstr_first_witness:
  "\<exists>m. cstr m 0x1000 (bytes ''aab'') \<and> cstr m 0x2000 (bytes ''ab'') \<and> strstr m 0x1000 0x2000 = Some 0x1001"
proof -
  let ?s = "[97, 97, 98] :: u8 list" and ?t = "[97, 98] :: u8 list"
  let ?m = "write_bytes (write_bytes (\<lambda>_. 0) 0x1000 (?s @ [0])) 0x2000 (?t @ [0])"
  have c: "cstr ?m 0x1000 ?s" "cstr ?m 0x2000 ?t" by simp_all
  have ex: "\<exists>i. take (length ?t) (drop i ?s) = ?t" by (rule exI [of _ 1]) simp
  moreover have "(LEAST i. take (length ?t) (drop i ?s) = ?t) = 1"
    by (rule Least_equality) (auto intro: Suc_leI simp: Suc_le_eq intro!: gr0I)
  ultimately have "strstr ?m 0x1000 0x2000 = Some 0x1001"
    using strstr_first [OF c] unfolding if_P [OF ex] by simp
  moreover have "bytes ''aab'' = ?s" "bytes ''ab'' = ?t" by (simp_all add: bytes_def)
  ultimately show ?thesis using c by metis
qed

text \<open>\<open>strncpy\<close> writes exactly \<open>n\<close> bytes, the string cut at \<open>n\<close> and padded with NULs,
  touches nothing else, and leaves the destination without a NUL exactly when the string has
  \<open>n\<close> or more bytes.\<close>

theorem strncpy_fills:
  assumes "cstr m src s" and "region dest (unat n) \<inter> region src (Suc (length s)) = {}"
  shows "bytes_at (fst (strncpy m dest src n)) dest (unat n) = take (unat n) s @ replicate (unat n - length s) 0
    \<and> (\<forall>a. a \<notin> region dest (unat n) \<longrightarrow> fst (strncpy m dest src n) a = m a)
    \<and> (0 \<in> set (bytes_at (fst (strncpy m dest src n)) dest (unat n)) \<longleftrightarrow> length s < unat n)"
proof -
  note b = strncpy_bytes_at [OF assms, unfolded strncpy_l_def]
  have "0 \<notin> set (take (unat n) s)" using cstr_nonzero [OF assms(1)] by (auto dest: in_set_takeD)
  then have "0 \<in> set (take (unat n) s @ replicate (unat n - length s) 0) \<longleftrightarrow> length s < unat n" by auto
  then show ?thesis
    using b unat_u32_less [of n] by (auto simp: strncpy_overlay [OF assms] overlay_miss)
qed

theorem strncpy_fills_witness:
  "bytes_at (fst (strncpy (\<lambda>a. if a < 0x1003 then 65 else 0) 0x2000 0x1000 5)) 0x2000 5 = [65, 65, 65, 0, 0]"
proof -
  let ?m = "\<lambda>a. if a < 0x1003 then 65 else (0 :: u8)"
  have "cstr ?m 0x1000 [65, 65, 65]" by simp
  moreover have "region 0x2000 5 \<inter> region (0x1000 :: u32) (Suc (length [65, 65, 65 :: u8])) = {}"
    by (subst Int_commute) (rule region_apart; simp)
  ultimately have "bytes_at (fst (strncpy ?m 0x2000 0x1000 5)) 0x2000 5
      = take 5 [65, 65, 65] @ replicate (5 - 3) 0"
    using strncpy_fills [of ?m "0x1000" "[65, 65, 65]" "0x2000" 5] by simp
  then show ?thesis by (simp add: numeral_2_eq_2)
qed

end
