(* ===== verification/CNumber.thy ===== *)
theory CNumber
  imports CString
begin

text \<open>
  Numbers as text: \<open>itoa\<close> and \<open>atoi\<close> of \<open>lib/string.c\<close> and \<open>strtol\<close> of
  \<open>lib/stdlib.c\<close> on the flat memory, and the round trips between them. A C \<open>int\<close> is a
  32-bit word read with \<open>sint\<close>; signed arithmetic wraps, as the compiled code's does.
\<close>

subsection \<open>itoa\<close>

definition rem_char :: "u32 \<Rightarrow> u8" where
  "rem_char rem = (if sint rem < 10 then ucast (rem + 48) else ucast (rem + 97 - 10))"

partial_function (option) itoa_digits :: "mem \<Rightarrow> ptr \<Rightarrow> u32 \<Rightarrow> u32 \<Rightarrow> (mem \<times> ptr) option" where
  "itoa_digits m p v base =
     (let rem = v mod base;
          m' = m(p := rem_char rem);
          v' = v div base
      in if v' \<noteq> 0 then itoa_digits m' (p + 1) v' base else Some (m', p + 1))"

function reverse_loop :: "mem \<Rightarrow> ptr \<Rightarrow> ptr \<Rightarrow> mem" where
  "reverse_loop m p1 p2 =
     (if p1 < p2 then reverse_loop (m(p1 := m p2, p2 := m p1)) (p1 + 1) (p2 - 1) else m)"
  by pat_completeness auto
termination
proof (relation "measure (\<lambda>(m, p1, p2). unat p2 - unat p1)")
  fix m and p1 p2 :: ptr
  assume "p1 < p2"
  then show "((m(p1 := m p2, p2 := m p1), p1 + 1, p2 - 1), m, p1, p2)
      \<in> measure (\<lambda>(m, p1, p2). unat p2 - unat p1)"
    by simp unat_arith
qed simp

declare reverse_loop.simps [simp del]

definition itoa :: "mem \<Rightarrow> u32 \<Rightarrow> ptr \<Rightarrow> u32 \<Rightarrow> (mem \<times> ptr) option" where
  "itoa m value str base =
     (if sint base < 2 \<or> sint base > 36 then Some (m(str := 0), str)
      else
        let neg = (sint value < 0 \<and> base = 10);
            m1 = (if neg then m(str := 45) else m);
            p1 = (if neg then str + 1 else str);
            v = (if neg then - value else value)
        in case itoa_digits m1 p1 v base of
             None \<Rightarrow> None
           | Some (m2, p) \<Rightarrow> Some (reverse_loop (m2(p := 0)) p1 (p - 1), str))"

subsection \<open>atoi and strtol\<close>

partial_function (option) skip_spaces :: "mem \<Rightarrow> ptr \<Rightarrow> ptr option" where
  "skip_spaces m s = (if m s = 32 then skip_spaces m (s + 1) else Some s)"

definition skip_sign :: "mem \<Rightarrow> ptr \<Rightarrow> u32 \<times> ptr" where
  "skip_sign m s = (if m s = 45 then (- 1, s + 1) else if m s = 43 then (1, s + 1) else (1, s))"

partial_function (option) atoi_digits :: "mem \<Rightarrow> ptr \<Rightarrow> u32 \<Rightarrow> u32 option" where
  "atoi_digits m s result =
     (if 48 \<le> sint (m s) \<and> sint (m s) \<le> 57
      then atoi_digits m (s + 1) (result * 10 + (scast (m s) - 48))
      else Some result)"

definition atoi :: "mem \<Rightarrow> ptr \<Rightarrow> u32 option" where
  "atoi m s =
     (case skip_spaces m s of
        None \<Rightarrow> None
      | Some s1 \<Rightarrow>
          (case skip_sign m s1 of (sign, s2) \<Rightarrow>
             map_option (\<lambda>result. result * sign) (atoi_digits m s2 0)))"

text \<open>The digit a character stands for, \<open>None\<close> where the loop breaks.\<close>

definition strtol_digit :: "u8 \<Rightarrow> u32 option" where
  "strtol_digit c =
     (if 48 \<le> sint c \<and> sint c \<le> 57 then Some (scast c - 48)
      else if 97 \<le> sint c \<and> sint c \<le> 122 then Some (scast c - 97 + 10)
      else if 65 \<le> sint c \<and> sint c \<le> 90 then Some (scast c - 65 + 10)
      else None)"

partial_function (option) strtol_loop :: "mem \<Rightarrow> ptr \<Rightarrow> u32 \<Rightarrow> u32 \<Rightarrow> (u32 \<times> ptr) option" where
  "strtol_loop m s base result =
     (if m s = 0 then Some (result, s)
      else case strtol_digit (m s) of
             None \<Rightarrow> Some (result, s)
           | Some digit \<Rightarrow>
               if sint base \<le> sint digit then Some (result, s)
               else strtol_loop m (s + 1) base (result * base + digit))"

text \<open>
  \<open>strtol\<close> returns the number and the position it stored through \<open>endptr\<close>, which the
  caller drops when it passed a null \<open>endptr\<close>.
\<close>

definition strtol :: "mem \<Rightarrow> ptr \<Rightarrow> u32 \<Rightarrow> (u32 \<times> ptr) option" where
  "strtol m s base =
     (case skip_spaces m s of
        None \<Rightarrow> None
      | Some s1 \<Rightarrow>
          (case skip_sign m s1 of (sign, s2) \<Rightarrow>
             map_option (\<lambda>(result, e). (result * sign, e)) (strtol_loop m s2 base 0)))"

subsection \<open>Digits\<close>

definition digit_char :: "nat \<Rightarrow> u8" where
  "digit_char d = (if d < 10 then of_nat (d + 48) else of_nat (d + 87))"

fun digits_l :: "nat \<Rightarrow> nat \<Rightarrow> u8 list" where
  "digits_l b n =
     (if b < 2 \<or> n < b then [digit_char n] else digits_l b (n div b) @ [digit_char (n mod b)])"

declare digits_l.simps [simp del]

definition itoa_l :: "u32 \<Rightarrow> u32 \<Rightarrow> u8 list" where
  "itoa_l value base =
     (if sint value < 0 \<and> base = 10 then 45 # digits_l 10 (unat (- value))
      else digits_l (unat base) (unat value))"

text \<open>The number a list of digits stands for.\<close>

definition digits_value :: "nat \<Rightarrow> nat list \<Rightarrow> nat" where
  "digits_value b ds = foldl (\<lambda>a d. a * b + d) 0 ds"

lemma digits_value_snoc: "digits_value b (ds @ [d]) = digits_value b ds * b + d"
  by (simp add: digits_value_def)

fun digit_list :: "nat \<Rightarrow> nat \<Rightarrow> nat list" where
  "digit_list b n = (if b < 2 \<or> n < b then [n] else digit_list b (n div b) @ [n mod b])"

declare digit_list.simps [simp del]

lemma digits_l_map: "digits_l b n = map digit_char (digit_list b n)"
proof (induction b n rule: digits_l.induct)
  case (1 b n)
  then show ?case
    by (subst digits_l.simps, subst digit_list.simps) auto
qed

lemma digit_list_value: "2 \<le> b \<Longrightarrow> digits_value b (digit_list b n) = n"
proof (induction b n rule: digit_list.induct)
  case (1 b n)
  show ?case
  proof (cases "n < b")
    case True
    then show ?thesis by (subst digit_list.simps) (simp add: digits_value_def)
  next
    case False
    with 1 show ?thesis by (subst digit_list.simps) (auto simp: digits_value_snoc)
  qed
qed

lemma digit_list_less: "2 \<le> b \<Longrightarrow> d \<in> set (digit_list b n) \<Longrightarrow> d < b"
proof (induction b n rule: digit_list.induct)
  case (1 b n)
  show ?case
  proof (cases "n < b")
    case True
    with "1.prems" show ?thesis by (subst (asm) digit_list.simps) simp
  next
    case False
    with 1 show ?thesis by (subst (asm) digit_list.simps) auto
  qed
qed

lemma digit_list_nonempty: "digit_list b n \<noteq> []"
  by (subst digit_list.simps) simp

lemma length_digit_list: "2 \<le> b \<Longrightarrow> n < b ^ Suc k \<Longrightarrow> length (digit_list b n) \<le> Suc k"
proof (induction k arbitrary: n)
  case 0
  then show ?case by (subst digit_list.simps) simp
next
  case (Suc k)
  show ?case
  proof (cases "n < b")
    case True
    then show ?thesis by (subst digit_list.simps) simp
  next
    case False
    have "n div b < b ^ Suc k"
      using Suc.prems by (intro less_mult_imp_div_less) (simp add: mult.commute)
    with Suc.IH Suc.prems(1) have "length (digit_list b (n div b)) \<le> Suc k" by blast
    with False Suc.prems(1) show ?thesis by (subst digit_list.simps) simp
  qed
qed

lemma length_digits_l_32: "2 \<le> b \<Longrightarrow> n < 2 ^ 32 \<Longrightarrow> length (digits_l b n) \<le> 32"
proof -
  assume b: "2 \<le> b" and n: "n < 2 ^ 32"
  have "(2::nat) ^ 32 \<le> b ^ 32" using b by (intro power_mono) auto
  with n have "n < b ^ Suc 31" by simp
  with b show ?thesis using length_digit_list [of b n 31] by (simp add: digits_l_map)
qed

lemma digit_char_table:
  "\<forall>d \<in> set [0..<36]. digit_char d \<noteq> 0 \<and> digit_char d \<notin> {32, 45, 43}
     \<and> strtol_digit (digit_char d) = Some (of_nat d) \<and> rem_char (of_nat d) = digit_char d"
  by code_simp

lemma sint_small_table: "\<forall>d \<in> set [0..<37]. sint (of_nat d :: u32) = int d"
  by code_simp

lemma sint_small: "unat (x :: u32) \<le> 36 \<Longrightarrow> sint x = int (unat x)"
  using bspec [OF sint_small_table, of "unat x"] by simp

lemma digit_char_facts:
  assumes "d < 36"
  shows "digit_char d \<noteq> 0" and "digit_char d \<notin> {32, 45, 43}"
    and "strtol_digit (digit_char d) = Some (of_nat d)"
    and "rem_char (of_nat d) = digit_char d"
  using bspec [OF digit_char_table, of d] assms by simp_all

lemma digit_char_decimal_table:
  "\<forall>d \<in> set [0..<10]. 48 \<le> sint (digit_char d) \<and> sint (digit_char d) \<le> 57
     \<and> scast (digit_char d) - 48 = (of_nat d :: u32)"
  by code_simp

lemma digit_char_decimal:
  assumes "d < 10"
  shows "48 \<le> sint (digit_char d)" and "sint (digit_char d) \<le> 57"
    and "scast (digit_char d) - 48 = (of_nat d :: u32)"
  using digit_char_decimal_table assms by auto

lemma digits_l_facts:
  assumes "2 \<le> b" and "b \<le> 36"
  shows "digits_l b n \<noteq> []" and "0 \<notin> set (digits_l b n)"
    and "hd (digits_l b n) \<notin> {32, 45, 43}"
proof -
  have less: "d < 36" if "d \<in> set (digit_list b n)" for d
    using digit_list_less [OF assms(1) that] assms(2) by simp
  show ne: "digits_l b n \<noteq> []"
    by (simp add: digits_l_map digit_list_nonempty)
  show "0 \<notin> set (digits_l b n)"
    using less digit_char_facts(1) by (force simp: digits_l_map)
  have "hd (digit_list b n) < 36" using less digit_list_nonempty by simp
  then show "hd (digits_l b n) \<notin> {32, 45, 43}"
    using digit_char_facts(2) by (simp add: digits_l_map digit_list_nonempty hd_map)
qed

subsection \<open>itoa writes the digits\<close>

lemma write_bytes_overlay:
  "length xs \<le> 2 ^ 32 \<Longrightarrow> write_bytes m p xs = overlay m p (length xs) (\<lambda>i. xs ! i)"
proof
  fix a
  assume len: "length xs \<le> 2 ^ 32"
  show "write_bytes m p xs a = overlay m p (length xs) (\<lambda>i. xs ! i) a"
  proof (cases "unat (a - p) < length xs")
    case True
    then have "write_bytes m p xs (p + of_nat (unat (a - p))) = xs ! unat (a - p)"
      using len by (intro write_bytes_nth) auto
    then show ?thesis using True by (simp add: overlay_def)
  next
    case False
    have "a \<notin> region p (length xs)"
    proof
      assume "a \<in> region p (length xs)"
      then obtain i where "i < length xs" "a = p + of_nat i" by auto
      with len False show False by (simp add: unat_of_nat_u32)
    qed
    then show ?thesis using False by (simp add: overlay_def write_bytes_outside)
  qed
qed

lemma itoa_digits_write:
  assumes "2 \<le> unat base" and "unat base \<le> 36"
  shows "itoa_digits m p v base =
    Some (write_bytes m p (rev (digits_l (unat base) (unat v))),
          p + of_nat (length (digits_l (unat base) (unat v))))"
  using assms
proof (induction "unat base" "unat v" arbitrary: m p v rule: digits_l.induct)
  case 1
  let ?b = "unat base" and ?r = "unat v mod unat base"
  have rem: "v mod base = of_nat ?r"
    by (metis unat_mod word_unat_eq_iff unat_of_nat_u32 unat_u32_less)
  have "?r < ?b" using "1.prems" by (intro mod_less_divisor) simp
  from less_le_trans [OF this "1.prems"(2)] have "?r < 36" .
  note ch = digit_char_facts(4) [OF this]
  have dv: "unat (v div base) = unat v div ?b" by (simp add: unat_div)
  show ?case
  proof (cases "unat v < ?b")
    case True
    then have "unat (v div base) = 0" using dv by simp
    then have "v div base = 0" by (metis word_unat_eq_iff unat_0)
    moreover have "rem_char (v mod base) = digit_char (unat v)"
      using ch rem True by simp
    ultimately show ?thesis using True
      by (subst itoa_digits.simps, subst (1 2) digits_l.simps) (simp add: Let_def)
  next
    case False
    then have "unat v div ?b \<noteq> 0" using "1.prems" by (simp add: div_eq_0_iff)
    then have nz: "v div base \<noteq> 0" using dv by (metis unat_0)
    have "itoa_digits (m(p := digit_char ?r)) (p + 1) (v div base) base =
      Some (write_bytes (m(p := digit_char ?r)) (p + 1) (rev (digits_l ?b (unat v div ?b))),
            p + 1 + of_nat (length (digits_l ?b (unat v div ?b))))"
      using "1.hyps" [of "v div base"] False "1.prems" by (simp add: dv)
    with False nz "1.prems" show ?thesis
      by (subst itoa_digits.simps, subst (1 2) digits_l.simps)
        (simp add: Let_def rem ch add.assoc del: of_nat_add)
  qed
qed

text \<open>
  The in-place reversal: between \<open>lo\<close> and \<open>hi\<close> the byte at \<open>a\<close> is exchanged with
  the one at \<open>lo + hi - a\<close>, and nothing else changes.
\<close>

lemma reverse_loop_mirror:
  assumes "Suc hi < 2 ^ 32" and "lo \<le> Suc hi"
  shows "reverse_loop m (of_nat lo) (of_nat hi) =
    (\<lambda>a. if lo \<le> unat a \<and> unat a \<le> hi then m (of_nat (lo + hi - unat a)) else m a)"
  using assms
proof (induction "hi - lo" arbitrary: lo hi m rule: less_induct)
  case less
  show ?case
  proof (cases "lo < hi")
    case False
    then have "lo = hi \<or> lo = Suc hi" using less.prems by auto
    then have eq: "of_nat (lo + hi - unat a) = a" if "lo \<le> unat a \<and> unat a \<le> hi" for a :: u32
      using that by auto
    have "unat (of_nat lo :: u32) = lo" "unat (of_nat hi :: u32) = hi"
      using less.prems by (auto intro!: unat_of_nat_u32)
    with False have "\<not> (of_nat lo :: u32) < of_nat hi"
      by (simp add: word_less_nat_alt)
    then show ?thesis
      by (subst reverse_loop.simps) (auto simp: fun_eq_iff eq simp del: of_nat_diff of_nat_add)
  next
    case True
    let ?lo = "of_nat lo :: u32" and ?hi = "of_nat hi :: u32"
    let ?m = "m(?lo := m ?hi, ?hi := m ?lo)"
    have un: "unat ?lo = lo" "unat ?hi = hi"
      using True less.prems(1) by (auto simp: unat_of_nat_u32)
    have lt: "?lo < ?hi" using True un by (simp add: word_less_nat_alt)
    have steps: "?lo + 1 = of_nat (Suc lo)" "?hi - 1 = of_nat (hi - 1)"
      using True by (auto simp: of_nat_diff)
    have "reverse_loop ?m (of_nat (Suc lo)) (of_nat (hi - 1)) =
      (\<lambda>a. if Suc lo \<le> unat a \<and> unat a \<le> hi - 1
           then ?m (of_nat (Suc lo + (hi - 1) - unat a)) else ?m a)"
      by (rule less.hyps) (use True less.prems in auto)
    moreover have "reverse_loop m ?lo ?hi = reverse_loop ?m (?lo + 1) (?hi - 1)"
      using lt by (subst reverse_loop.simps) simp
    ultimately have eq: "reverse_loop m ?lo ?hi =
      (\<lambda>a. if Suc lo \<le> unat a \<and> unat a \<le> hi - 1
           then ?m (of_nat (Suc lo + (hi - 1) - unat a)) else ?m a)"
      using steps by simp
    show ?thesis
    proof
      fix a :: u32
      consider (lo) "unat a = lo" | (hi) "unat a = hi" | (mid) "lo < unat a" "unat a < hi"
        | (out) "unat a < lo \<or> hi < unat a" by linarith
      then show "reverse_loop m ?lo ?hi a =
        (if lo \<le> unat a \<and> unat a \<le> hi then m (of_nat (lo + hi - unat a)) else m a)"
      proof cases
        case lo
        then have "a = ?lo" by auto
        with lo True un show ?thesis by (auto simp: eq)
      next
        case hi
        then have "a = ?hi" by auto
        with hi True un show ?thesis by (auto simp: eq)
      next
        case mid
        let ?k = "lo + hi - unat a"
        have "lo < ?k" "?k < hi" using mid by auto
        then have "of_nat ?k \<noteq> ?lo" "of_nat ?k \<noteq> ?hi"
          using True less.prems(1) by (auto simp: of_nat_u32_inject simp del: of_nat_diff)
        then have swap: "?m (of_nat ?k) = m (of_nat ?k)" by (simp only: fun_upd_apply if_False)
        have k: "Suc lo + (hi - 1) - unat a = ?k" using True by simp
        have c: "Suc lo \<le> unat a \<and> unat a \<le> hi - 1" "lo \<le> unat a \<and> unat a \<le> hi"
          using mid by auto
        show ?thesis unfolding eq if_P [OF c(1)] if_P [OF c(2)] k by (rule swap)
      next
        case out
        then have c: "\<not> (Suc lo \<le> unat a \<and> unat a \<le> hi - 1)" "\<not> (lo \<le> unat a \<and> unat a \<le> hi)"
          by auto
        have "a \<noteq> ?lo" "a \<noteq> ?hi" using out un True by auto
        then have "?m a = m a" by simp
        then show ?thesis unfolding eq if_not_P [OF c(1)] if_not_P [OF c(2)] .
      qed
    qed
  qed
qed

lemma unat_minus_base: "unat (p :: u32) + i < 2 ^ 32 \<Longrightarrow> unat a = unat p + i \<Longrightarrow> unat (a - p) = i"
proof -
  assume "unat p + i < 2 ^ 32" and "unat a = unat p + i"
  then have "a = p + of_nat i" by (metis unat_plus_of_nat word_unat_eq_iff)
  with \<open>unat p + i < 2 ^ 32\<close> show ?thesis by (simp add: unat_of_nat_u32)
qed

lemma reverse_write:
  assumes "xs \<noteq> []" and "unat p + length xs < 2 ^ 32"
  shows "reverse_loop ((write_bytes m p (rev xs))(p + of_nat (length xs) := 0)) p
           (p + of_nat (length xs) - 1) = write_bytes m p (xs @ [0])"
proof -
  let ?n = "length xs" and ?M = "write_bytes m p (rev xs @ [0])"
  have M: "(write_bytes m p (rev xs))(p + of_nat ?n := 0) = ?M"
    by (simp add: write_bytes_append)
  have hi: "p + of_nat ?n - 1 = of_nat (unat p + ?n - 1)"
    using assms by (cases xs) auto
  have "reverse_loop ?M (of_nat (unat p)) (of_nat (unat p + ?n - 1)) =
    (\<lambda>a. if unat p \<le> unat a \<and> unat a \<le> unat p + ?n - 1
         then ?M (of_nat (unat p + (unat p + ?n - 1) - unat a)) else ?M a)"
    by (rule reverse_loop_mirror) (use assms in auto)
  also have "\<dots> = write_bytes m p (xs @ [0])"
  proof
    fix a
    show "(if unat p \<le> unat a \<and> unat a \<le> unat p + ?n - 1
        then ?M (of_nat (unat p + (unat p + ?n - 1) - unat a)) else ?M a)
      = write_bytes m p (xs @ [0]) a"
    proof (cases "unat p \<le> unat a \<and> unat a \<le> unat p + ?n - 1")
      case True
      define i where "i = unat a - unat p"
      have i: "i < ?n" "unat a = unat p + i" using True assms(1) by (cases xs; auto simp: i_def)+
      have "unat p + (unat p + ?n - 1) - unat a = unat p + (?n - Suc i)" using i by auto
      then have "of_nat (unat p + (unat p + ?n - 1) - unat a) = p + of_nat (?n - Suc i)"
        by (simp del: of_nat_diff)
      moreover have "?M (p + of_nat (?n - Suc i)) = xs ! i"
      proof -
        have k: "?n - Suc i < ?n" "?n - Suc (?n - Suc i) = i" using i(1) by auto
        then have "?M (p + of_nat (?n - Suc i)) = (rev xs @ [0]) ! (?n - Suc i)"
          using assms(2) by (intro write_bytes_nth) auto
        also have "\<dots> = xs ! i" using k by (simp add: nth_append rev_nth)
        finally show ?thesis .
      qed
      moreover have "unat (p + of_nat i) = unat a"
        using i assms(2) by (simp add: unat_plus_of_nat)
      then have "a = p + of_nat i" by (simp add: word_unat_eq_iff)
      then have "write_bytes m p (xs @ [0]) a = xs ! i"
        using i(1) assms(2) write_bytes_nth [of "xs @ [0]" i m p] by (simp add: nth_append)
      ultimately show ?thesis unfolding if_P [OF True] by metis
    next
      case False
      have "unat (a - p) \<noteq> i" if "i < ?n" for i
      proof
        assume "unat (a - p) = i"
        then have "unat (p + of_nat i) = unat a" by auto
        with that False assms show False by (simp add: unat_plus_of_nat)
      qed
      then have "\<not> unat (a - p) < ?n" by blast
      then have "?M a = write_bytes m p (xs @ [0]) a"
        using assms(2) by (auto simp: write_bytes_overlay overlay_def nth_append)
      with False show ?thesis by (simp only: if_False)
    qed
  qed
  finally show ?thesis by (simp add: M hi)
qed

theorem itoa_write:
  assumes "2 \<le> unat base" and "unat base \<le> 36" and "unat str + 34 \<le> 2 ^ 32"
  shows "itoa m value str base = Some (write_bytes m str (itoa_l value base @ [0]), str)"
proof -
  have "sint base = int (unat base)"
    using assms(2) by (rule sint_small)
  then have range: "\<not> (sint base < 2 \<or> sint base > 36)"
    using assms(1,2) by linarith
  let ?neg = "sint value < 0 \<and> base = 10"
  define v where "v = (if ?neg then - value else value)"
  define p1 where "p1 = (if ?neg then str + 1 else str)"
  define m1 where "m1 = (if ?neg then m(str := 45) else m)"
  let ?ds = "digits_l (unat base) (unat v)"
  have len: "length ?ds \<le> 32"
    using assms(1) unat_u32_less [of v] by (intro length_digits_l_32)
  have "unat p1 \<le> unat str + 1"
    using assms(3) unat_plus_of_nat [of str 1] by (simp add: p1_def)
  then have fits: "unat p1 + length ?ds < 2 ^ 32" using len assms(3) by simp
  have "itoa m value str base = Some (reverse_loop
      ((write_bytes m1 p1 (rev ?ds))(p1 + of_nat (length ?ds) := 0)) p1
      (p1 + of_nat (length ?ds) - 1), str)"
    using range itoa_digits_write [OF assms(1,2), of m1 p1 v]
    by (simp add: itoa_def Let_def v_def p1_def m1_def)
  also have "\<dots> = Some (write_bytes m1 p1 (?ds @ [0]), str)"
    using digits_l_facts(1) [OF assms(1,2)] fits by (simp add: reverse_write)
  also have "write_bytes m1 p1 (?ds @ [0]) = write_bytes m str (itoa_l value base @ [0])"
    by (simp add: m1_def p1_def v_def itoa_l_def)
  finally show ?thesis .
qed

subsection \<open>Reading numbers back\<close>

definition atoi_stops :: "u8 list \<Rightarrow> bool" where
  "atoi_stops rest \<longleftrightarrow> rest = [] \<or> \<not> (48 \<le> sint (hd rest) \<and> sint (hd rest) \<le> 57)"

definition strtol_stops :: "u32 \<Rightarrow> u8 list \<Rightarrow> bool" where
  "strtol_stops base rest \<longleftrightarrow> rest = [] \<or>
     (case strtol_digit (hd rest) of None \<Rightarrow> True | Some d \<Rightarrow> sint base \<le> sint d)"

lemma foldl_of_nat:
  "foldl (\<lambda>a d. a * of_nat b + of_nat d) (of_nat r :: u32) ds
     = of_nat (foldl (\<lambda>a d. a * b + d) r ds)"
proof (induction ds arbitrary: r)
  case (Cons d ds)
  show ?case using Cons.IH [of "r * b + d"] by simp
qed simp

lemma skip_spaces_cstr:
  "cstr m p (replicate k 32 @ t) \<Longrightarrow> t \<noteq> [] \<Longrightarrow> hd t \<noteq> 32 \<Longrightarrow> skip_spaces m p = Some (p + of_nat k)"
proof (induction k arbitrary: p)
  case 0
  then have "m p \<noteq> 32" by (cases t) auto
  then show ?case by (subst skip_spaces.simps) simp
next
  case (Suc k)
  then have "skip_spaces m (p + 1) = Some (p + 1 + of_nat k)" by (intro Suc.IH) auto
  with Suc.prems(1) show ?case by (subst skip_spaces.simps) (simp add: add.assoc)
qed

lemma atoi_digits_cstr:
  assumes "\<forall>d \<in> set ds. d < 10" and "atoi_stops rest"
  shows "cstr m p (map digit_char ds @ rest) \<Longrightarrow>
    atoi_digits m p r = Some (foldl (\<lambda>a d. a * of_nat 10 + of_nat d) r ds)"
  using assms(1)
proof (induction ds arbitrary: p r)
  case Nil
  then have "\<not> (48 \<le> sint (m p) \<and> sint (m p) \<le> 57)"
    using assms(2) by (cases rest) (auto simp: atoi_stops_def)
  then show ?case by (simp only: atoi_digits.simps [of m p r] if_False) simp
next
  case (Cons d ds)
  from Cons.prems have d: "d < 10" and mp: "m p = digit_char d" by auto
  have "atoi_digits m (p + 1) (r * 10 + of_nat d)
      = Some (foldl (\<lambda>a d. a * of_nat 10 + of_nat d) (r * 10 + of_nat d) ds)"
    by (rule Cons.IH) (use Cons.prems in auto)
  with mp digit_char_decimal [OF d] show ?case by (subst atoi_digits.simps) simp
qed

lemma strtol_loop_cstr:
  assumes "\<forall>d \<in> set ds. d < unat base" and "unat base \<le> 36" and "strtol_stops base rest"
  shows "cstr m p (map digit_char ds @ rest) \<Longrightarrow>
    strtol_loop m p base r = Some (foldl (\<lambda>a d. a * of_nat (unat base) + of_nat d) r ds,
                                   p + of_nat (length ds))"
  using assms(1)
proof (induction ds arbitrary: p r)
  case Nil
  then show ?case using assms(3)
    by (cases rest; subst strtol_loop.simps)
      (auto simp: strtol_stops_def split: option.splits)
next
  case (Cons d ds)
  from Cons.prems have d: "d < unat base" and mp: "m p = digit_char d" by auto
  then have "d < 36" using assms(2) by simp
  note ch = digit_char_facts [OF this]
  have "sint (of_nat d :: u32) = int d"
    using sint_small [of "of_nat d"] \<open>d < 36\<close> by (simp add: unat_of_nat_u32)
  then have "\<not> sint base \<le> sint (of_nat d :: u32)"
    using d sint_small [OF assms(2)] by linarith
  moreover have "strtol_loop m (p + 1) base (r * base + of_nat d)
      = Some (foldl (\<lambda>a d. a * of_nat (unat base) + of_nat d) (r * base + of_nat d) ds,
              p + 1 + of_nat (length ds))"
    by (rule Cons.IH) (use Cons.prems in auto)
  ultimately show ?case using mp ch
    by (subst strtol_loop.simps) (simp add: add.assoc)
qed

lemma skip_sign_cstr:
  assumes "cstr m p (sg @ t)" and "sg \<in> {[], [43], [45]}" and "t \<noteq> []" and "hd t \<notin> {43, 45}"
  shows "skip_sign m p = ((if sg = [45] then - 1 else 1), p + of_nat (length sg))
    \<and> cstr m (p + of_nat (length sg)) t"
proof -
  have "skip_sign m p = (1, p)" if "sg = []"
    using assms that by (cases t) (auto simp: skip_sign_def)
  with assms(1,2) show ?thesis by (auto simp: skip_sign_def)
qed

text \<open>What \<open>atoi\<close> and \<open>strtol\<close> read: blanks, an optional sign, digits.\<close>

lemma number_text_split:
  assumes "cstr m p (replicate k 32 @ sg @ map digit_char ds @ rest)"
    and "sg \<in> {[], [43], [45]}" and "ds \<noteq> []" and "\<forall>d \<in> set ds. d < 36"
  shows "skip_spaces m p = Some (p + of_nat k)"
    and "skip_sign m (p + of_nat k)
           = ((if sg = [45] then - 1 else 1), p + of_nat (k + length sg))"
    and "cstr m (p + of_nat (k + length sg)) (map digit_char ds @ rest)"
proof -
  let ?t = "map digit_char ds @ rest"
  have hd: "hd ?t \<notin> {32, 45, 43}"
    using assms(3,4) digit_char_facts(2) [of "hd ds"] by (simp add: hd_map)
  then have hd2: "hd (sg @ ?t) \<noteq> 32" using assms(2) by auto
  show "skip_spaces m p = Some (p + of_nat k)"
    by (rule skip_spaces_cstr [OF assms(1)]) (use hd2 assms(3) in auto)
  have "cstr m (p + of_nat k) (sg @ ?t)"
    using cstr_drop [OF assms(1), of k] by simp
  from skip_sign_cstr [OF this assms(2)] hd assms(3)
  show "skip_sign m (p + of_nat k) = ((if sg = [45] then - 1 else 1), p + of_nat (k + length sg))"
    and "cstr m (p + of_nat (k + length sg)) ?t"
    by (auto simp: add.assoc)
qed

lemma atoi_text:
  assumes "cstr m p (replicate k 32 @ sg @ map digit_char ds @ rest)"
    and "sg \<in> {[], [43], [45]}" and "ds \<noteq> []" and "\<forall>d \<in> set ds. d < 10" and "atoi_stops rest"
  shows "atoi m p = Some (of_nat (digits_value 10 ds) * (if sg = [45] then - 1 else 1))"
proof -
  have lt: "\<forall>d \<in> set ds. d < 36" using assms(4) by auto
  note parts = number_text_split [OF assms(1-3) lt]
  have "atoi_digits m (p + of_nat (k + length sg)) 0 = Some (of_nat (digits_value 10 ds))"
    using atoi_digits_cstr [OF assms(4,5) parts(3), of 0] foldl_of_nat [of 10 0 ds]
    by (simp add: digits_value_def)
  then show ?thesis by (simp add: atoi_def parts(1,2) del: of_nat_add)
qed

lemma strtol_text:
  assumes "cstr m p (replicate k 32 @ sg @ map digit_char ds @ rest)"
    and "sg \<in> {[], [43], [45]}" and "ds \<noteq> []" and "\<forall>d \<in> set ds. d < unat base"
    and "unat base \<le> 36" and "strtol_stops base rest"
  shows "strtol m p base = Some (of_nat (digits_value (unat base) ds) * (if sg = [45] then - 1 else 1),
                                 p + of_nat (k + length sg + length ds))"
proof -
  have lt: "\<forall>d \<in> set ds. d < 36" using assms(4,5) by auto
  note parts = number_text_split [OF assms(1-3) lt]
  have "strtol_loop m (p + of_nat (k + length sg)) base 0
      = Some (of_nat (digits_value (unat base) ds), p + of_nat (k + length sg) + of_nat (length ds))"
    using strtol_loop_cstr [OF assms(4-6) parts(3), of 0] foldl_of_nat [of "unat base" 0 ds]
    by (simp add: digits_value_def)
  then show ?thesis by (simp add: strtol_def parts(1,2) add.assoc)
qed

lemma itoa_l_text:
  assumes "2 \<le> unat base" and "unat base \<le> 36"
  obtains sg ds where "itoa_l v base = sg @ map digit_char ds" and "sg \<in> {[], [43], [45]}"
    and "ds \<noteq> []" and "\<forall>d \<in> set ds. d < unat base"
    and "of_nat (digits_value (unat base) ds) * (if sg = [45] then - 1 else 1) = v"
proof (cases "sint v < 0 \<and> base = 10")
  case True
  let ?ds = "digit_list 10 (unat (- v))"
  have "itoa_l v base = [45] @ map digit_char ?ds"
    using True by (simp add: itoa_l_def digits_l_map)
  moreover have "\<forall>d \<in> set ?ds. d < unat base"
    using True by (auto intro: digit_list_less)
  ultimately show ?thesis using True
    by (intro that [of "[45]" ?ds]) (auto simp: digit_list_value digit_list_nonempty)
next
  case False
  let ?ds = "digit_list (unat base) (unat v)"
  have "itoa_l v base = [] @ map digit_char ?ds"
    using False by (auto simp: itoa_l_def digits_l_map)
  then show ?thesis using assms
    by (intro that [of "[]" ?ds]) (auto simp: digit_list_value digit_list_nonempty intro: digit_list_less)
qed

lemma itoa_l_nonzero:
  assumes "2 \<le> unat base" and "unat base \<le> 36"
  shows "0 \<notin> set (itoa_l v base)"
proof -
  have "2 \<le> (10::nat)" "(10::nat) \<le> 36" by auto
  from digits_l_facts(2) [OF this] digits_l_facts(2) [OF assms]
  show ?thesis by (simp add: itoa_l_def)
qed

lemma length_itoa_l: "2 \<le> unat base \<Longrightarrow> length (itoa_l v base) \<le> 33"
  using length_digits_l_32 [of "unat base" "unat v"] length_digits_l_32 [of 10 "unat (- v)"]
    unat_u32_less [of v] unat_u32_less [of "- v"]
  by (auto simp: itoa_l_def)

lemma itoa_cstr:
  assumes "2 \<le> unat base" and "unat base \<le> 36" and "unat str + 34 \<le> 2 ^ 32"
    and "itoa m v str base = Some (m', r)"
  shows "cstr m' str (itoa_l v base)" and "r = str"
  using assms itoa_write [OF assms(1-3)] length_itoa_l [OF assms(1), of v] itoa_l_nonzero
  by (auto intro!: cstr_write_bytes)

subsection \<open>Properties\<close>

text \<open>C27. Numbers survive printing and reading: for every base from 2 to 36 what \<open>itoa\<close> writes is
  a string from which \<open>strtol\<close> in that base reads the number back and stops at its end, and in
  base 10 \<open>atoi\<close> reads it back too, negative numbers and the least integer included.\<close>

theorem itoa_roundtrip:
  assumes "2 \<le> unat base" and "unat base \<le> 36" and "unat str + 34 \<le> 2 ^ 32"
  shows "\<exists>m'. itoa m v str base = Some (m', str)
    \<and> strtol m' str base = Some (v, str + of_nat (length (itoa_l v base)))
    \<and> (base = 10 \<longrightarrow> atoi m' str = Some v)"
proof -
  define m' where "m' = write_bytes m str (itoa_l v base @ [0])"
  have run: "itoa m v str base = Some (m', str)" unfolding m'_def by (rule itoa_write [OF assms])
  note c = itoa_cstr(1) [OF assms run]
  obtain sg ds where t: "itoa_l v base = sg @ map digit_char ds" "sg \<in> {[], [43], [45]}" "ds \<noteq> []"
    "\<forall>d \<in> set ds. d < unat base"
    "of_nat (digits_value (unat base) ds) * (if sg = [45] then - 1 else 1) = v"
    by (rule itoa_l_text [OF assms(1,2)])
  have c0: "cstr m' str (replicate 0 32 @ sg @ map digit_char ds @ [])" using c t(1) by simp
  have "strtol m' str base = Some (v, str + of_nat (0 + length sg + length ds))"
    using strtol_text [OF c0 t(2-4) assms(2)] t(5) by (simp add: strtol_stops_def)
  moreover have "atoi m' str = Some v" if "base = 10"
    using atoi_text [OF c0 t(2,3)] t(4,5) that by (simp add: atoi_stops_def)
  ultimately show ?thesis using run t(1) by auto
qed

theorem itoa_roundtrip_witness:
  "\<forall>m. \<exists>m'. itoa m 0x80000000 0x1000 10 = Some (m', 0x1000) \<and> atoi m' 0x1000 = Some 0x80000000"
proof
  fix m
  show "\<exists>m'. itoa m 0x80000000 0x1000 10 = Some (m', 0x1000) \<and> atoi m' 0x1000 = Some 0x80000000"
    using itoa_roundtrip [of 10 "0x1000" m "0x80000000"] by auto
qed

end
