(* ===== verification/Heap.thy ===== *)
theory Heap
  imports Prelude
begin

text \<open>
  The kernel heap of \<open>kernel/mm.c\<close>: \<open>mm_find_smallest_hole\<close>, the \<open>kmalloc\<close> family and
  \<open>kfree\<close>. The block headers live in a typed heap, a function from the header's address to
  its \<open>mem_block_t\<close>; the payload bytes between two headers are not part of this state. The
  headers of a well-formed heap never overlap (\<open>heap_rep\<close> below), so the typed view is exact
  as long as the invariant holds.

  The abstract view of a heap is the list of its blocks in address order, each with its size and
  whether it is free. The theory defines the allocator on such lists (\<open>alloc_l\<close>,
  \<open>free_l\<close>), shows that the pointer code refines it, and states the contract of an
  allocator as a locale, which the pointer code interprets.
\<close>

subsection \<open>State\<close>

record mem_block =
  mb_size :: u32
  mb_next :: ptr
  mb_prev :: ptr
  mb_free :: bool

record heap =
  hp_start :: ptr
  hp_end :: ptr
  hp_placement :: u32
  hp_blocks :: "ptr \<Rightarrow> mem_block"

definition PAGE_SIZE :: u32 where "PAGE_SIZE = 4096"
definition KERNEL_BASE :: u32 where "KERNEL_BASE = 0xC0000000"
definition KERNEL_HEAP_START :: u32 where "KERNEL_HEAP_START = 0xD0000000"
definition KERNEL_HEAP_SIZE :: u32 where "KERNEL_HEAP_SIZE = 16 * 1024 * 1024"

text \<open>\<open>sizeof(mem_block_t)\<close>: four 32-bit fields.\<close>

definition SIZEOF_BLOCK :: u32 where "SIZEOF_BLOCK = 16"

definition upd_block :: "ptr \<Rightarrow> (mem_block \<Rightarrow> mem_block) \<Rightarrow> (ptr \<Rightarrow> mem_block) \<Rightarrow> ptr \<Rightarrow> mem_block" where
  "upd_block p f B = B(p := f (B p))"

text \<open>The statement \<open>if (x->next) x->next->prev = q\<close>.\<close>

definition link_prev :: "ptr \<Rightarrow> ptr \<Rightarrow> (ptr \<Rightarrow> mem_block) \<Rightarrow> ptr \<Rightarrow> mem_block" where
  "link_prev nx q B = (if nx \<noteq> 0 then upd_block nx (\<lambda>b. b\<lparr>mb_prev := q\<rparr>) B else B)"

text \<open>The static initial values of \<open>mm.c\<close>, over whatever the memory holds at boot.\<close>

definition heap_boot :: "(ptr \<Rightarrow> mem_block) \<Rightarrow> heap" where
  "heap_boot B = \<lparr>hp_start = 0, hp_end = 0, hp_placement = KERNEL_HEAP_START, hp_blocks = B\<rparr>"

subsection \<open>Operations\<close>

partial_function (option) find_hole_loop ::
    "(ptr \<Rightarrow> mem_block) \<Rightarrow> ptr \<Rightarrow> u32 \<Rightarrow> ptr option option" where
  "find_hole_loop B current sz =
     (if current = 0 then Some None
      else if mb_free (B current) \<and> sz \<le> mb_size (B current) then Some (Some current)
      else find_hole_loop B (mb_next (B current)) sz)"

text \<open>
  \<open>Some (Some hole)\<close> is the return value 1 with \<open>*hole\<close> set, \<open>Some None\<close> the return
  value 0, \<open>None\<close> a walk that never ends. \<open>page_align\<close> is not used, as in the code.
\<close>

definition mm_find_smallest_hole :: "u32 \<Rightarrow> u8 \<Rightarrow> heap \<Rightarrow> ptr option option" where
  "mm_find_smallest_hole sz page_align h = find_hole_loop (hp_blocks h) (hp_start h) sz"

text \<open>The first call of \<open>kmalloc_ap\<close> makes the whole heap one free block.\<close>

definition heap_init :: "heap \<Rightarrow> heap" where
  "heap_init h =
     h\<lparr>hp_start := KERNEL_HEAP_START,
       hp_blocks := (hp_blocks h)(KERNEL_HEAP_START :=
         \<lparr>mb_size = KERNEL_HEAP_SIZE - SIZEOF_BLOCK, mb_next = 0, mb_prev = 0, mb_free = True\<rparr>),
       hp_end := KERNEL_HEAP_START\<rparr>"

text \<open>No hole: take the block at the placement address and append it to the list.\<close>

definition kmalloc_place :: "u32 \<Rightarrow> bool \<Rightarrow> heap \<Rightarrow> (ptr \<times> u32 option \<times> heap) panicking" where
  "kmalloc_place sz phys h =
     (let old_placement = hp_placement h;
          h1 = h\<lparr>hp_placement := old_placement + (sz + SIZEOF_BLOCK)\<rparr>
      in if hp_placement h1 > KERNEL_HEAP_START + KERNEL_HEAP_SIZE
         then Inl (bytes ''Kernel heap exhausted'')
         else
           let B1 = (hp_blocks h1)(old_placement :=
                 \<lparr>mb_size = sz, mb_next = 0, mb_prev = hp_end h1, mb_free = False\<rparr>);
               B2 = (if hp_end h1 \<noteq> 0
                     then upd_block (hp_end h1) (\<lambda>b. b\<lparr>mb_next := old_placement\<rparr>) B1 else B1);
               addr = old_placement + SIZEOF_BLOCK
           in Inr (addr, if phys then Some addr else None,
                   h1\<lparr>hp_blocks := B2, hp_end := old_placement\<rparr>))"

text \<open>A hole: split off the tail when it can hold a header and 8 bytes, and take the hole.\<close>

definition split_hole :: "u32 \<Rightarrow> ptr \<Rightarrow> (ptr \<Rightarrow> mem_block) \<Rightarrow> ptr \<Rightarrow> mem_block" where
  "split_hole sz hole B =
     (if mb_size (B hole) \<ge> sz + SIZEOF_BLOCK + 8
      then
        let remaining = mb_size (B hole) - sz - SIZEOF_BLOCK;
            new_block = hole + SIZEOF_BLOCK + sz;
            B1 = upd_block new_block (\<lambda>b. b\<lparr>mb_size := remaining\<rparr>) B;
            B2 = upd_block new_block (\<lambda>b. b\<lparr>mb_free := True\<rparr>) B1;
            B3 = upd_block new_block (\<lambda>b. b\<lparr>mb_next := mb_next (B2 hole)\<rparr>) B2;
            B4 = upd_block new_block (\<lambda>b. b\<lparr>mb_prev := hole\<rparr>) B3;
            B5 = link_prev (mb_next (B4 hole)) new_block B4;
            B6 = upd_block hole (\<lambda>b. b\<lparr>mb_next := new_block\<rparr>) B5
        in upd_block hole (\<lambda>b. b\<lparr>mb_size := sz\<rparr>) B6
      else B)"

definition kmalloc_hole :: "u32 \<Rightarrow> bool \<Rightarrow> ptr \<Rightarrow> heap \<Rightarrow> ptr \<times> u32 option \<times> heap" where
  "kmalloc_hole sz phys hole h =
     (let B = upd_block hole (\<lambda>b. b\<lparr>mb_free := False\<rparr>) (split_hole sz hole (hp_blocks h));
          addr = hole + SIZEOF_BLOCK
      in (addr, if phys then Some addr else None, h\<lparr>hp_blocks := B\<rparr>))"

text \<open>
  \<open>kmalloc_ap sz phys h\<close>: \<open>phys\<close> says whether the caller passed a non-null \<open>phys\<close>; the
  second component of the result is what is stored through it. \<open>None\<close> is a search that never
  ends, \<open>Inl\<close> a kernel panic.
\<close>

definition kmalloc_ap :: "u32 \<Rightarrow> bool \<Rightarrow> heap \<Rightarrow> (ptr \<times> u32 option \<times> heap) panicking option" where
  "kmalloc_ap sz phys h0 =
     (let h = (if hp_start h0 = 0 then heap_init h0 else h0)
      in if sz = 0 then Some (Inr (0, None, h))
         else case mm_find_smallest_hole (sz + SIZEOF_BLOCK) 0 h of
                None \<Rightarrow> None
              | Some None \<Rightarrow> Some (kmalloc_place sz phys h)
              | Some (Some hole) \<Rightarrow> Some (Inr (kmalloc_hole sz phys hole h)))"

definition kmalloc_p :: "u32 \<Rightarrow> bool \<Rightarrow> heap \<Rightarrow> (ptr \<times> u32 option \<times> heap) panicking option" where
  "kmalloc_p sz phys h = kmalloc_ap sz phys h"

text \<open>The two entry points with a null \<open>phys\<close> return the pointer and the heap.\<close>

definition drop_phys :: "(ptr \<times> u32 option \<times> heap) panicking option \<Rightarrow> (ptr \<times> heap) panicking option" where
  "drop_phys r = map_option (map_sum id (\<lambda>(p, _, h). (p, h))) r"

definition kmalloc :: "u32 \<Rightarrow> heap \<Rightarrow> (ptr \<times> heap) panicking option" where
  "kmalloc sz h = drop_phys (kmalloc_p sz False h)"

definition kmalloc_a :: "u32 \<Rightarrow> heap \<Rightarrow> (ptr \<times> heap) panicking option" where
  "kmalloc_a sz h = drop_phys (kmalloc_ap sz False h)"

text \<open>\<open>kfree\<close>: mark the block free, join it to a free predecessor, then to a free successor.\<close>

definition join_prev :: "ptr \<Rightarrow> (ptr \<Rightarrow> mem_block) \<Rightarrow> ptr \<times> (ptr \<Rightarrow> mem_block)" where
  "join_prev block B =
     (let prev = mb_prev (B block)
      in if prev \<noteq> 0 \<and> mb_free (B prev)
         then
           let B1 = upd_block prev (\<lambda>b. b\<lparr>mb_size := mb_size b + (mb_size (B block) + SIZEOF_BLOCK)\<rparr>) B;
               B2 = upd_block (mb_prev (B1 block)) (\<lambda>b. b\<lparr>mb_next := mb_next (B1 block)\<rparr>) B1;
               B3 = link_prev (mb_next (B2 block)) (mb_prev (B2 block)) B2
           in (mb_prev (B3 block), B3)
         else (block, B))"

definition join_next :: "ptr \<Rightarrow> (ptr \<Rightarrow> mem_block) \<Rightarrow> (ptr \<Rightarrow> mem_block)" where
  "join_next block B =
     (let nxt = mb_next (B block)
      in if nxt \<noteq> 0 \<and> mb_free (B nxt)
         then
           let B1 = upd_block block (\<lambda>b. b\<lparr>mb_size := mb_size b + (mb_size (B nxt) + SIZEOF_BLOCK)\<rparr>) B;
               B2 = upd_block block (\<lambda>b. b\<lparr>mb_next := mb_next (B1 (mb_next (B1 block)))\<rparr>) B1
           in link_prev (mb_next (B2 block)) block B2
         else B)"

definition kfree :: "ptr \<Rightarrow> heap \<Rightarrow> heap" where
  "kfree p h =
     (if p = 0 then h
      else
        let block = p - SIZEOF_BLOCK;
            B = upd_block block (\<lambda>b. b\<lparr>mb_free := True\<rparr>) (hp_blocks h)
        in case join_prev block B of (block', B') \<Rightarrow> h\<lparr>hp_blocks := join_next block' B'\<rparr>)"

subsection \<open>The block list of a well-formed heap\<close>

type_synonym ablk = "nat \<times> bool"

definition HEAP_BASE :: nat where "HEAP_BASE = 0xD0000000"
definition HEAP_TOP :: nat where "HEAP_TOP = 0xD1000000"

lemmas heap_consts = KERNEL_HEAP_START_def KERNEL_HEAP_SIZE_def SIZEOF_BLOCK_def
  HEAP_BASE_def HEAP_TOP_def

text \<open>The \<open>next\<close> pointer of a block that ends at \<open>e\<close>: the last one has none.\<close>

definition nxt :: "nat \<Rightarrow> ptr" where
  "nxt e = (if e = HEAP_TOP then 0 else of_nat e)"

definition blk_at :: "(ptr \<Rightarrow> mem_block) \<Rightarrow> nat \<Rightarrow> nat \<Rightarrow> ablk \<Rightarrow> bool" where
  "blk_at B p a x \<longleftrightarrow> B (of_nat a) =
     \<lparr>mb_size = of_nat (fst x), mb_next = nxt (a + 16 + fst x), mb_prev = of_nat p, mb_free = snd x\<rparr>"

text \<open>
  \<open>hseg B p a xs\<close>: from address \<open>a\<close> on, the headers in \<open>B\<close> are those of the blocks
  \<open>xs\<close>, one directly behind the other, the first with predecessor \<open>p\<close>. \<open>hend\<close> is
  the address behind the last block, \<open>hlast\<close> the address of the last header.
\<close>

fun hseg :: "(ptr \<Rightarrow> mem_block) \<Rightarrow> nat \<Rightarrow> nat \<Rightarrow> ablk list \<Rightarrow> bool" where
  "hseg B p a [] = True"
| "hseg B p a (x # xs) = (blk_at B p a x \<and> hseg B a (a + 16 + fst x) xs)"

fun hend :: "nat \<Rightarrow> ablk list \<Rightarrow> nat" where
  "hend a [] = a"
| "hend a (x # xs) = hend (a + 16 + fst x) xs"

fun hlast :: "nat \<Rightarrow> nat \<Rightarrow> ablk list \<Rightarrow> nat" where
  "hlast p a [] = p"
| "hlast p a (x # xs) = hlast a (a + 16 + fst x) xs"

definition heap_ok :: "heap \<Rightarrow> ablk list \<Rightarrow> bool" where
  "heap_ok h xs \<longleftrightarrow> hp_start h = KERNEL_HEAP_START \<and> xs \<noteq> []
     \<and> hseg (hp_blocks h) 0 HEAP_BASE xs \<and> hend HEAP_BASE xs = HEAP_TOP"

definition fresh_blocks :: "ablk list" where
  "fresh_blocks = [(16 * 1024 * 1024 - 16, True)]"

text \<open>Before its first use the heap stands for one free block.\<close>

definition heap_rep :: "heap \<Rightarrow> ablk list \<Rightarrow> bool" where
  "heap_rep h xs \<longleftrightarrow> (if hp_start h = 0 then xs = fresh_blocks else heap_ok h xs)"

lemma hend_append [simp]: "hend a (xs @ ys) = hend (hend a xs) ys"
  by (induction xs arbitrary: a) auto

lemma hseg_append:
  "hseg B p a (xs @ ys) = (hseg B p a xs \<and> hseg B (hlast p a xs) (hend a xs) ys)"
  by (induction xs arbitrary: p a) auto

lemma hlast_append: "hlast p a (xs @ ys) = hlast (hlast p a xs) (hend a xs) ys"
  by (induction xs arbitrary: p a) auto

lemma hend_ge: "a \<le> hend a xs"
proof (induction xs arbitrary: a)
  case (Cons x xs)
  from Cons.IH [of "a + 16 + fst x"] show ?case by simp
qed simp

lemma hend_sum: "hend a xs = a + (\<Sum>x\<leftarrow>xs. 16 + fst x)"
  by (induction xs arbitrary: a) auto

lemma hlast_less: "xs \<noteq> [] \<Longrightarrow> a \<le> hlast p a xs \<and> hlast p a xs + 16 \<le> hend a xs"
proof (induction xs arbitrary: p a)
  case Nil
  then show ?case by simp
next
  case (Cons x xs)
  show ?case
  proof (cases "xs = []")
    case True
    then show ?thesis by simp
  next
    case False
    from Cons.IH [OF this, of "a + 16 + fst x" a] show ?thesis by auto
  qed
qed

text \<open>A write outside a segment's headers leaves the segment as it is.\<close>

lemma blk_at_upd:
  "y \<noteq> a \<Longrightarrow> y < 2 ^ 32 \<Longrightarrow> a < 2 ^ 32 \<Longrightarrow> blk_at (B(of_nat y := v)) p a x = blk_at B p a x"
  by (simp add: blk_at_def of_nat_u32_inject)

lemma hseg_upd:
  assumes "y < a \<or> hend a xs \<le> y" and "y < 2 ^ 32" and "hend a xs \<le> 2 ^ 32"
  shows "hseg (B(of_nat y := v)) p a xs = hseg B p a xs"
  using assms
proof (induction xs arbitrary: p a)
  case Nil
  then show ?case by simp
next
  case (Cons x xs)
  have le: "a + 16 + fst x \<le> hend a (x # xs)" using hend_ge by simp
  then have "y \<noteq> a" "a < 2 ^ 32" using Cons.prems by auto
  then have "blk_at (B(of_nat y := v)) p a x = blk_at B p a x"
    using Cons.prems(2) by (intro blk_at_upd)
  moreover have "hseg (B(of_nat y := v)) a (a + 16 + fst x) xs = hseg B a (a + 16 + fst x) xs"
    by (rule Cons.IH) (use Cons.prems le in auto)
  ultimately show ?case by (simp only: hseg.simps)
qed

lemma hseg_upd_block:
  assumes "y < a \<or> hend a xs \<le> y" and "y < 2 ^ 32" and "hend a xs \<le> 2 ^ 32"
  shows "hseg (upd_block (of_nat y) f B) p a xs = hseg B p a xs"
  unfolding upd_block_def using assms by (rule hseg_upd)

text \<open>The predecessor field of a segment's first block.\<close>

definition set_prev :: "nat \<Rightarrow> nat \<Rightarrow> ablk list \<Rightarrow> (ptr \<Rightarrow> mem_block) \<Rightarrow> ptr \<Rightarrow> mem_block" where
  "set_prev q a ys B = (if ys = [] then B
     else upd_block (of_nat a) (\<lambda>b. b\<lparr>mb_prev := of_nat q\<rparr>) B)"

lemma hseg_set_prev:
  assumes "hseg B p a ys" and "hend a ys \<le> 2 ^ 32"
  shows "hseg (set_prev q a ys B) q a ys"
proof (cases ys)
  case Nil
  then show ?thesis by simp
next
  case (Cons y zs)
  have "hend (a + 16 + fst y) zs \<le> 2 ^ 32" using assms(2) Cons by simp
  moreover have "a < 2 ^ 32" using assms(2) Cons hend_ge [of "a + 16 + fst y" zs] by simp
  moreover have "blk_at (set_prev q a ys B) q a y"
    using assms(1) Cons by (simp add: blk_at_def set_prev_def upd_block_def)
  ultimately show ?thesis
    using assms(1) Cons by (simp add: set_prev_def hseg_upd_block)
qed

text \<open>\<open>link_prev\<close> on a well-formed list, when \<open>x\<close> ends where \<open>ys\<close> starts.\<close>

lemma set_prev_code:
  assumes "hend e ys = HEAP_TOP" and "0 < e"
  shows "link_prev (nxt e) (of_nat q) B = set_prev q e ys B"
proof (cases ys)
  case Nil
  then show ?thesis using assms(1) by (simp add: nxt_def set_prev_def link_prev_def)
next
  case (Cons y zs)
  have "e + 16 \<le> HEAP_TOP"
    using assms(1) Cons hend_ge [of "e + 16 + fst y" zs] by simp
  moreover from this have "(of_nat e :: u32) \<noteq> of_nat 0"
    using assms(2) by (subst of_nat_u32_inject) (auto simp: HEAP_TOP_def)
  ultimately show ?thesis using Cons by (simp add: nxt_def set_prev_def link_prev_def)
qed

subsection \<open>The allocator on block lists\<close>

text \<open>First fit: a free block of at least \<open>n + 16\<close> bytes, split when 24 bytes are left over.\<close>

definition take_block :: "nat \<Rightarrow> nat \<Rightarrow> ablk list" where
  "take_block n k = (if n + 24 \<le> k then [(n, False), (k - n - 16, True)] else [(k, False)])"

fun alloc_l :: "nat \<Rightarrow> nat \<Rightarrow> ablk list \<Rightarrow> (nat \<times> ablk list) option" where
  "alloc_l n a [] = None"
| "alloc_l n a (x # xs) =
     (if snd x \<and> n + 16 \<le> fst x then Some (a + 16, take_block n (fst x) @ xs)
      else map_option (\<lambda>(r, ys). (r, x # ys)) (alloc_l n (a + 16 + fst x) xs))"

definition join_blocks :: "nat \<Rightarrow> ablk list \<Rightarrow> ablk list" where
  "join_blocks k ys =
     (case ys of
        (j, True) # zs \<Rightarrow> (k + (j + 16), True) # zs
      | _ \<Rightarrow> (k, True) # ys)"

text \<open>\<open>free_l xs k ys\<close> frees the block of size \<open>k\<close> between the blocks \<open>xs\<close> and \<open>ys\<close>.\<close>

definition free_l :: "ablk list \<Rightarrow> nat \<Rightarrow> ablk list \<Rightarrow> ablk list" where
  "free_l xs k ys =
     (case rev xs of
        (j, True) # zs \<Rightarrow> rev zs @ join_blocks (j + (k + 16)) ys
      | _ \<Rightarrow> xs @ join_blocks k ys)"

text \<open>The allocated regions: address and size of each block in use.\<close>

fun live_l :: "nat \<Rightarrow> ablk list \<Rightarrow> (nat \<times> nat) list" where
  "live_l a [] = []"
| "live_l a (x # xs) = (if snd x then [] else [(a + 16, fst x)]) @ live_l (a + 16 + fst x) xs"

text \<open>No two neighbouring blocks are both free.\<close>

fun coalesced :: "ablk list \<Rightarrow> bool" where
  "coalesced (x # y # xs) = (\<not> (snd x \<and> snd y) \<and> coalesced (y # xs))"
| "coalesced _ = True"

subsection \<open>The search\<close>

definition no_hole :: "nat \<Rightarrow> ablk list \<Rightarrow> bool" where
  "no_hole k xs \<longleftrightarrow> (\<forall>x \<in> set xs. \<not> (snd x \<and> k \<le> fst x))"

lemma no_hole_simps [simp]:
  "no_hole k []" "no_hole k (x # xs) \<longleftrightarrow> \<not> (snd x \<and> k \<le> fst x) \<and> no_hole k xs"
  "no_hole k (xs @ ys) \<longleftrightarrow> no_hole k xs \<and> no_hole k ys"
  by (auto simp: no_hole_def)

text \<open>Either no block fits, or the list splits at the first one that does.\<close>

lemma hole_cases:
  obtains (none) "no_hole k xs"
  | (hole) us j vs where "xs = us @ (j, True) # vs" and "no_hole k us" and "k \<le> j"
proof (cases "no_hole k xs")
  case True
  then show ?thesis by (rule none)
next
  case False
  then have "\<exists>x \<in> set xs. snd x \<and> k \<le> fst x" by (auto simp: no_hole_def)
  from split_list_first_prop [OF this] obtain us x vs
    where "xs = us @ x # vs" "snd x \<and> k \<le> fst x" "\<forall>y \<in> set us. \<not> (snd y \<and> k \<le> fst y)"
    by blast
  moreover from this have "x = (fst x, True)" by (simp add: prod_eq_iff)
  ultimately show ?thesis by (intro hole [of us "fst x" vs]) (auto simp: no_hole_def)
qed

lemma alloc_l_none: "no_hole (n + 16) xs \<Longrightarrow> alloc_l n a xs = None"
  by (induction xs arbitrary: a) auto

lemma alloc_l_hole:
  "no_hole (n + 16) us \<Longrightarrow> n + 16 \<le> k \<Longrightarrow>
    alloc_l n a (us @ (k, True) # vs) = Some (hend a us + 16, us @ take_block n k @ vs)"
  by (induction us arbitrary: a) auto

lemma of_nat_le_u32:
  "i < 2 ^ 32 \<Longrightarrow> j < 2 ^ 32 \<Longrightarrow> ((of_nat i :: u32) \<le> of_nat j) = (i \<le> j)"
  by (simp add: word_le_nat_alt unat_of_nat_u32)

lemma nxt_zero_iff: "0 < a \<Longrightarrow> a \<le> HEAP_TOP \<Longrightarrow> nxt a = 0 \<longleftrightarrow> a = HEAP_TOP"
  using of_nat_u32_inject [of a 0] by (auto simp: nxt_def HEAP_TOP_def)

lemma find_hole_step:
  assumes "blk_at B p a x" and "0 < a" and "a + 16 + fst x \<le> HEAP_TOP" and "k < 2 ^ 32"
  shows "find_hole_loop B (nxt a) (of_nat k) =
    (if snd x \<and> k \<le> fst x then Some (Some (of_nat a))
     else find_hole_loop B (nxt (a + 16 + fst x)) (of_nat k))"
proof -
  have a: "nxt a = of_nat a" "nxt a \<noteq> 0"
    using assms(2,3) nxt_zero_iff [of a] by (auto simp: nxt_def)
  have "fst x < 2 ^ 32" using assms(3) by (simp add: HEAP_TOP_def)
  then have "((of_nat k :: u32) \<le> of_nat (fst x)) = (k \<le> fst x)"
    using assms(4) by (simp add: of_nat_le_u32)
  then show ?thesis
    using a assms(1) by (subst find_hole_loop.simps) (simp add: blk_at_def)
qed

lemma find_hole_none:
  assumes "k < 2 ^ 32"
  shows "hseg B p a xs \<Longrightarrow> hend a xs = HEAP_TOP \<Longrightarrow> 0 < a \<Longrightarrow> no_hole k xs \<Longrightarrow>
    find_hole_loop B (nxt a) (of_nat k) = Some None"
proof (induction xs arbitrary: p a)
  case Nil
  then show ?case by (subst find_hole_loop.simps) (simp add: nxt_def)
next
  case (Cons x xs)
  have "a + 16 + fst x \<le> HEAP_TOP" using Cons.prems(2) hend_ge [of "a + 16 + fst x" xs] by simp
  with find_hole_step [of B p a x k] Cons.IH [of a "a + 16 + fst x"] assms Cons.prems
  show ?case by auto
qed

lemma find_hole_first:
  assumes "k < 2 ^ 32" and "k \<le> j"
  shows "hseg B p a (us @ (j, True) # vs) \<Longrightarrow> hend a (us @ (j, True) # vs) = HEAP_TOP \<Longrightarrow>
    0 < a \<Longrightarrow> no_hole k us \<Longrightarrow>
    find_hole_loop B (nxt a) (of_nat k) = Some (Some (of_nat (hend a us)))"
proof (induction us arbitrary: p a)
  case Nil
  have "a + 16 + j \<le> HEAP_TOP" using Nil.prems(2) hend_ge [of "a + 16 + j" vs] by simp
  with find_hole_step [of B p a "(j, True)" k] assms Nil.prems show ?case by simp
next
  case (Cons x us)
  have "a + 16 + fst x \<le> HEAP_TOP"
    using Cons.prems(2) hend_ge [of "a + 16 + fst x" "us @ (j, True) # vs"] by simp
  with find_hole_step [of B p a x k] Cons.IH [of a "a + 16 + fst x"] assms Cons.prems
  show ?case by auto
qed

subsection \<open>kmalloc refines first fit\<close>

text \<open>The bounds every block of a well-formed heap obeys.\<close>

lemma heap_ok_bounds:
  assumes "heap_ok h (us @ x # vs)"
  shows "HEAP_BASE \<le> hend HEAP_BASE us" and "hend HEAP_BASE us + 16 + fst x \<le> HEAP_TOP"
    and "hend (hend HEAP_BASE us + 16 + fst x) vs = HEAP_TOP"
    and "hseg (hp_blocks h) 0 HEAP_BASE us"
    and "blk_at (hp_blocks h) (hlast 0 HEAP_BASE us) (hend HEAP_BASE us) x"
    and "hseg (hp_blocks h) (hend HEAP_BASE us) (hend HEAP_BASE us + 16 + fst x) vs"
  using assms hend_ge [of HEAP_BASE us] hend_ge [of "hend HEAP_BASE us + 16 + fst x" vs]
  by (auto simp: heap_ok_def hseg_append)

lemma upd_block_same: "upd_block p f B p = f (B p)"
  by (simp add: upd_block_def)

lemma upd_block_other: "q \<noteq> p \<Longrightarrow> upd_block p f B q = B q"
  by (simp add: upd_block_def)

lemma upd_block_upd_block: "upd_block p f (upd_block p g B) = upd_block p (\<lambda>b. f (g b)) B"
  by (simp add: upd_block_def)

lemma set_prev_other: "q \<noteq> of_nat e \<Longrightarrow> set_prev r e ys B q = B q"
  by (simp add: set_prev_def upd_block_def)

lemma hseg_set_prev_before:
  assumes "hend a xs \<le> e" and "e < 2 ^ 32"
  shows "hseg (set_prev q e ys B) p a xs = hseg B p a xs"
  using assms by (simp add: set_prev_def hseg_upd_block)

lemma block_all_fields:
  "b\<lparr>mb_size := s, mb_free := f, mb_next := n, mb_prev := p\<rparr>
     = \<lparr>mb_size = s, mb_next = n, mb_prev = p, mb_free = f\<rparr>"
  by simp

lemma split_hole_big:
  assumes ok: "heap_ok h (us @ (k, True) # vs)" and fit: "n + 24 \<le> k"
  defines "a \<equiv> hend HEAP_BASE us" and "p \<equiv> hlast 0 HEAP_BASE us"
  defines "nb \<equiv> a + 16 + n" and "e \<equiv> a + 16 + k"
  shows "split_hole (of_nat n) (of_nat a) (hp_blocks h) =
    upd_block (of_nat a) (\<lambda>b. b\<lparr>mb_next := of_nat nb, mb_size := of_nat n\<rparr>)
      (set_prev nb e vs
        (upd_block (of_nat nb)
          (\<lambda>b. \<lparr>mb_size = of_nat (k - n - 16), mb_next = nxt e, mb_prev = of_nat a, mb_free = True\<rparr>)
          (hp_blocks h)))"
proof -
  let ?B = "hp_blocks h"
  have bounds: "HEAP_BASE \<le> a" "e \<le> HEAP_TOP"
    using heap_ok_bounds(1,2) [OF ok] by (auto simp: a_def e_def)
  have k: "k < 2 ^ 32" and n: "n < 2 ^ 32" using bounds fit by (auto simp: e_def HEAP_TOP_def)
  have at: "?B (of_nat a) =
      \<lparr>mb_size = of_nat k, mb_next = nxt e, mb_prev = of_nat p, mb_free = True\<rparr>"
    using heap_ok_bounds(5) [OF ok] by (simp add: blk_at_def a_def p_def e_def)
  have guard: "(of_nat n :: u32) + SIZEOF_BLOCK + 8 \<le> of_nat k"
    using of_nat_le_u32 [of "n + 24" k] fit k by (simp add: SIZEOF_BLOCK_def add.assoc)
  have nb: "of_nat a + SIZEOF_BLOCK + of_nat n = (of_nat nb :: u32)"
    by (simp add: nb_def SIZEOF_BLOCK_def)
  have rest: "of_nat k - of_nat n - SIZEOF_BLOCK = (of_nat (k - n - 16) :: u32)"
    using fit by (simp add: SIZEOF_BLOCK_def of_nat_diff)
  have ne: "(of_nat a :: u32) \<noteq> of_nat nb"
    using bounds fit by (subst of_nat_u32_inject) (auto simp: nb_def e_def HEAP_TOP_def)
  have "hend e vs = HEAP_TOP" "0 < e"
    using heap_ok_bounds(3) [OF ok] by (auto simp: a_def e_def)
  note prev = set_prev_code [OF this, of nb]
  have ae: "(of_nat a :: u32) \<noteq> of_nat e"
    using bounds fit by (subst of_nat_u32_inject) (auto simp: e_def HEAP_TOP_def)
  show ?thesis
    using guard ne ae
    by (simp add: split_hole_def at nb rest Let_def upd_block_upd_block upd_block_other prev
          set_prev_other block_all_fields)
qed

lemma kmalloc_hole_refines:
  assumes ok: "heap_ok h (us @ (k, True) # vs)" and fit: "n + 16 \<le> k"
  defines "a \<equiv> hend HEAP_BASE us"
  obtains h' where "kmalloc_hole (of_nat n) phys (of_nat a) h
      = (of_nat (a + 16), if phys then Some (of_nat (a + 16)) else None, h')"
    and "heap_ok h' (us @ take_block n k @ vs)"
    and "hp_placement h' = hp_placement h" and "hp_end h' = hp_end h"
proof -
  define p where "p = hlast 0 HEAP_BASE us"
  define e where "e = a + 16 + k"
  define B where "B = upd_block (of_nat a) (\<lambda>b. b\<lparr>mb_free := False\<rparr>)
    (split_hole (of_nat n) (of_nat a) (hp_blocks h))"
  note bnd = heap_ok_bounds [OF ok, folded a_def, folded p_def, simplified, folded e_def]
  have lim: "a + 16 + n \<le> e" "e \<le> HEAP_TOP" "hend e vs = HEAP_TOP" "HEAP_BASE \<le> a"
    using fit bnd by (auto simp: e_def)
  then have top: "a < 2 ^ 32" "e < 2 ^ 32" "hend e vs \<le> 2 ^ 32" "hend HEAP_BASE us \<le> a"
    by (auto simp: HEAP_TOP_def a_def)
  have at: "hp_blocks h (of_nat a) =
      \<lparr>mb_size = of_nat k, mb_next = nxt e, mb_prev = of_nat p, mb_free = True\<rparr>"
    using bnd(5) by (simp add: blk_at_def e_def)
  have "hseg B 0 HEAP_BASE (us @ take_block n k @ vs)"
  proof (cases "n + 24 \<le> k")
    case True
    define nb where "nb = a + 16 + n"
    have nb: "a < nb" "nb + 16 \<le> e" "nb < 2 ^ 32" "nb \<noteq> HEAP_TOP"
      using True lim by (auto simp: nb_def e_def HEAP_TOP_def)
    have B: "B = upd_block (of_nat a) (\<lambda>b. b\<lparr>mb_next := of_nat nb, mb_size := of_nat n, mb_free := False\<rparr>)
      (set_prev nb e vs
        (upd_block (of_nat nb)
          (\<lambda>b. \<lparr>mb_size = of_nat (k - n - 16), mb_next = nxt e, mb_prev = of_nat a, mb_free = True\<rparr>)
          (hp_blocks h)))"
      unfolding B_def split_hole_big [OF ok True, folded a_def, folded nb_def e_def]
      by (simp add: upd_block_upd_block)
    have ne: "(of_nat nb :: u32) \<noteq> of_nat a" "(of_nat a :: u32) \<noteq> of_nat e"
      "(of_nat nb :: u32) \<noteq> of_nat e"
      using nb top by (auto simp: of_nat_u32_inject)
    have "hseg B 0 HEAP_BASE us"
      using bnd(4) top nb lim by (simp add: B hseg_upd_block hseg_set_prev_before)
    moreover have "blk_at B p a (n, False)"
      using at ne nb by (simp add: B blk_at_def upd_block_same upd_block_other set_prev_other
        nxt_def flip: nb_def)
    moreover have end_eq: "nb + 16 + (k - n - 16) = e" using True by (simp add: nb_def e_def)
    then have "blk_at B a nb (k - n - 16, True)"
      using ne by (simp add: B blk_at_def upd_block_same upd_block_other set_prev_other
        del: diff_diff_left)
    moreover have "hseg B nb e vs"
    proof -
      have "hseg (upd_block (of_nat nb)
          (\<lambda>b. \<lparr>mb_size = of_nat (k - n - 16), mb_next = nxt e, mb_prev = of_nat a, mb_free = True\<rparr>)
          (hp_blocks h)) a e vs"
        using bnd(6) top nb by (simp add: hseg_upd_block)
      from hseg_set_prev [OF this top(3), of nb] show ?thesis
        using top lim by (simp add: B hseg_upd_block)
    qed
    moreover have "nb + k - n = e" by (simp add: nb_def e_def)
    ultimately show ?thesis
      using True by (simp add: hseg_append take_block_def p_def flip: a_def nb_def)
  next
    case False
    have "\<not> (of_nat n :: u32) + SIZEOF_BLOCK + 8 \<le> of_nat k"
      using of_nat_le_u32 [of "n + 24" k] False lim fit
      by (simp add: SIZEOF_BLOCK_def e_def HEAP_TOP_def add.assoc)
    then have B: "B = upd_block (of_nat a) (\<lambda>b. b\<lparr>mb_free := False\<rparr>) (hp_blocks h)"
      by (simp add: B_def split_hole_def at)
    have "hseg B 0 HEAP_BASE us" using bnd(4) top by (simp add: B hseg_upd_block)
    moreover have "blk_at B p a (k, False)"
      using at by (simp add: B blk_at_def upd_block_same e_def)
    moreover have "hseg B a e vs" using bnd(6) top lim by (simp add: B hseg_upd_block)
    ultimately show ?thesis
      using False by (simp add: hseg_append take_block_def p_def e_def flip: a_def)
  qed
  moreover have "hend HEAP_BASE (us @ take_block n k @ vs) = HEAP_TOP"
    using lim(3) fit by (simp add: take_block_def e_def ac_simps flip: a_def)
  ultimately have "heap_ok (h\<lparr>hp_blocks := B\<rparr>) (us @ take_block n k @ vs)"
    using ok by (simp add: heap_ok_def take_block_def)
  then show ?thesis
    by (intro that [of "h\<lparr>hp_blocks := B\<rparr>"]) (auto simp: kmalloc_hole_def B_def Let_def SIZEOF_BLOCK_def)
qed

text \<open>The first call initialises the heap; after that the heap is a list of blocks.\<close>

lemma heap_rep_init:
  assumes "heap_rep h xs"
  shows "heap_ok (if hp_start h = 0 then heap_init h else h) xs"
  using assms
  by (auto simp: heap_rep_def heap_ok_def heap_init_def fresh_blocks_def blk_at_def nxt_def heap_consts)

lemma heap_ok_rep: "heap_ok h xs \<Longrightarrow> heap_rep h xs"
  by (simp add: heap_rep_def heap_ok_def heap_consts)

lemma find_hole_refines:
  assumes "heap_ok h xs" and "n + 16 < 2 ^ 32"
  shows "no_hole (n + 16) xs \<Longrightarrow> mm_find_smallest_hole (of_nat n + SIZEOF_BLOCK) 0 h = Some None"
    and "xs = us @ (k, True) # vs \<Longrightarrow> no_hole (n + 16) us \<Longrightarrow> n + 16 \<le> k \<Longrightarrow>
      mm_find_smallest_hole (of_nat n + SIZEOF_BLOCK) 0 h = Some (Some (of_nat (hend HEAP_BASE us)))"
proof -
  have start: "hp_start h = nxt HEAP_BASE" and need: "of_nat n + SIZEOF_BLOCK = (of_nat (n + 16) :: u32)"
    using assms(1) by (auto simp: heap_ok_def nxt_def heap_consts)
  have seg: "hseg (hp_blocks h) 0 HEAP_BASE xs" "hend HEAP_BASE xs = HEAP_TOP" "0 < HEAP_BASE"
    using assms(1) by (auto simp: heap_ok_def HEAP_BASE_def)
  show "mm_find_smallest_hole (of_nat n + SIZEOF_BLOCK) 0 h = Some None" if "no_hole (n + 16) xs"
    unfolding mm_find_smallest_hole_def start need
    by (rule find_hole_none [OF assms(2) seg that])
  show "mm_find_smallest_hole (of_nat n + SIZEOF_BLOCK) 0 h = Some (Some (of_nat (hend HEAP_BASE us)))"
    if "xs = us @ (k, True) # vs" "no_hole (n + 16) us" "n + 16 \<le> k"
    unfolding mm_find_smallest_hole_def start need
    using find_hole_first [OF assms(2) that(3), of "hp_blocks h" 0 HEAP_BASE us vs] seg that by simp
qed

lemma kmalloc_ap_refines:
  assumes "heap_rep h xs" and "0 < n" and "n + 16 < 2 ^ 32"
    and "alloc_l n HEAP_BASE xs = Some (a, ys)"
  obtains h' where "kmalloc_ap (of_nat n) phys h
      = Some (Inr (of_nat a, if phys then Some (of_nat a) else None, h'))"
    and "heap_rep h' ys" and "hp_start h' = KERNEL_HEAP_START"
    and "hp_placement h' = hp_placement h"
    and "hp_end h' = (if hp_start h = 0 then KERNEL_HEAP_START else hp_end h)"
proof -
  define h0 where "h0 = (if hp_start h = 0 then heap_init h else h)"
  have ok: "heap_ok h0 xs" using heap_rep_init [OF assms(1)] by (simp add: h0_def)
  have nz: "(of_nat n :: u32) \<noteq> 0" using assms(2,3) of_nat_u32_inject [of n 0] by simp
  obtain us k vs where xs: "xs = us @ (k, True) # vs" "no_hole (n + 16) us" "n + 16 \<le> k"
    using assms(4) alloc_l_none [of n xs HEAP_BASE] by (cases rule: hole_cases [of "n + 16" xs]) auto
  then have a: "a = hend HEAP_BASE us + 16" "ys = us @ take_block n k @ vs"
    using assms(4) alloc_l_hole [of n us k HEAP_BASE vs] by auto
  obtain h' where h': "kmalloc_hole (of_nat n) phys (of_nat (hend HEAP_BASE us)) h0
      = (of_nat a, if phys then Some (of_nat a) else None, h')" "heap_ok h' ys"
    "hp_placement h' = hp_placement h0" "hp_end h' = hp_end h0"
    using kmalloc_hole_refines [OF ok [unfolded xs(1)] xs(3)] a by metis
  have "kmalloc_ap (of_nat n) phys h
      = Some (Inr (of_nat a, if phys then Some (of_nat a) else None, h'))"
    using nz find_hole_refines(2) [OF ok assms(3) xs] h'(1)
    by (simp add: kmalloc_ap_def Let_def flip: h0_def)
  moreover have "hp_start h' = KERNEL_HEAP_START" using h'(2) by (simp add: heap_ok_def)
  ultimately show ?thesis using h' heap_ok_rep
    by (intro that [of h']) (auto simp: h0_def heap_init_def)
qed

subsection \<open>kfree refines coalescing\<close>

lemma mark_free_ok:
  assumes ok: "heap_ok h (us @ (k, f) # vs)"
  shows "heap_ok (h\<lparr>hp_blocks := upd_block (of_nat (hend HEAP_BASE us)) (\<lambda>b. b\<lparr>mb_free := True\<rparr>)
           (hp_blocks h)\<rparr>) (us @ (k, True) # vs)"
proof -
  let ?a = "hend HEAP_BASE us" and ?p = "hlast 0 HEAP_BASE us"
  let ?B = "upd_block (of_nat ?a) (\<lambda>b. b\<lparr>mb_free := True\<rparr>) (hp_blocks h)"
  note bnd = heap_ok_bounds [OF ok, simplified]
  have "hseg ?B 0 HEAP_BASE us" using bnd by (simp add: hseg_upd_block HEAP_TOP_def)
  moreover have "blk_at ?B ?p ?a (k, True)" using bnd(5) by (simp add: blk_at_def upd_block_same)
  moreover have "hseg ?B ?a (?a + 16 + k) vs" using bnd by (simp add: hseg_upd_block HEAP_TOP_def)
  ultimately show ?thesis using ok by (simp add: heap_ok_def hseg_append)
qed

text \<open>
  Both joins end in the same state: the first block takes over the second one's size and
  successor, and the successor points back to it.
\<close>

definition merged :: "nat \<Rightarrow> nat \<Rightarrow> nat \<Rightarrow> ablk list \<Rightarrow> (ptr \<Rightarrow> mem_block) \<Rightarrow> ptr \<Rightarrow> mem_block" where
  "merged a k e vs B = set_prev a e vs
     (upd_block (of_nat a) (\<lambda>b. b\<lparr>mb_size := of_nat k, mb_next := nxt e\<rparr>) B)"

lemma merged_ok:
  assumes ok: "heap_ok h (us @ (j, True) # (k, f) # vs)"
    and a: "a = hend HEAP_BASE us" and e: "e = a + 16 + (j + (k + 16))"
  shows "heap_ok (h\<lparr>hp_blocks := merged a (j + (k + 16)) e vs (hp_blocks h)\<rparr>)
           (us @ (j + (k + 16), True) # vs)"
proof -
  define p where "p = hlast 0 HEAP_BASE us"
  define B where "B = merged a (j + (k + 16)) e vs (hp_blocks h)"
  have e': "a + 16 + j + 16 + k = e" by (simp add: e)
  note bnd = heap_ok_bounds [OF ok, folded a p_def, simplified fst_conv hend.simps hseg.simps e']
  have vs: "hseg (hp_blocks h) (a + 16 + j) e vs" "hend e vs = HEAP_TOP"
    using bnd(3,6) by auto
  have lim: "e \<le> HEAP_TOP" using hend_ge [of e vs] vs(2) by simp
  then have top: "a < 2 ^ 32" "e < 2 ^ 32" "hend e vs \<le> 2 ^ 32" "a < e"
    using vs(2) by (auto simp: HEAP_TOP_def e)
  have ne: "(of_nat a :: u32) \<noteq> of_nat e" using top by (subst of_nat_u32_inject) auto
  have "hseg B 0 HEAP_BASE us"
    using bnd(4) top by (simp add: B_def merged_def hseg_upd_block hseg_set_prev_before flip: a)
  moreover have "blk_at B p a (j + (k + 16), True)"
    using bnd(5) ne
    by (simp add: B_def merged_def blk_at_def set_prev_other upd_block_same e del: of_nat_add)
  moreover have "hseg B a e vs"
  proof -
    have "hseg (upd_block (of_nat a) (\<lambda>b. b\<lparr>mb_size := of_nat (j + (k + 16)), mb_next := nxt e\<rparr>)
        (hp_blocks h)) (a + 16 + j) e vs"
      using vs(1) top by (simp add: hseg_upd_block)
    from hseg_set_prev [OF this top(3)] show ?thesis by (simp only: B_def merged_def)
  qed
  ultimately show ?thesis
    using ok vs(2)
    by (simp add: heap_ok_def hseg_append B_def p_def del: of_nat_add add.assoc flip: a e)
qed

lemma join_prev_merges:
  assumes ok: "heap_ok h (us @ (j, True) # (k, f) # vs)"
    and a: "a = hend HEAP_BASE us" and e: "e = a + 16 + (j + (k + 16))"
  shows "join_prev (of_nat (a + 16 + j)) (hp_blocks h)
           = (of_nat a, merged a (j + (k + 16)) e vs (hp_blocks h))"
proof -
  let ?B = "hp_blocks h" and ?b = "a + 16 + j"
  note at1 = heap_ok_bounds(5) [OF ok, folded a]
  have ok2: "heap_ok h ((us @ [(j, True)]) @ (k, f) # vs)" using ok by simp
  note bnd2 = heap_ok_bounds [OF ok2, simplified, folded a]
  have e': "?b + 16 + k = e" by (simp add: e)
  have vs: "hend e vs = HEAP_TOP" "0 < e" "e \<le> HEAP_TOP" "HEAP_BASE \<le> a"
    using bnd2(2,3) e' heap_ok_bounds(1) [OF ok] by (auto simp: a)
  then have ne: "(of_nat a :: u32) \<noteq> of_nat ?b" "(of_nat a :: u32) \<noteq> of_nat e"
    "(of_nat ?b :: u32) \<noteq> of_nat e" "(of_nat a :: u32) \<noteq> of_nat 0"
    using e by (subst of_nat_u32_inject; simp add: HEAP_TOP_def HEAP_BASE_def)+
  have B: "?B (of_nat ?b) = \<lparr>mb_size = of_nat k, mb_next = nxt e, mb_prev = of_nat a, mb_free = f\<rparr>"
    using bnd2(5) e' by (simp add: blk_at_def hlast_append flip: a)
  have A: "mb_size (?B (of_nat a)) = of_nat j" "mb_free (?B (of_nat a))"
    using at1 by (auto simp: blk_at_def)
  have szs: "(of_nat j :: u32) + (of_nat k + SIZEOF_BLOCK) = of_nat (j + (k + 16))"
    by (simp add: SIZEOF_BLOCK_def)
  show ?thesis
    using ne A szs
    by (simp add: join_prev_def Let_def B upd_block_other upd_block_upd_block
          set_prev_code [OF vs(1,2)] merged_def set_prev_other upd_block_def del: of_nat_add)
qed

lemma join_next_merges:
  assumes ok: "heap_ok h (us @ (j, f) # (k, True) # vs)"
    and a: "a = hend HEAP_BASE us" and e: "e = a + 16 + (j + (k + 16))"
  shows "join_next (of_nat a) (hp_blocks h) = merged a (j + (k + 16)) e vs (hp_blocks h)"
proof -
  let ?B = "hp_blocks h" and ?b = "a + 16 + j"
  note at1 = heap_ok_bounds(5) [OF ok, folded a]
  have ok2: "heap_ok h ((us @ [(j, f)]) @ (k, True) # vs)" using ok by simp
  note bnd2 = heap_ok_bounds [OF ok2, simplified, folded a]
  have e': "?b + 16 + k = e" by (simp add: e)
  have vs: "hend e vs = HEAP_TOP" "0 < e" "e \<le> HEAP_TOP" "HEAP_BASE \<le> a"
    using bnd2(2,3) e' heap_ok_bounds(1) [OF ok] by (auto simp: a)
  then have ne: "(of_nat a :: u32) \<noteq> of_nat ?b" "(of_nat a :: u32) \<noteq> of_nat e"
    "(of_nat ?b :: u32) \<noteq> of_nat e" "(of_nat ?b :: u32) \<noteq> of_nat 0"
    using e by (subst of_nat_u32_inject; simp add: HEAP_TOP_def HEAP_BASE_def)+
  have B: "mb_size (?B (of_nat ?b)) = of_nat k" "mb_next (?B (of_nat ?b)) = nxt e"
      "mb_free (?B (of_nat ?b))"
    using bnd2(5) e' by (auto simp: blk_at_def)
  have "nxt ?b = of_nat ?b" using vs e by (simp add: nxt_def)
  then have A: "mb_size (?B (of_nat a)) = of_nat j" "mb_next (?B (of_nat a)) = of_nat ?b"
    using at1 by (auto simp: blk_at_def)
  have szs: "(of_nat j :: u32) + (of_nat k + SIZEOF_BLOCK) = of_nat (j + (k + 16))"
    by (simp add: SIZEOF_BLOCK_def)
  show ?thesis
    using ne A B szs
    by (simp add: join_next_def Let_def upd_block_other upd_block_upd_block
          set_prev_code [OF vs(1,2)] merged_def set_prev_other upd_block_def del: of_nat_add)
qed

lemma join_prev_stays:
  assumes ok: "heap_ok h (us @ (k, f) # vs)" and "us = [] \<or> \<not> snd (last us)"
    and a: "a = hend HEAP_BASE us"
  shows "join_prev (of_nat a) (hp_blocks h) = (of_nat a, hp_blocks h)"
proof (cases "us = []")
  case True
  then have "mb_prev (hp_blocks h (of_nat a)) = 0"
    using heap_ok_bounds(5) [OF ok] a by (simp add: blk_at_def)
  then show ?thesis by (simp add: join_prev_def)
next
  case False
  define ws where "ws = butlast us"
  obtain j g where lst: "last us = (j, g)" by fastforce
  have us: "us = ws @ [(j, g)]" using False lst by (simp add: ws_def flip: lst)
  have g: "\<not> g" using assms(2) lst False by simp
  have ok2: "heap_ok h (ws @ (j, g) # (k, f) # vs)" using ok us by simp
  have "mb_prev (hp_blocks h (of_nat a)) = of_nat (hend HEAP_BASE ws)"
    using heap_ok_bounds(5) [OF ok] a us by (simp add: blk_at_def hlast_append)
  moreover have "\<not> mb_free (hp_blocks h (of_nat (hend HEAP_BASE ws)))"
    using heap_ok_bounds(5) [OF ok2] g by (simp add: blk_at_def)
  ultimately show ?thesis by (simp add: join_prev_def)
qed

lemma join_next_stays:
  assumes ok: "heap_ok h (us @ (k, f) # vs)" and "vs = [] \<or> \<not> snd (hd vs)"
    and a: "a = hend HEAP_BASE us"
  shows "join_next (of_nat a) (hp_blocks h) = hp_blocks h"
proof (cases vs)
  case Nil
  then have "mb_next (hp_blocks h (of_nat a)) = 0"
    using heap_ok_bounds(3,5) [OF ok] a by (simp add: blk_at_def nxt_def)
  then show ?thesis by (simp add: join_next_def)
next
  case (Cons v ws)
  have ok2: "heap_ok h ((us @ [(k, f)]) @ v # ws)" using ok Cons by simp
  note bnd2 = heap_ok_bounds [OF ok2, simplified, folded a]
  have "mb_next (hp_blocks h (of_nat a)) = of_nat (a + 16 + k)"
    using heap_ok_bounds(5) [OF ok] a bnd2(2) by (simp add: blk_at_def nxt_def)
  moreover have "\<not> mb_free (hp_blocks h (of_nat (a + 16 + k)))"
    using bnd2(5) assms(2) Cons by (simp add: blk_at_def)
  ultimately show ?thesis by (simp add: join_next_def)
qed

lemma join_next_refines:
  assumes ok: "heap_ok h (us @ (k, True) # vs)" and a: "a = hend HEAP_BASE us"
  shows "heap_ok (h\<lparr>hp_blocks := join_next (of_nat a) (hp_blocks h)\<rparr>) (us @ join_blocks k vs)"
proof (cases "vs = [] \<or> \<not> snd (hd vs)")
  case True
  then have "join_blocks k vs = (k, True) # vs"
    by (auto simp: join_blocks_def split: list.splits bool.splits)
  moreover have "h\<lparr>hp_blocks := join_next (of_nat a) (hp_blocks h)\<rparr> = h"
    using join_next_stays [OF ok True a] by simp
  ultimately show ?thesis using ok by simp
next
  case False
  then obtain j ws where vs: "vs = (j, True) # ws" by (cases vs) auto
  have ok2: "heap_ok h (us @ (k, True) # (j, True) # ws)" using ok vs by simp
  show ?thesis
    using merged_ok [OF ok2 a refl] join_next_merges [OF ok2 a refl] vs
    by (simp add: join_blocks_def)
qed

lemma kfree_refines:
  assumes ok: "heap_ok h (us @ (k, f) # vs)" and p: "p = hend HEAP_BASE us + 16"
  shows "heap_ok (kfree (of_nat p) h) (free_l us k vs)"
proof -
  define a where "a = hend HEAP_BASE us"
  define h1 where "h1 = h\<lparr>hp_blocks := upd_block (of_nat a) (\<lambda>b. b\<lparr>mb_free := True\<rparr>) (hp_blocks h)\<rparr>"
  have ok1: "heap_ok h1 (us @ (k, True) # vs)"
    using mark_free_ok [OF ok] by (simp add: h1_def a_def)
  have "p < 2 ^ 32" "0 < p" using heap_ok_bounds(2) [OF ok] p by (auto simp: HEAP_TOP_def)
  then have nz: "(of_nat p :: u32) \<noteq> 0" using of_nat_u32_inject [of p 0] by simp
  have "(of_nat p :: u32) - SIZEOF_BLOCK = of_nat a" by (simp add: p a_def SIZEOF_BLOCK_def)
  then have free: "kfree (of_nat p) h = (case join_prev (of_nat a) (hp_blocks h1) of
      (b, B) \<Rightarrow> h1\<lparr>hp_blocks := join_next b B\<rparr>)"
    using nz by (simp add: kfree_def h1_def Let_def split: prod.splits)
  show ?thesis
  proof (cases "us = [] \<or> \<not> snd (last us)")
    case True
    then have "free_l us k vs = us @ join_blocks k vs"
      by (cases us rule: rev_cases) (auto simp: free_l_def split: bool.splits)
    then show ?thesis
      using join_next_refines [OF ok1 a_def] join_prev_stays [OF ok1 True a_def] by (simp add: free)
  next
    case False
    then obtain ws j where us: "us = ws @ [(j, True)]"
      by (cases us rule: rev_cases) auto
    define b where "b = hend HEAP_BASE ws"
    have ok2: "heap_ok h1 (ws @ (j, True) # (k, True) # vs)" using ok1 us by simp
    have "a = b + 16 + j" by (simp add: a_def b_def us)
    then have "join_prev (of_nat a) (hp_blocks h1)
        = (of_nat b, merged b (j + (k + 16)) (b + 16 + (j + (k + 16))) vs (hp_blocks h1))"
      using join_prev_merges [OF ok2 b_def refl] by simp
    moreover have "free_l us k vs = ws @ join_blocks (j + (k + 16)) vs"
      by (simp add: free_l_def us)
    ultimately show ?thesis
      using join_next_refines [OF merged_ok [OF ok2 b_def refl] b_def] by (simp add: free)
  qed
qed

end
