(* ===== verification/Allocator.thy ===== *)
theory Allocator
  imports Heap
begin

text \<open>
  What the kernel heap promises its clients, over \<open>Heap\<close>: regions in use never overlap and lie
  in the heap, freeing coalesces, an allocation that is freed again leaves the heap as it was,
  and what happens when nothing fits. The contract is the locale \<open>allocator\<close>, interpreted on
  \<open>kmalloc\<close> and \<open>kfree\<close>.
\<close>

subsection \<open>Regions in use\<close>

lemma live_l_append [simp]: "live_l a (xs @ ys) = live_l a xs @ live_l (hend a xs) ys"
  by (induction xs arbitrary: a) auto

lemma live_l_bounds: "(q, k) \<in> set (live_l a xs) \<Longrightarrow> a + 16 \<le> q \<and> q + k \<le> hend a xs"
proof (induction xs arbitrary: a)
  case Nil
  then show ?case by simp
next
  case (Cons x xs)
  show ?case
  proof (cases "(q, k) \<in> set (live_l (a + 16 + fst x) xs)")
    case True
    from Cons.IH [OF this] show ?thesis by simp
  next
    case False
    with Cons.prems have "q = a + 16" "k = fst x" by (auto split: if_splits)
    then show ?thesis using hend_ge [of "a + 16 + fst x" xs] by simp
  qed
qed

text \<open>Regions in use appear in address order, a header apart.\<close>

lemma live_l_sorted: "sorted_wrt (\<lambda>x y. fst x + snd x + 16 \<le> fst y) (live_l a xs)"
proof (induction xs arbitrary: a)
  case Nil
  then show ?case by simp
next
  case (Cons x xs)
  then show ?case using live_l_bounds [of _ _ "a + 16 + fst x" xs] by fastforce
qed

lemma sorted_wrt_apart:
  assumes "sorted_wrt (\<lambda>x y. fst x + snd x + 16 \<le> fst y) L" and "x \<in> set L" and "y \<in> set L" and "x \<noteq> y"
  shows "fst x + snd x + 16 \<le> fst y \<or> fst y + snd y + 16 \<le> fst (x :: nat \<times> nat)"
  using assms by (induction L) auto

lemma live_l_apart:
  assumes "(p, k) \<in> set (live_l a xs)" and "(q, l) \<in> set (live_l a xs)" and "(p, k) \<noteq> (q, l)"
  shows "p + k + 16 \<le> q \<or> q + l + 16 \<le> p"
  using sorted_wrt_apart [OF live_l_sorted assms] by simp

lemma alloc_l_cases:
  assumes "alloc_l n a xs = Some (r, ys)"
  obtains us k vs where "xs = us @ (k, True) # vs" and "no_hole (n + 16) us" and "n + 16 \<le> k"
    and "r = hend a us + 16" and "ys = us @ take_block n k @ vs"
proof (cases rule: hole_cases [of "n + 16" xs])
  case none
  then show ?thesis using assms alloc_l_none by simp
next
  case (hole us j vs)
  then show ?thesis using assms alloc_l_hole [of n us j a vs] that by auto
qed

lemma alloc_l_live:
  assumes "alloc_l n a xs = Some (r, ys)"
  obtains k where "n \<le> k" and "set (live_l a ys) = insert (r, k) (set (live_l a xs))"
    and "(r, k) \<notin> set (live_l a xs)" and "hend a ys = hend a xs"
proof -
  obtain us j vs where s: "xs = us @ (j, True) # vs" "n + 16 \<le> j" "r = hend a us + 16"
    "ys = us @ take_block n j @ vs"
    using assms by (rule alloc_l_cases)
  have "hend (hend a us + 16 + n + 16 + (j - n - 16)) vs = hend (hend a us + 16 + j) vs"
    using s(2) by (intro arg_cong2 [where f = hend]) auto
  moreover have "(r, k) \<notin> set (live_l a xs)" for k
    using live_l_bounds [of r k a us] live_l_bounds [of r k "hend a us + 16 + j" vs] s(1,3) by auto
  ultimately show ?thesis using s that [of "if n + 24 \<le> j then n else j"]
    by (auto simp: take_block_def ac_simps)
qed

subsection \<open>Coalescing\<close>

lemma coalesced_append:
  "coalesced (xs @ ys) \<longleftrightarrow> coalesced xs \<and> coalesced ys
     \<and> (xs = [] \<or> ys = [] \<or> \<not> (snd (last xs) \<and> snd (hd ys)))"
proof (induction xs rule: coalesced.induct)
  case (1 x y xs)
  then show ?case by auto
qed (cases ys; auto)+

lemma coalesced_Cons:
  "coalesced (x # ys) \<longleftrightarrow> coalesced ys \<and> (ys = [] \<or> \<not> (snd x \<and> snd (hd ys)))"
  by (cases ys) auto

lemma alloc_l_coalesced:
  assumes "alloc_l n a xs = Some (r, ys)" and "coalesced xs"
  shows "coalesced ys"
proof -
  obtain us j vs where s: "xs = us @ (j, True) # vs" "ys = us @ take_block n j @ vs"
    using assms(1) by (rule alloc_l_cases)
  with assms(2) show ?thesis
    by (auto simp: coalesced_append coalesced_Cons take_block_def)
qed

lemma join_blocks_coalesced:
  assumes "coalesced vs"
  shows "coalesced (join_blocks k vs)" and "join_blocks k vs \<noteq> []" and "snd (hd (join_blocks k vs))"
  using assms by (auto simp: join_blocks_def coalesced_Cons split: list.splits bool.splits)

lemma free_l_coalesced:
  assumes "coalesced (us @ (k, f) # vs)"
  shows "coalesced (free_l us k vs)"
proof (cases "us = [] \<or> \<not> snd (last us)")
  case True
  then have "free_l us k vs = us @ join_blocks k vs"
    by (cases us rule: rev_cases) (auto simp: free_l_def split: bool.splits)
  with True assms show ?thesis
    by (auto simp: coalesced_append coalesced_Cons join_blocks_coalesced)
next
  case False
  then obtain ws j where us: "us = ws @ [(j, True)]" by (cases us rule: rev_cases) auto
  then have "free_l us k vs = ws @ join_blocks (j + (k + 16)) vs" by (simp add: free_l_def)
  with assms show ?thesis
    by (auto simp: us coalesced_append coalesced_Cons join_blocks_coalesced)
qed

lemma join_blocks_live: "live_l a (join_blocks k vs) = live_l (a + 16 + k) vs"
  by (auto simp: join_blocks_def ac_simps split: list.splits bool.splits)

lemma free_l_live:
  "live_l a (free_l us k vs) = live_l a us @ live_l (hend a us + 16 + k) vs"
proof (cases "us = [] \<or> \<not> snd (last us)")
  case True
  then have "free_l us k vs = us @ join_blocks k vs"
    by (cases us rule: rev_cases) (auto simp: free_l_def split: bool.splits)
  then show ?thesis by (simp add: join_blocks_live)
next
  case False
  then obtain ws j where us: "us = ws @ [(j, True)]" by (cases us rule: rev_cases) auto
  then have "free_l us k vs = ws @ join_blocks (j + (k + 16)) vs" by (simp add: free_l_def)
  then show ?thesis by (simp add: us join_blocks_live ac_simps)
qed

text \<open>Where a region in use sits in the block list.\<close>

lemma live_l_split:
  assumes "(p, k) \<in> set (live_l a xs)"
  obtains us vs where "xs = us @ (k, False) # vs" and "p = hend a us + 16"
proof -
  have "\<exists>us vs. xs = us @ (k, False) # vs \<and> p = hend a us + 16"
    using assms
  proof (induction xs arbitrary: a)
    case Nil
    then show ?case by simp
  next
    case (Cons x xs)
    show ?case
    proof (cases "(p, k) \<in> set (live_l (a + 16 + fst x) xs)")
      case True
      from Cons.IH [OF this] obtain us vs where "xs = us @ (k, False) # vs"
        "p = hend (a + 16 + fst x) us + 16" by blast
      then show ?thesis by (intro exI [of _ "x # us"] exI [of _ vs]) simp
    next
      case False
      with Cons.prems have "p = a + 16" "x = (k, False)" by (auto simp: prod_eq_iff split: if_splits)
      then show ?thesis by (intro exI [of _ "[]"] exI [of _ xs]) simp
    qed
  qed
  then show ?thesis using that by blast
qed

text \<open>Freeing what was just allocated gives the list back, when it was coalesced.\<close>

lemma free_l_alloc_l:
  assumes "coalesced (us @ (j, True) # vs)" and "n + 16 \<le> j"
  shows "\<exists>k ws. take_block n j @ vs = (k, False) # ws \<and> free_l us k ws = us @ (j, True) # vs"
proof -
  have us: "us = [] \<or> \<not> snd (last us)" and vs: "vs = [] \<or> \<not> snd (hd vs)"
    using assms(1) by (auto simp: coalesced_append coalesced_Cons)
  have "free_l us k ws = us @ join_blocks k ws" for k ws
    using us by (cases us rule: rev_cases) (auto simp: free_l_def split: bool.splits)
  moreover have "join_blocks k vs = (k, True) # vs" for k
    using vs by (auto simp: join_blocks_def split: list.splits bool.splits)
  moreover have "join_blocks n ((j - n - 16, True) # vs) = (j, True) # vs"
    using assms(2) by (simp add: join_blocks_def)
  ultimately show ?thesis by (simp add: take_block_def)
qed

subsection \<open>The pointer code\<close>

text \<open>A request the search serves from a hole; the other requests go to the placement path.\<close>

definition has_room :: "nat \<Rightarrow> heap \<Rightarrow> bool" where
  "has_room n h \<longleftrightarrow> 0 < n \<and> n + 16 < 2 ^ 32 \<and>
     (\<exists>hole. mm_find_smallest_hole (of_nat n + SIZEOF_BLOCK) 0
        (if hp_start h = 0 then heap_init h else h) = Some (Some hole))"

lemma has_room_iff:
  assumes "heap_rep h xs" and "0 < n" and "n + 16 < 2 ^ 32"
  shows "has_room n h \<longleftrightarrow> \<not> no_hole (n + 16) xs"
proof -
  note ok = heap_rep_init [OF assms(1)]
  show ?thesis
  proof (cases rule: hole_cases [of "n + 16" xs])
    case none
    then show ?thesis using find_hole_refines(1) [OF ok assms(3)] by (simp add: has_room_def)
  next
    case (hole us j vs)
    then have "\<not> no_hole (n + 16) xs" by simp
    then show ?thesis
      using find_hole_refines(2) [OF ok assms(3) hole] assms(2,3) by (simp add: has_room_def)
  qed
qed

lemma has_room_alloc_l:
  assumes "heap_rep h xs" and "has_room n h"
  obtains a ys where "alloc_l n HEAP_BASE xs = Some (a, ys)"
proof -
  have n: "0 < n" "n + 16 < 2 ^ 32" using assms(2) by (auto simp: has_room_def)
  from assms n have "\<not> no_hole (n + 16) xs" by (simp add: has_room_iff)
  then obtain us j vs where "xs = us @ (j, True) # vs" "no_hole (n + 16) us" "n + 16 \<le> j"
    by (cases rule: hole_cases [of "n + 16" xs]) auto
  then show ?thesis using alloc_l_hole that by blast
qed

lemma kmalloc_room:
  assumes rep: "heap_rep h xs" and co: "coalesced xs" and room: "has_room n h"
  obtains p h' ys k where "kmalloc (of_nat n) h = Some (Inr (of_nat p, h'))"
    and "alloc_l n HEAP_BASE xs = Some (p, ys)" and "heap_rep h' ys" and "coalesced ys"
    and "n \<le> k" and "set (live_l HEAP_BASE ys) = insert (p, k) (set (live_l HEAP_BASE xs))"
    and "(p, k) \<notin> set (live_l HEAP_BASE xs)" and "p < 2 ^ 32"
    and "hp_start h' = KERNEL_HEAP_START" and "hp_placement h' = hp_placement h"
    and "hp_end h' = (if hp_start h = 0 then KERNEL_HEAP_START else hp_end h)"
proof -
  have n: "0 < n" "n + 16 < 2 ^ 32" using room by (auto simp: has_room_def)
  obtain p ys where al: "alloc_l n HEAP_BASE xs = Some (p, ys)"
    using has_room_alloc_l [OF rep room] .
  obtain h' where h': "kmalloc_ap (of_nat n) False h = Some (Inr (of_nat p, None, h'))"
    "heap_rep h' ys" "hp_start h' = KERNEL_HEAP_START" "hp_placement h' = hp_placement h"
    "hp_end h' = (if hp_start h = 0 then KERNEL_HEAP_START else hp_end h)"
    using kmalloc_ap_refines [OF rep n al, of False] by (metis (full_types))
  obtain k where k: "n \<le> k" "set (live_l HEAP_BASE ys) = insert (p, k) (set (live_l HEAP_BASE xs))"
    "(p, k) \<notin> set (live_l HEAP_BASE xs)" "hend HEAP_BASE ys = hend HEAP_BASE xs"
    using al by (rule alloc_l_live)
  have "heap_ok h' ys" using h'(2,3) by (simp add: heap_rep_def heap_consts)
  then have "p < 2 ^ 32"
    using live_l_bounds [of p k HEAP_BASE ys] k(2) by (auto simp: heap_ok_def HEAP_TOP_def)
  then show ?thesis
    using that h' al k alloc_l_coalesced [OF al co]
    by (simp add: kmalloc_def kmalloc_p_def drop_phys_def)
qed

lemma kfree_live:
  assumes rep: "heap_rep h xs" and co: "coalesced xs" and live: "(p, k) \<in> set (live_l HEAP_BASE xs)"
  obtains ys where "heap_rep (kfree (of_nat p) h) ys" and "coalesced ys"
    and "set (live_l HEAP_BASE ys) = set (live_l HEAP_BASE xs) - {(p, k)}"
    and "hp_start h = KERNEL_HEAP_START"
proof -
  have "hp_start h \<noteq> 0" using rep live by (auto simp: heap_rep_def fresh_blocks_def)
  then have ok: "heap_ok h xs" using rep by (simp add: heap_rep_def)
  obtain us vs where xs: "xs = us @ (k, False) # vs" "p = hend HEAP_BASE us + 16"
    using live by (rule live_l_split)
  have "heap_ok (kfree (of_nat p) h) (free_l us k vs)"
    using kfree_refines ok xs by blast
  moreover have "set (live_l HEAP_BASE (free_l us k vs)) = set (live_l HEAP_BASE xs) - {(p, k)}"
    using xs live_l_bounds [of p k HEAP_BASE us] live_l_bounds [of p k "p + k" vs]
    by (auto simp: free_l_live)
  moreover have "coalesced (free_l us k vs)" using co xs(1) free_l_coalesced by simp
  ultimately show ?thesis using ok heap_ok_rep that by (auto simp: heap_ok_def)
qed

lemma kfree_frame: "hp_placement (kfree p h) = hp_placement h" "hp_end (kfree p h) = hp_end h"
  "hp_start (kfree p h) = hp_start h"
  by (auto simp: kfree_def Let_def split: prod.splits)

subsection \<open>The contract\<close>

text \<open>
  A client sees a state with a set of regions \<open>(address, size)\<close> it holds. Allocating (where
  the state has room) adds a region apart from all others; giving a region back keeps the rest.
\<close>

locale allocator =
  fixes room :: "nat \<Rightarrow> 's \<Rightarrow> bool"
    and alloc :: "nat \<Rightarrow> 's \<Rightarrow> nat \<times> 's"
    and dealloc :: "nat \<Rightarrow> 's \<Rightarrow> 's"
    and holds :: "'s \<Rightarrow> (nat \<times> nat) set \<Rightarrow> bool"
  assumes alloc_holds: "holds s L \<Longrightarrow> room n s \<Longrightarrow>
      holds (snd (alloc n s)) (insert (fst (alloc n s), n) L)"
    and alloc_apart: "holds s L \<Longrightarrow> room n s \<Longrightarrow> (q, m) \<in> L \<Longrightarrow>
      fst (alloc n s) + n < q \<or> q + m < fst (alloc n s)"
    and alloc_nonnull: "holds s L \<Longrightarrow> room n s \<Longrightarrow> 0 < fst (alloc n s)"
    and dealloc_holds: "holds s L \<Longrightarrow> (p, n) \<in> L \<Longrightarrow> holds (dealloc p s) (L - {(p, n)})"
begin

lemma two_allocs_apart:
  assumes "holds s L" and "room n s" and "room m (snd (alloc n s))"
  defines "p \<equiv> fst (alloc n s)" and "q \<equiv> fst (alloc m (snd (alloc n s)))"
  shows "p + n < q \<or> q + m < p"
  using alloc_apart [OF alloc_holds [OF assms(1,2)] assms(3), of p n] by (auto simp: p_def q_def)

lemma alloc_fresh: "holds s L \<Longrightarrow> room n s \<Longrightarrow> fst (alloc n s) \<notin> fst ` L"
  using alloc_apart by fastforce

lemma realloc_keeps:
  assumes "holds s L" and "room n s" and "(q, m) \<in> L"
  shows "holds (dealloc q (snd (alloc n s))) (insert (fst (alloc n s), n) (L - {(q, m)}))"
proof -
  have "fst (alloc n s) \<noteq> q" using alloc_fresh [OF assms(1,2)] assms(3) by force
  then have "insert (fst (alloc n s), n) L - {(q, m)} = insert (fst (alloc n s), n) (L - {(q, m)})"
    by auto
  with dealloc_holds [OF alloc_holds [OF assms(1,2)], of q m] assms(3) show ?thesis by simp
qed

end

text \<open>\<open>kmalloc\<close> and \<open>kfree\<close> keep the contract on every coalesced heap.\<close>

definition kalloc :: "nat \<Rightarrow> heap \<Rightarrow> nat \<times> heap" where
  "kalloc n h = (case kmalloc (of_nat n) h of Some (Inr (p, h')) \<Rightarrow> (unat p, h') | _ \<Rightarrow> (0, h))"

definition heap_holds :: "heap \<Rightarrow> (nat \<times> nat) set \<Rightarrow> bool" where
  "heap_holds h L \<longleftrightarrow> inj_on fst L \<and> (\<exists>xs. heap_rep h xs \<and> coalesced xs
     \<and> (\<forall>(q, m) \<in> L. \<exists>k \<ge> m. (q, k) \<in> set (live_l HEAP_BASE xs)))"

lemma kalloc_room:
  assumes "heap_rep h xs" and "coalesced xs" and "has_room n h"
  obtains k ys where "heap_rep (snd (kalloc n h)) ys" and "coalesced ys" and "n \<le> k"
    and "set (live_l HEAP_BASE ys) = insert (fst (kalloc n h), k) (set (live_l HEAP_BASE xs))"
    and "(fst (kalloc n h), k) \<notin> set (live_l HEAP_BASE xs)"
  using assms
  by (rule kmalloc_room) (auto simp: kalloc_def unat_of_nat_u32 intro: that)

interpretation kheap: allocator has_room kalloc "\<lambda>p. kfree (of_nat p)" heap_holds
proof
  fix h L n
  assume holds: "heap_holds h L" and room: "has_room n h"
  let ?p = "fst (kalloc n h)"
  obtain xs where xs: "heap_rep h xs" "coalesced xs"
    "\<forall>(q, m) \<in> L. \<exists>k \<ge> m. (q, k) \<in> set (live_l HEAP_BASE xs)"
    and inj: "inj_on fst L"
    using holds by (auto simp: heap_holds_def)
  obtain k ys where ys: "heap_rep (snd (kalloc n h)) ys" "coalesced ys" "n \<le> k"
    "set (live_l HEAP_BASE ys) = insert (?p, k) (set (live_l HEAP_BASE xs))"
    "(?p, k) \<notin> set (live_l HEAP_BASE xs)"
    using kalloc_room [OF xs(1,2) room] .
  have apart: "?p + n + 16 \<le> q \<or> q + m + 16 \<le> ?p" if qm: "(q, m) \<in> L" for q m
  proof -
    obtain l where l: "m \<le> l" "(q, l) \<in> set (live_l HEAP_BASE xs)" using xs(3) qm by blast
    then have "(q, l) \<noteq> (?p, k)" using ys(5) by auto
    then show ?thesis
      using live_l_apart [of ?p k HEAP_BASE ys q l] ys(3,4) l by auto
  qed
  then show "?p + n < q \<or> q + m < ?p" if "(q, m) \<in> L" for q m using that by fastforce
  have "?p \<notin> fst ` L" using apart by fastforce
  then have "fst (?p, n) \<notin> fst ` (L - {(?p, n)})" by auto
  then have "inj_on fst (insert (?p, n) L)" using inj by (simp add: inj_on_insert)
  moreover have "\<forall>(q, m) \<in> insert (?p, n) L. \<exists>k \<ge> m. (q, k) \<in> set (live_l HEAP_BASE ys)"
    using ys(3,4) xs(3) by fastforce
  ultimately show "heap_holds (snd (kalloc n h)) (insert (?p, n) L)"
    using ys(1,2) by (auto simp: heap_holds_def)
  show "0 < ?p" using live_l_bounds [of ?p k HEAP_BASE ys] ys(4) by auto
next
  fix h L p n
  assume holds: "heap_holds h L" and pn: "(p, n) \<in> L"
  obtain xs where xs: "heap_rep h xs" "coalesced xs"
    "\<forall>(q, m) \<in> L. \<exists>k \<ge> m. (q, k) \<in> set (live_l HEAP_BASE xs)"
    and inj: "inj_on fst L"
    using holds by (auto simp: heap_holds_def)
  then obtain k where k: "(p, k) \<in> set (live_l HEAP_BASE xs)" using pn by blast
  obtain ys where ys: "heap_rep (kfree (of_nat p) h) ys" "coalesced ys"
    "set (live_l HEAP_BASE ys) = set (live_l HEAP_BASE xs) - {(p, k)}"
    using kfree_live [OF xs(1,2) k] by metis
  have "\<exists>k' \<ge> m. (q, k') \<in> set (live_l HEAP_BASE ys)" if "(q, m) \<in> L - {(p, n)}" for q m
  proof -
    have "q \<noteq> p" using that pn inj_onD [OF inj, of "(q, m)" "(p, n)"] by auto
    then show ?thesis using that xs(3) ys(3) by fastforce
  qed
  moreover have "inj_on fst (L - {(p, n)})" using inj by (rule inj_on_subset) auto
  ultimately show "heap_holds (kfree (of_nat p) h) (L - {(p, n)})"
    using ys(1,2) by (auto simp: heap_holds_def)
qed

subsection \<open>Reachable heaps\<close>

text \<open>
  The heaps the kernel can reach with \<open>kmalloc\<close> (where a hole is found) and \<open>kfree\<close> of a
  region it holds, with the regions it holds.
\<close>

inductive heap_reach :: "heap \<Rightarrow> (nat \<times> nat) set \<Rightarrow> bool" where
  boot: "heap_reach (heap_boot B) {}"
| alloc: "heap_reach h L \<Longrightarrow> has_room n h \<Longrightarrow> kmalloc (of_nat n) h = Some (Inr (p, h')) \<Longrightarrow>
    heap_reach h' (insert (unat p, n) L)"
| free: "heap_reach h L \<Longrightarrow> (p, n) \<in> L \<Longrightarrow> heap_reach (kfree (of_nat p) h) (L - {(p, n)})"

inductive_cases heap_reach_boot: "heap_reach (heap_boot B) L"

text \<open>The static placement pointer and \<open>heap_end\<close> keep their first values.\<close>

definition ends_at_start :: "heap \<Rightarrow> bool" where
  "ends_at_start h \<longleftrightarrow> hp_placement h = KERNEL_HEAP_START
     \<and> (hp_start h = 0 \<or> hp_start h = KERNEL_HEAP_START \<and> hp_end h = KERNEL_HEAP_START)"

lemma heap_holds_boot: "heap_holds (heap_boot B) {}"
  by (auto simp: heap_holds_def heap_boot_def heap_rep_def fresh_blocks_def)

lemma heap_reach_holds: "heap_reach h L \<Longrightarrow> heap_holds h L \<and> ends_at_start h"
proof (induction rule: heap_reach.induct)
  case (boot B)
  then show ?case by (simp add: heap_holds_boot) (simp add: ends_at_start_def heap_boot_def)
next
  case (alloc h L n p h')
  then obtain xs where xs: "heap_rep h xs" "coalesced xs" by (auto simp: heap_holds_def)
  have k: "kalloc n h = (unat p, h')" using alloc.hyps(3) by (simp add: kalloc_def)
  have "heap_holds h' (insert (unat p, n) L)"
    using kheap.alloc_holds [of h L n] alloc k by simp
  moreover obtain p2 h2 where "kmalloc (of_nat n) h = Some (Inr (p2, h2))"
    "hp_start h2 = KERNEL_HEAP_START" "hp_placement h2 = hp_placement h"
    "hp_end h2 = (if hp_start h = 0 then KERNEL_HEAP_START else hp_end h)"
    using kmalloc_room [OF xs alloc.hyps(2)] by metis
  then have "ends_at_start h'"
    using alloc.hyps(3) alloc.IH by (auto simp: ends_at_start_def)
  ultimately show ?case by simp
next
  case (free h L p n)
  then show ?case
    using kheap.dealloc_holds [of h L p n] by (auto simp: ends_at_start_def kfree_frame)
qed

lemma heap_reach_kalloc:
  assumes "heap_reach h L" and "has_room n h"
  shows "heap_reach (snd (kalloc n h)) (insert (fst (kalloc n h), n) L)"
proof -
  obtain xs where xs: "heap_rep h xs" "coalesced xs"
    using heap_reach_holds [OF assms(1)] by (auto simp: heap_holds_def)
  obtain p h' where p: "kmalloc (of_nat n) h = Some (Inr (of_nat p, h'))" "p < 2 ^ 32"
    using kmalloc_room [OF xs assms(2)] by metis
  from heap_reach.alloc [OF assms p(1)] p show ?thesis by (simp add: kalloc_def)
qed

text \<open>A heap for the examples: memory is zero at boot.\<close>

definition heap0 :: heap where
  "heap0 = heap_boot (\<lambda>_. \<lparr>mb_size = 0, mb_next = 0, mb_prev = 0, mb_free = False\<rparr>)"

lemma heap0_rep: "heap_rep heap0 fresh_blocks" "coalesced fresh_blocks" "heap_reach heap0 {}"
  unfolding heap0_def by (rule heap_reach.boot | simp add: heap_boot_def heap_rep_def fresh_blocks_def)+

lemma heap_rep_used: "heap_rep h (us @ (k, False) # vs) \<Longrightarrow> heap_ok h (us @ (k, False) # vs)"
proof -
  assume rep: "heap_rep h (us @ (k, False) # vs)"
  have "us @ (k, False) # vs \<noteq> fresh_blocks"
  proof
    assume "us @ (k, False) # vs = fresh_blocks"
    then have "(k, False) \<in> set fresh_blocks" by (metis in_set_conv_decomp)
    then show False by (simp add: fresh_blocks_def)
  qed
  with rep show ?thesis by (auto simp: heap_rep_def split: if_splits)
qed

lemma kalloc_rep:
  assumes "heap_rep h xs" and "coalesced xs" and "has_room n h"
    and "alloc_l n HEAP_BASE xs = Some (a, ys)"
  shows "fst (kalloc n h) = a" and "heap_rep (snd (kalloc n h)) ys"
proof -
  obtain p h' zs where "kmalloc (of_nat n) h = Some (Inr (of_nat p, h'))" "p < 2 ^ 32"
    "alloc_l n HEAP_BASE xs = Some (p, zs)" "heap_rep h' zs"
    using kmalloc_room [OF assms(1-3)] by metis
  then show "fst (kalloc n h) = a" and "heap_rep (snd (kalloc n h)) ys"
    using assms(4) by (auto simp: kalloc_def unat_of_nat_u32)
qed

lemma boot_room: "0 < n \<Longrightarrow> n + 32 \<le> 16 * 1024 * 1024 \<Longrightarrow> has_room n (heap_boot B)"
  by (subst has_room_iff [of _ fresh_blocks])
    (auto simp: heap_boot_def heap_rep_def fresh_blocks_def)

subsection \<open>Bump allocation\<close>

text \<open>
  As long as nothing is freed, the blocks in use fill the heap from its start: \<open>heap_tail a h\<close>
  says that the rest, from the header at \<open>a\<close> on, is one free block. Every allocation then takes
  the next addresses.
\<close>

definition heap_tail :: "nat \<Rightarrow> heap \<Rightarrow> bool" where
  "heap_tail a h \<longleftrightarrow> (\<exists>us. heap_rep h (us @ [(HEAP_TOP - a - 16, True)]) \<and> (\<forall>x \<in> set us. \<not> snd x)
     \<and> hend HEAP_BASE us = a)"

lemma heap_tail_boot: "heap_tail HEAP_BASE (heap_boot B)"
  unfolding heap_tail_def
  by (intro exI [of _ "[]"]) (simp add: heap_rep_def heap_boot_def fresh_blocks_def HEAP_BASE_def HEAP_TOP_def)

lemma heap_tail_base: "heap_tail a h \<Longrightarrow> HEAP_BASE \<le> a"
  using hend_ge by (auto simp: heap_tail_def)

lemma alloc_l_tail:
  "\<forall>x \<in> set us. \<not> snd x \<Longrightarrow> n + 24 \<le> r \<Longrightarrow>
    alloc_l n a (us @ [(r, True)]) = Some (hend a us + 16, us @ [(n, False), (r - n - 16, True)])"
  by (induction us arbitrary: a) (auto simp: take_block_def)

lemma kmalloc_bump:
  assumes tail: "heap_tail a h" and n: "0 < n" and fits: "a + n + 40 \<le> HEAP_TOP"
  obtains h' where "kmalloc_ap (of_nat n) phys h
      = Some (Inr (of_nat (a + 16), if phys then Some (of_nat (a + 16)) else None, h'))"
    and "heap_tail (a + 16 + n) h'" and "(of_nat (a + 16) :: ptr) \<noteq> 0"
proof -
  let ?r = "HEAP_TOP - a - 16"
  obtain us where rep: "heap_rep h (us @ [(?r, True)])" and us: "\<forall>x \<in> set us. \<not> snd x"
    and a: "hend HEAP_BASE us = a"
    using tail by (auto simp: heap_tail_def)
  let ?ys = "us @ [(n, False), (?r - n - 16, True)]"
  have al: "alloc_l n HEAP_BASE (us @ [(?r, True)]) = Some (a + 16, ?ys)"
    unfolding a [symmetric] using us fits a by (intro alloc_l_tail) auto
  have n32: "n + 16 < 2 ^ 32" using fits by (simp add: HEAP_TOP_def)
  obtain h' where h': "kmalloc_ap (of_nat n) phys h
      = Some (Inr (of_nat (a + 16), if phys then Some (of_nat (a + 16)) else None, h'))" "heap_rep h' ?ys"
    by (rule kmalloc_ap_refines [OF rep n n32 al, of phys]) auto
  have "(of_nat (a + 16) :: ptr) \<noteq> of_nat 0"
    using fits by (subst of_nat_u32_inject) (auto simp: HEAP_TOP_def)
  moreover have "heap_tail (a + 16 + n) h'"
    unfolding heap_tail_def using us a h'(2) fits
    by (intro exI [of _ "us @ [(n, False)]"]) (simp add: diff_diff_left algebra_simps)
  ultimately show ?thesis using that h'(1) by simp
qed

subsection \<open>Properties\<close>

text \<open>C2. \<open>kmalloc_ap\<close> is first fit on the block list: where a block fits, it returns the payload
  address of the first free block of at least \<open>n + 16\<close> bytes (also through \<open>phys\<close>) and leaves
  the heap that the list allocator \<open>alloc_l\<close> describes.\<close>

theorem kmalloc_first_fit:
  assumes "heap_rep h xs" and "0 < n" and "n + 16 < 2 ^ 32"
    and "alloc_l n HEAP_BASE xs = Some (a, ys)"
  shows "\<exists>h'. kmalloc_ap (of_nat n) phys h
      = Some (Inr (of_nat a, if phys then Some (of_nat a) else None, h')) \<and> heap_rep h' ys"
  using kmalloc_ap_refines [OF assms] by metis

theorem kmalloc_first_fit_witness:
  "\<exists>h'. kmalloc_ap (of_nat 100) True heap0
      = Some (Inr (of_nat (HEAP_BASE + 16), Some (of_nat (HEAP_BASE + 16)), h'))
    \<and> heap_rep h' [(100, False), (16777084, True)]"
  using kmalloc_first_fit [OF heap0_rep(1), of 100 "HEAP_BASE + 16" "[(100, False), (16777084, True)]" True]
  by (simp add: fresh_blocks_def take_block_def)

text \<open>C8. \<open>kfree\<close> of the payload address of a block in use marks it free, joins it with a free
  predecessor and a free successor, and leaves the heap that \<open>free_l\<close> describes.\<close>

theorem kfree_coalesces:
  assumes "heap_rep h (us @ (k, False) # vs)"
  shows "heap_rep (kfree (of_nat (hend HEAP_BASE us + 16)) h) (free_l us k vs)"
proof -
  from heap_rep_used [OF assms] show ?thesis using kfree_refines heap_ok_rep by blast
qed

theorem kfree_coalesces_witness:
  "\<exists>h'. heap_rep (kfree (of_nat (HEAP_BASE + 16)) h') fresh_blocks"
proof -
  obtain h' where "heap_rep h' ([] @ (100, False) # [(16777084, True)])"
    using kmalloc_ap_refines [OF heap0_rep(1), of 100 "HEAP_BASE + 16" "[(100, False), (16777084, True)]"]
    by (auto simp: fresh_blocks_def take_block_def)
  from kfree_coalesces [OF this] show ?thesis
    by (auto simp: free_l_def join_blocks_def fresh_blocks_def)
qed

text \<open>C1. In every heap reached from boot by allocations that find a hole and frees of held
  regions, the held regions lie in the heap and no two of them overlap: between two regions
  there is at least one byte.\<close>

theorem heap_regions_disjoint:
  assumes "heap_reach h L" and "(p, n) \<in> L" and "(q, m) \<in> L" and "(p, n) \<noteq> (q, m)"
  shows "(p + n < q \<or> q + m < p) \<and> HEAP_BASE + 16 \<le> p \<and> p + n \<le> HEAP_TOP"
proof -
  obtain xs where inj: "inj_on fst L" and rep: "heap_rep h xs"
    and live: "\<forall>(q, m) \<in> L. \<exists>k \<ge> m. (q, k) \<in> set (live_l HEAP_BASE xs)"
    using heap_reach_holds [OF assms(1)] by (auto simp: heap_holds_def)
  obtain k l where k: "n \<le> k" "(p, k) \<in> set (live_l HEAP_BASE xs)"
    and l: "m \<le> l" "(q, l) \<in> set (live_l HEAP_BASE xs)"
    using live assms(2,3) by blast
  have "p \<noteq> q" using inj_onD [OF inj, of "(p, n)" "(q, m)"] assms(2-4) by auto
  then have "p + k + 16 \<le> q \<or> q + l + 16 \<le> p" using live_l_apart k(2) l(2) by blast
  moreover have "hend HEAP_BASE xs = HEAP_TOP"
    using rep by (auto simp: heap_rep_def heap_ok_def fresh_blocks_def heap_consts split: if_splits)
  ultimately show ?thesis using k l live_l_bounds [OF k(2)] by auto
qed

theorem heap_regions_disjoint_witness:
  "\<exists>h p q. heap_reach h {(q, 200), (p, 100)} \<and> (p + 100 < q \<or> q + 200 < p)"
proof -
  let ?h = "snd (kalloc 100 heap0)" and ?p = "fst (kalloc 100 heap0)"
  let ?q = "fst (kalloc 200 ?h)"
  have r1: "has_room 100 heap0" by (simp add: heap0_def boot_room)
  have "heap_rep ?h [(100, False), (16777084, True)]"
    by (rule kalloc_rep [OF heap0_rep(1,2) r1]) (simp add: fresh_blocks_def take_block_def)
  then have r2: "has_room 200 ?h" by (subst has_room_iff) auto
  have reach: "heap_reach (snd (kalloc 200 ?h)) {(?q, 200), (?p, 100)}"
    by (rule heap_reach_kalloc [OF heap_reach_kalloc [OF heap0_rep(3) r1] r2])
  have "(?p + 100 < ?q \<or> ?q + 200 < ?p) \<and> HEAP_BASE + 16 \<le> ?p \<and> ?p + 100 \<le> HEAP_TOP"
    by (rule heap_regions_disjoint [OF reach]) simp_all
  with reach show ?thesis by blast
qed

text \<open>C12. Round trip: freeing the block that \<open>kmalloc\<close> just returned restores the block list,
  provided the heap had no two neighbouring free blocks (which every reachable heap satisfies).\<close>

theorem kmalloc_kfree_roundtrip:
  assumes "heap_rep h xs" and "coalesced xs" and "has_room n h"
    and "kmalloc (of_nat n) h = Some (Inr (p, h'))"
  shows "heap_rep (kfree p h') xs"
proof -
  obtain a ys h2 where al: "alloc_l n HEAP_BASE xs = Some (a, ys)" and rep: "heap_rep h2 ys"
    and "kmalloc (of_nat n) h = Some (Inr (of_nat a, h2))"
    using kmalloc_room [OF assms(1-3)] by metis
  then have p: "p = of_nat a" "h' = h2" using assms(4) by auto
  obtain us j vs where s: "xs = us @ (j, True) # vs" "n + 16 \<le> j" "a = hend HEAP_BASE us + 16"
    "ys = us @ take_block n j @ vs"
    using al by (rule alloc_l_cases)
  obtain k ws where w: "take_block n j @ vs = (k, False) # ws" "free_l us k ws = xs"
    using free_l_alloc_l [of us j vs n] assms(2) s(1,2) by auto
  have "heap_ok h2 (us @ (k, False) # ws)"
    using rep s(4) w(1) heap_rep_used by simp
  then show ?thesis using kfree_refines [of h2 us k False ws a] s(3) w(2) p heap_ok_rep by simp
qed

theorem kmalloc_kfree_roundtrip_witness:
  "\<exists>p h'. kmalloc (of_nat 4096) heap0 = Some (Inr (p, h')) \<and> heap_rep (kfree p h') fresh_blocks"
proof -
  have room: "has_room 4096 heap0" by (simp add: heap0_def boot_room)
  obtain p h' where "kmalloc (of_nat 4096) heap0 = Some (Inr (p, h'))"
    using kmalloc_room [OF heap0_rep(1,2) room] by metis
  with kmalloc_kfree_roundtrip [OF heap0_rep(1,2) room this] show ?thesis by blast
qed

text \<open>A block in use whose \<open>next\<close> pointer is itself traps the search.\<close>

lemma find_hole_self_loop:
  assumes "c \<noteq> 0" and "\<not> mb_free (B c)" and "mb_next (B c) = c"
  shows "find_hole_loop B c s = None"
proof (cases "find_hole_loop B c s")
  case (Some r)
  have "\<not> (c \<noteq> 0 \<and> \<not> mb_free (B c) \<and> mb_next (B c) = c)"
  proof (rule find_hole_loop.raw_induct [where P = "\<lambda>B c s r.
      \<not> (c \<noteq> 0 \<and> \<not> mb_free (B c) \<and> mb_next (B c) = c)", OF _ Some])
    fix f B c s r
    assume IH: "\<And>B c s r. f B c s = Some r \<Longrightarrow> \<not> (c \<noteq> 0 \<and> \<not> mb_free (B c) \<and> mb_next (B c) = c)"
      and eq: "(if c = 0 then Some None
        else if mb_free (B c) \<and> s \<le> mb_size (B c) then Some (Some c)
        else f B (mb_next (B c)) s) = Some r"
    show "\<not> (c \<noteq> 0 \<and> \<not> mb_free (B c) \<and> mb_next (B c) = c)"
    proof
      assume loop: "c \<noteq> 0 \<and> \<not> mb_free (B c) \<and> mb_next (B c) = c"
      then have "f B c s = Some r" using eq by simp
      from IH [OF this] loop show False by blast
    qed
  qed
  with assms show ?thesis by blast
qed simp

text \<open>C15. Exhaustion: when no hole fits a request of at most 16 MB less the 16 bytes of its header (above,
  the code panics) on a heap that has been in use, the placement
  path hands out \<open>0xD0000010\<close>, the payload of the block at the start of the heap, whether that
  block is in use or not, and every later \<open>kmalloc\<close> of a non-zero size never returns: the block
  list has become a cycle.\<close>

theorem kmalloc_exhausted_aliases:
  assumes "heap_reach h L" and "hp_start h \<noteq> 0" and "0 < n" and "n + 16 \<le> 16 * 1024 * 1024"
    and "\<not> has_room n h"
  shows "\<exists>h'. kmalloc (of_nat n) h = Some (Inr (0xD0000010, h'))
      \<and> (\<forall>m. m \<noteq> 0 \<longrightarrow> kmalloc m h' = None)"
proof -
  obtain xs where rep: "heap_rep h xs" and ends: "ends_at_start h"
    using heap_reach_holds [OF assms(1)] by (auto simp: heap_holds_def)
  have hp: "hp_start h = KERNEL_HEAP_START" "hp_end h = KERNEL_HEAP_START"
    "hp_placement h = KERNEL_HEAP_START"
    using ends assms(2) by (auto simp: ends_at_start_def)
  have n32: "n + 16 < 2 ^ 32" using assms(4) by simp
  have "no_hole (n + 16) xs" using assms(5) has_room_iff [OF rep assms(3) n32] by simp
  then have none: "mm_find_smallest_hole (of_nat n + SIZEOF_BLOCK) 0 h = Some None"
    using find_hole_refines(1) [of h xs n] rep assms(2) n32 by (simp add: heap_rep_def)
  have "unat (KERNEL_HEAP_START + (of_nat n + SIZEOF_BLOCK)) = 0xD0000000 + (n + 16)"
    using assms(4) unat_plus_of_nat [of KERNEL_HEAP_START "n + 16"] by (simp add: heap_consts)
  then have fits: "\<not> KERNEL_HEAP_START + (of_nat n + SIZEOF_BLOCK) > KERNEL_HEAP_START + KERNEL_HEAP_SIZE"
    using assms(4) by (simp add: word_less_nat_alt heap_consts)
  let ?S = "KERNEL_HEAP_START"
  let ?B = "upd_block ?S (\<lambda>b. b\<lparr>mb_next := ?S\<rparr>) ((hp_blocks h)(?S :=
    \<lparr>mb_size = of_nat n, mb_next = 0, mb_prev = ?S, mb_free = False\<rparr>))"
  let ?h = "h\<lparr>hp_placement := ?S + (of_nat n + SIZEOF_BLOCK), hp_blocks := ?B, hp_end := ?S\<rparr>"
  have S: "?S \<noteq> 0" by (simp add: heap_consts)
  have nz: "(of_nat n :: u32) \<noteq> 0" using assms(3) n32 of_nat_u32_inject [of n 0] by simp
  have "kmalloc (of_nat n) h = Some (Inr (0xD0000010, ?h))"
    using nz S none fits hp
    by (simp add: kmalloc_def kmalloc_p_def kmalloc_ap_def kmalloc_place_def drop_phys_def Let_def)
      (simp add: heap_consts)
  moreover have "kmalloc m ?h = None" if "m \<noteq> 0" for m
  proof -
    have "find_hole_loop ?B ?S (m + SIZEOF_BLOCK) = None"
      using S by (intro find_hole_self_loop) (auto simp: upd_block_def)
    then show ?thesis using that S hp(1)
      by (simp add: kmalloc_def kmalloc_p_def kmalloc_ap_def drop_phys_def mm_find_smallest_hole_def)
  qed
  ultimately show ?thesis by blast
qed

theorem kmalloc_exhausted_aliases_witness:
  "\<exists>h h'. heap_reach h {(0xD0000010, 16777184)} \<and> kmalloc (of_nat 1) h = Some (Inr (0xD0000010, h'))
     \<and> kmalloc 1 h' = None"
proof -
  let ?h = "snd (kalloc 16777184 heap0)"
  have room: "has_room 16777184 heap0" by (simp add: heap0_def boot_room)
  have al: "alloc_l 16777184 HEAP_BASE fresh_blocks = Some (HEAP_BASE + 16, [(16777200, False)])"
    by (simp add: fresh_blocks_def take_block_def)
  note k = kalloc_rep [OF heap0_rep(1,2) room al]
  have reach: "heap_reach ?h {(0xD0000010, 16777184)}"
    using heap_reach_kalloc [OF heap0_rep(3) room] k(1) by (simp add: HEAP_BASE_def)
  have "hp_start ?h \<noteq> 0" using k(2) by (auto simp: heap_rep_def fresh_blocks_def split: if_splits)
  moreover have "\<not> has_room 1 ?h" using has_room_iff [OF k(2), of 1] by simp
  ultimately obtain h' where "kmalloc (of_nat 1) ?h = Some (Inr (0xD0000010, h'))"
    "\<forall>m. m \<noteq> 0 \<longrightarrow> kmalloc m h' = None"
    using kmalloc_exhausted_aliases [OF reach, of 1] by auto
  moreover from this have "kmalloc 1 h' = None" by simp
  ultimately show ?thesis using reach by (intro exI [of _ ?h] exI [of _ h']) simp
qed

text \<open>The size arithmetic wraps: on a fresh heap of 16 MB, a request for \<open>0xFFFFFFF8\<close> bytes
  succeeds and returns the first payload address.\<close>

theorem kmalloc_size_wraps:
  "\<exists>h'. kmalloc 0xFFFFFFF8 (heap_boot B) = Some (Inr (0xD0000010, h'))
    \<and> KERNEL_HEAP_SIZE < 0xFFFFFFF8"
proof -
  have "find_hole_loop (hp_blocks (heap_init (heap_boot B))) KERNEL_HEAP_START 8
      = Some (Some KERNEL_HEAP_START)"
    by (subst find_hole_loop.simps) (simp add: heap_init_def heap_consts)
  moreover have "(0xFFFFFFF8 :: u32) + SIZEOF_BLOCK = 8" by (simp add: SIZEOF_BLOCK_def)
  moreover have "hp_start (heap_init (heap_boot B)) = KERNEL_HEAP_START"
    by (simp add: heap_init_def)
  ultimately have "mm_find_smallest_hole (0xFFFFFFF8 + SIZEOF_BLOCK) 0 (heap_init (heap_boot B))
      = Some (Some KERNEL_HEAP_START)"
    by (simp only: mm_find_smallest_hole_def)
  then show ?thesis
    by (simp add: kmalloc_def kmalloc_p_def kmalloc_ap_def drop_phys_def kmalloc_hole_def Let_def
      heap_boot_def) (simp add: heap_consts)
qed

text \<open>\<open>kmalloc_a\<close> does not align: the first allocation it makes starts 16 bytes behind a
  page boundary, for every size that fits.\<close>

theorem kmalloc_a_not_aligned:
  assumes "0 < n" and "n + 32 \<le> 16 * 1024 * 1024"
  shows "\<exists>h'. kmalloc_a (of_nat n) (heap_boot B) = Some (Inr (0xD0000010, h'))
    \<and> (0xD0000010 :: u32) mod PAGE_SIZE = 16"
proof -
  have rep: "heap_rep (heap_boot B) fresh_blocks" and n32: "n + 16 < 2 ^ 32"
    using assms(2) by (simp_all add: heap_boot_def heap_rep_def)
  have "alloc_l n HEAP_BASE fresh_blocks
      = Some (HEAP_BASE + 16, take_block n (16 * 1024 * 1024 - 16))"
    using assms by (simp add: fresh_blocks_def)
  then obtain h' where "kmalloc_ap (of_nat n) False (heap_boot B)
      = Some (Inr (of_nat (HEAP_BASE + 16), None, h'))"
    using kmalloc_ap_refines [OF rep assms(1) n32, of "HEAP_BASE + 16" _ False] by auto
  then show ?thesis
    by (simp add: kmalloc_a_def drop_phys_def HEAP_BASE_def PAGE_SIZE_def)
qed

theorem kmalloc_a_not_aligned_witness:
  "\<exists>h'. kmalloc_a (of_nat 8196) heap0 = Some (Inr (0xD0000010, h'))"
  using kmalloc_a_not_aligned [of 8196] by (auto simp: heap0_def)

end
