(* ===== verification/Frames.thy ===== *)
theory Frames
  imports CString Heap
begin

text \<open>
  The physical frame allocator of \<open>kernel/mm.c\<close>: a bitmap of 32-bit words at the address given
  to \<open>mm_init\<close>, one bit per 4 KB frame, with the counters of \<open>mm_get_free_memory\<close> and
  \<open>mm_get_used_memory\<close>. The bitmap lives in the flat byte memory, because \<open>mm_init\<close> fills
  it with a byte count and because it lies where the kernel image is linked. The second half
  reads it as a set of used frames and shows what the operations do to that set.
\<close>

subsection \<open>Words in memory\<close>

definition word_at :: "mem \<Rightarrow> ptr \<Rightarrow> u32" where
  "word_at m p = ucast (m p) OR push_bit 8 (ucast (m (p + 1)))
     OR push_bit 16 (ucast (m (p + 2))) OR push_bit 24 (ucast (m (p + 3)))"

definition put_word :: "mem \<Rightarrow> ptr \<Rightarrow> u32 \<Rightarrow> mem" where
  "put_word m p w = m(p := ucast w, p + 1 := ucast (drop_bit 8 w),
     p + 2 := ucast (drop_bit 16 w), p + 3 := ucast (drop_bit 24 w))"

subsection \<open>State and operations\<close>

record frames =
  mem_bitmap :: ptr
  total_memory :: u32
  total_blocks :: u32
  used_blocks :: u32
  fr_mem :: mem

text \<open>
  A bit number is an \<open>int\<close> of the source; its callers pass \<open>i < total_blocks \<le> 2^20\<close> or a
  20-bit frame number, so the signed division and remainder are those of naturals.
\<close>

definition bit_word :: "frames \<Rightarrow> nat \<Rightarrow> ptr" where
  "bit_word fr k = mem_bitmap fr + 4 * of_nat (k div 32)"

definition mm_set_bit :: "nat \<Rightarrow> frames \<Rightarrow> frames" where
  "mm_set_bit k fr = fr\<lparr>fr_mem := put_word (fr_mem fr) (bit_word fr k)
     (word_at (fr_mem fr) (bit_word fr k) OR push_bit (k mod 32) 1)\<rparr>"

definition mm_unset_bit :: "nat \<Rightarrow> frames \<Rightarrow> frames" where
  "mm_unset_bit k fr = fr\<lparr>fr_mem := put_word (fr_mem fr) (bit_word fr k)
     (word_at (fr_mem fr) (bit_word fr k) AND NOT (push_bit (k mod 32) 1))\<rparr>"

definition mm_test_bit :: "nat \<Rightarrow> frames \<Rightarrow> u32" where
  "mm_test_bit k fr = word_at (fr_mem fr) (bit_word fr k) AND push_bit (k mod 32) 1"

fun first_free_loop :: "frames \<Rightarrow> nat list \<Rightarrow> int" where
  "first_free_loop fr [] = -1"
| "first_free_loop fr (i # is) = (if mm_test_bit i fr = 0 then int i else first_free_loop fr is)"

definition mm_first_free :: "frames \<Rightarrow> int" where
  "mm_first_free fr = first_free_loop fr [0..<unat (total_blocks fr)]"

definition kernel_blocks :: u32 where
  "kernel_blocks = (KERNEL_HEAP_START - KERNEL_BASE) div PAGE_SIZE"

definition mm_init :: "u32 \<Rightarrow> ptr \<Rightarrow> frames \<Rightarrow> frames" where
  "mm_init mem_size bitmap fr =
     (let fr1 = fr\<lparr>total_memory := mem_size, total_blocks := mem_size div PAGE_SIZE,
                   mem_bitmap := bitmap, used_blocks := 0\<rparr>;
          bitmap_size = total_blocks fr1 div 8;
          fr2 = fr1\<lparr>fr_mem := fst (memset (fr_mem fr1) (mem_bitmap fr1) 0xFF bitmap_size)\<rparr>;
          fr3 = fold mm_unset_bit [0..<unat kernel_blocks] fr2
      in fr3\<lparr>used_blocks := kernel_blocks\<rparr>)"

text \<open>A page table entry: the bit fields of \<open>page_t\<close> at their widths.\<close>

record page =
  pg_present :: bool
  pg_rw :: bool
  pg_user :: bool
  pg_accessed :: bool
  pg_dirty :: bool
  pg_unused :: "7 word"
  pg_frame :: "20 word"

definition zero_page :: page where
  "zero_page = \<lparr>pg_present = False, pg_rw = False, pg_user = False, pg_accessed = False,
     pg_dirty = False, pg_unused = 0, pg_frame = 0\<rparr>"

lemma zero_page_frame [simp]: "pg_frame zero_page = 0"
  by (simp add: zero_page_def)

text \<open>
  The word of an entry: the compiler allocates bit fields from the lowest bit on. The header also
  names the bits the processor uses.
\<close>

definition page_word :: "page \<Rightarrow> u32" where
  "page_word p = of_bool (pg_present p) OR push_bit 1 (of_bool (pg_rw p)) OR push_bit 2 (of_bool (pg_user p))
     OR push_bit 3 (of_bool (pg_accessed p)) OR push_bit 4 (of_bool (pg_dirty p))
     OR push_bit 5 (ucast (pg_unused p)) OR push_bit 12 (ucast (pg_frame p))"

definition PAGE_PRESENT :: u32 where "PAGE_PRESENT = 0x1"
definition PAGE_RW :: u32 where "PAGE_RW = 0x2"
definition PAGE_USER :: u32 where "PAGE_USER = 0x4"
definition PAGE_ACCESSED :: u32 where "PAGE_ACCESSED = 0x20"
definition PAGE_DIRTY :: u32 where "PAGE_DIRTY = 0x40"

lemma word_and_bit: "(w :: u32) AND push_bit n 1 \<noteq> 0 \<longleftrightarrow> bit w n"
  by (simp add: and_exp_eq_0_iff_not_bit push_bit_eq_mult)

text \<open>
  The fields \<open>accessed\<close> and \<open>dirty\<close> are not at the bits the processor sets (and the header names):
  those lie in the unused field.
\<close>

lemma page_word_flags:
  "page_word p AND PAGE_PRESENT \<noteq> 0 \<longleftrightarrow> pg_present p" "page_word p AND PAGE_RW \<noteq> 0 \<longleftrightarrow> pg_rw p"
  "page_word p AND PAGE_USER \<noteq> 0 \<longleftrightarrow> pg_user p" "page_word p AND PAGE_ACCESSED \<noteq> 0 \<longleftrightarrow> bit (pg_unused p) 0"
  "page_word p AND PAGE_DIRTY \<noteq> 0 \<longleftrightarrow> bit (pg_unused p) 1"
  using word_and_bit [of "page_word p" 0] word_and_bit [of "page_word p" 1] word_and_bit [of "page_word p" 2]
    word_and_bit [of "page_word p" 5] word_and_bit [of "page_word p" 6]
  by (simp_all add: PAGE_PRESENT_def PAGE_RW_def PAGE_USER_def PAGE_ACCESSED_def PAGE_DIRTY_def page_word_def bit_simps)

lemma page_word_frame: "drop_bit 12 (page_word p) = ucast (pg_frame p)"
proof (rule bit_word_eqI)
  fix k assume "k < LENGTH(32)"
  have "\<not> bit (pg_unused p) (7 + k)" using bit_imp_le_length [of "pg_unused p" "7 + k"] by auto
  then show "bit (drop_bit 12 (page_word p)) k = bit (ucast (pg_frame p) :: u32) k"
    using \<open>k < LENGTH(32)\<close> bit_imp_le_length [of "pg_frame p" k] by (auto simp: page_word_def bit_simps)
qed

definition mm_alloc_frame :: "page \<Rightarrow> bool \<Rightarrow> bool \<Rightarrow> frames \<Rightarrow> (page \<times> frames) panicking" where
  "mm_alloc_frame page is_kernel is_writeable fr =
     (if pg_frame page \<noteq> 0 then Inr (page, fr)
      else
        let idx = mm_first_free fr
        in if idx = -1 then Inl (bytes ''Out of memory'')
           else
             let fr1 = mm_set_bit (nat idx) fr;
                 page1 = page\<lparr>pg_present := True, pg_rw := is_writeable,
                              pg_user := \<not> is_kernel, pg_frame := of_int idx\<rparr>
             in Inr (page1, fr1\<lparr>used_blocks := used_blocks fr1 + 1\<rparr>))"

definition mm_free_frame :: "page \<Rightarrow> frames \<Rightarrow> page \<times> frames" where
  "mm_free_frame page fr =
     (let frame = pg_frame page
      in if frame = 0 then (page, fr)
         else
           let fr1 = mm_unset_bit (unat frame) fr
           in (page\<lparr>pg_frame := 0\<rparr>, fr1\<lparr>used_blocks := used_blocks fr1 - 1\<rparr>))"

definition mm_get_total_memory :: "frames \<Rightarrow> u32" where
  "mm_get_total_memory fr = total_memory fr"

definition mm_get_free_memory :: "frames \<Rightarrow> u32" where
  "mm_get_free_memory fr = (total_blocks fr - used_blocks fr) * PAGE_SIZE"

definition mm_get_used_memory :: "frames \<Rightarrow> u32" where
  "mm_get_used_memory fr = used_blocks fr * PAGE_SIZE"

subsection \<open>The bitmap as a set of frames\<close>

definition frame_bit :: "frames \<Rightarrow> nat \<Rightarrow> bool" where
  "frame_bit fr k = bit (fr_mem fr (mem_bitmap fr + of_nat (k div 8))) (k mod 8)"

lemma high_bit: "8 \<le> k \<Longrightarrow> \<not> bit (b :: u8) k"
  using bit_imp_le_length [of b k] by auto

lemma word_at_bit:
  assumes "k < 32"
  shows "bit (word_at m p) k = bit (m (p + of_nat (k div 8))) (k mod 8)"
proof -
  consider "k < 8" | "8 \<le> k" "k < 16" | "16 \<le> k" "k < 24" | "24 \<le> k"
    by linarith
  then show ?thesis
  proof cases
    case 1
    then show ?thesis by (simp add: word_at_def bit_simps)
  next
    case 2
    then have d: "k div 8 = 1" by (intro div_nat_eqI) auto
    then have "k mod 8 = k - 8" by (simp add: minus_mult_div_eq_mod [symmetric])
    with 2 d show ?thesis by (auto simp add: word_at_def bit_simps high_bit)
  next
    case 3
    then have d: "k div 8 = 2" by (intro div_nat_eqI) auto
    then have "k mod 8 = k - 16" by (simp add: minus_mult_div_eq_mod [symmetric])
    with 3 d show ?thesis by (auto simp add: word_at_def bit_simps high_bit)
  next
    case 4
    then have d: "k div 8 = 3" using assms by (intro div_nat_eqI) auto
    then have "k mod 8 = k - 24" by (simp add: minus_mult_div_eq_mod [symmetric])
    with 4 d assms show ?thesis by (auto simp add: word_at_def bit_simps high_bit)
  qed
qed

lemma put_word_byte:
  assumes "i < 4"
  shows "put_word m p w (p + of_nat i) = ucast (drop_bit (8 * i) w)"
proof -
  have "i \<in> set [0..<4]" using assms by simp
  moreover have "\<forall>i \<in> set [0..<4]. put_word m p w (p + of_nat i) = ucast (drop_bit (8 * i) w)"
    by (simp add: upt_rec put_word_def)
  ultimately show ?thesis by blast
qed

lemma put_word_other:
  "a \<notin> region p 4 \<Longrightarrow> put_word m p w a = m a"
  by (auto simp: put_word_def region_def numeral_eq_Suc lessThan_Suc add.commute)

lemma bit_address: "bit_word fr k + of_nat (k mod 32 div 8) = mem_bitmap fr + of_nat (k div 8)"
proof -
  have "k mod 32 = 8 * (k div 8 mod 4) + k mod 8"
    using mod_mult2_eq [of k 8 4] by simp
  then have "k mod 32 div 8 = k div 8 mod 4" by simp
  moreover have "k div 32 = k div 8 div 4" by (simp add: div_mult2_eq [symmetric])
  ultimately have "k div 8 = 4 * (k div 32) + k mod 32 div 8" by simp
  then have "(of_nat (k div 8) :: u32) = 4 * of_nat (k div 32) + of_nat (k mod 32 div 8)"
    by (metis of_nat_add of_nat_mult of_nat_numeral)
  then show ?thesis by (simp add: bit_word_def)
qed

lemma mm_test_bit_iff: "mm_test_bit k fr \<noteq> 0 \<longleftrightarrow> frame_bit fr k"
proof -
  have "mm_test_bit k fr \<noteq> 0 \<longleftrightarrow> bit (word_at (fr_mem fr) (bit_word fr k)) (k mod 32)"
    by (simp add: mm_test_bit_def bit_iff_and_push_bit_not_eq_0)
  also have "\<dots> = bit (fr_mem fr (bit_word fr k + of_nat (k mod 32 div 8))) (k mod 32 mod 8)"
    by (rule word_at_bit) simp
  also have "k mod 32 mod 8 = k mod 8" by (simp add: mod_mod_cancel)
  finally show ?thesis by (simp only: bit_address frame_bit_def)
qed

text \<open>Writing a word changes the bits of that word only.\<close>

lemma frame_bit_put_word:
  assumes "j < 2 ^ 35" and "k < 2 ^ 35"
  shows "frame_bit (fr\<lparr>fr_mem := put_word (fr_mem fr) (bit_word fr k) w\<rparr>) j
    = (if j div 32 = k div 32 then bit w (j mod 32) else frame_bit fr j)"
proof (cases "j div 32 = k div 32")
  case True
  have "put_word (fr_mem fr) (bit_word fr j) w (bit_word fr j + of_nat (j mod 32 div 8))
      = ucast (drop_bit (8 * (j mod 32 div 8)) w)"
    by (rule put_word_byte) auto
  moreover have "8 * (j mod 32 div 8) + j mod 8 = j mod 32"
    using mod_mult2_eq [of j 8 4] by simp
  moreover have "bit_word fr k = bit_word fr j" using True by (simp add: bit_word_def)
  ultimately show ?thesis
    using True by (simp add: frame_bit_def bit_address [symmetric] bit_simps)
next
  case False
  have "mem_bitmap fr + of_nat (j div 8) \<notin> region (bit_word fr k) 4"
  proof
    assume "mem_bitmap fr + of_nat (j div 8) \<in> region (bit_word fr k) 4"
    then obtain i where i: "i < 4" and "mem_bitmap fr + of_nat (j div 8) = bit_word fr k + of_nat i" ..
    then have "(of_nat (j div 8) :: u32) = of_nat (4 * (k div 32) + i)"
      by (simp add: bit_word_def)
    moreover have "k div 32 < 2 ^ 30" using assms(2) by (intro less_mult_imp_div_less) simp
    then have "j div 8 < 2 ^ 32" "4 * (k div 32) + i < 2 ^ 32" using assms(1) i by auto
    ultimately have "j div 8 = 4 * (k div 32) + i" using of_nat_u32_inject by blast
    then have "j div 8 div 4 = k div 32" using i by simp
    with False show False by (simp add: div_mult2_eq [symmetric])
  qed
  with False show ?thesis by (simp add: frame_bit_def put_word_other)
qed

lemma same_bit: "j = k \<longleftrightarrow> j div 32 = k div 32 \<and> j mod 32 = (k :: nat) mod 32"
  using div_mult_mod_eq [of j 32] div_mult_mod_eq [of k 32] by metis

lemma frame_bit_set:
  assumes "j < 2 ^ 35" and "k < 2 ^ 35"
  shows "frame_bit (mm_set_bit k fr) j \<longleftrightarrow> j = k \<or> frame_bit fr j"
proof -
  have "bit (word_at (fr_mem fr) (bit_word fr j)) (j mod 32) = frame_bit fr j"
    using mm_test_bit_iff [of j fr] by (simp add: mm_test_bit_def bit_iff_and_push_bit_not_eq_0)
  moreover have "j = k \<longleftrightarrow> j div 32 = k div 32 \<and> j mod 32 = k mod 32"
    by (rule same_bit)
  moreover have "bit_word fr k = bit_word fr j" if "j div 32 = k div 32"
    using that by (simp add: bit_word_def)
  ultimately show ?thesis
    unfolding mm_set_bit_def frame_bit_put_word [OF assms]
    by (auto simp: bit_simps)
qed

lemma frame_bit_unset:
  assumes "j < 2 ^ 35" and "k < 2 ^ 35"
  shows "frame_bit (mm_unset_bit k fr) j \<longleftrightarrow> j \<noteq> k \<and> frame_bit fr j"
proof -
  have "bit (word_at (fr_mem fr) (bit_word fr j)) (j mod 32) = frame_bit fr j"
    using mm_test_bit_iff [of j fr] by (simp add: mm_test_bit_def bit_iff_and_push_bit_not_eq_0)
  moreover have "j = k \<longleftrightarrow> j div 32 = k div 32 \<and> j mod 32 = k mod 32"
    by (rule same_bit)
  moreover have "bit_word fr k = bit_word fr j" if "j div 32 = k div 32"
    using that by (simp add: bit_word_def)
  ultimately show ?thesis
    unfolding mm_unset_bit_def frame_bit_put_word [OF assms]
    by (auto simp: bit_simps)
qed

text \<open>The frames the bitmap manages, and those marked used.\<close>

definition used_frames :: "frames \<Rightarrow> nat set" where
  "used_frames fr = {k. k < unat (total_blocks fr) \<and> frame_bit fr k}"

definition frames_ok :: "frames \<Rightarrow> bool" where
  "frames_ok fr \<longleftrightarrow> total_blocks fr < 0x100000"

definition free_frames :: "frames \<Rightarrow> nat set" where
  "free_frames fr = {k. k < unat (total_blocks fr) \<and> \<not> frame_bit fr k}"

lemma mm_bits_frame [simp]:
  "mem_bitmap (mm_set_bit k fr) = mem_bitmap fr" "total_blocks (mm_set_bit k fr) = total_blocks fr"
  "used_blocks (mm_set_bit k fr) = used_blocks fr" "total_memory (mm_set_bit k fr) = total_memory fr"
  "mem_bitmap (mm_unset_bit k fr) = mem_bitmap fr" "total_blocks (mm_unset_bit k fr) = total_blocks fr"
  "used_blocks (mm_unset_bit k fr) = used_blocks fr" "total_memory (mm_unset_bit k fr) = total_memory fr"
  by (simp_all add: mm_set_bit_def mm_unset_bit_def)

lemma frame_bit_counters [simp]:
  "frame_bit (fr\<lparr>used_blocks := u\<rparr>) k = frame_bit fr k"
  "frame_bit (fr\<lparr>total_blocks := v\<rparr>) k = frame_bit fr k"
  "frame_bit (fr\<lparr>total_memory := w\<rparr>) k = frame_bit fr k"
  by (simp_all add: frame_bit_def)

lemma first_free_loop_cases:
  "(first_free_loop fr is = -1 \<and> (\<forall>i \<in> set is. frame_bit fr i))
   \<or> (\<exists>us i vs. is = us @ i # vs \<and> first_free_loop fr is = int i \<and> \<not> frame_bit fr i
        \<and> (\<forall>j \<in> set us. frame_bit fr j))"
proof (induction "is")
  case Nil
  then show ?case by simp
next
  case (Cons i "is")
  show ?case
  proof (cases "frame_bit fr i")
    case True
    then have step: "first_free_loop fr (i # is) = first_free_loop fr is"
      using mm_test_bit_iff by auto
    from Cons.IH show ?thesis
    proof (elim disjE exE conjE)
      fix us k vs assume "is = us @ k # vs" "first_free_loop fr is = int k" "\<not> frame_bit fr k"
        "\<forall>j \<in> set us. frame_bit fr j"
      then show ?thesis
        using step True by (intro disjI2 exI [of _ "i # us"]) auto
    qed (use step True in simp)
  next
    case False
    then have "mm_test_bit i fr = 0" using mm_test_bit_iff by metis
    with False show ?thesis by (intro disjI2 exI [of _ "[]"]) simp
  qed
qed

lemma first_free_loop_found:
  "first_free_loop fr is = -1 \<or> (\<exists>i \<in> set is. \<not> frame_bit fr i)"
  using first_free_loop_cases [of fr "is"] by auto

lemma mm_first_free_none: "free_frames fr = {} \<Longrightarrow> mm_first_free fr = -1"
  using first_free_loop_found [of fr "[0..<unat (total_blocks fr)]"]
  by (auto simp: mm_first_free_def free_frames_def)

lemma mm_first_free_some:
  assumes "free_frames fr \<noteq> {}"
  shows "mm_first_free fr = int (Min (free_frames fr))"
proof -
  let ?is = "[0..<unat (total_blocks fr)]"
  obtain us i vs where i: "?is = us @ i # vs" "mm_first_free fr = int i" "\<not> frame_bit fr i"
    "\<forall>j \<in> set us. frame_bit fr j"
  proof -
    have "\<not> (\<forall>i \<in> set ?is. frame_bit fr i)" using assms by (auto simp: free_frames_def)
    then show ?thesis using first_free_loop_cases [of fr ?is] that unfolding mm_first_free_def by blast
  qed
  have "i \<in> set ?is" using i(1) by simp
  have "Min (free_frames fr) = i"
  proof (rule Min_eqI)
    show "finite (free_frames fr)" by (simp add: free_frames_def)
    show "i \<in> free_frames fr" using i(3) \<open>i \<in> set ?is\<close> by (simp add: free_frames_def)
    fix k assume k: "k \<in> free_frames fr"
    then have "k \<in> set ?is" by (simp add: free_frames_def)
    then have "k \<in> set us \<or> k \<in> set (i # vs)" unfolding i(1) by auto
    moreover have "k \<notin> set us" using k i(4) by (auto simp: free_frames_def)
    moreover have "sorted (us @ i # vs)" unfolding i(1) [symmetric] by simp
    ultimately show "i \<le> k" by (auto simp: sorted_append)
  qed
  with i(2) show ?thesis by simp
qed

lemma frames_finite [simp]: "finite (free_frames fr)" "finite (used_frames fr)"
  by (simp_all add: free_frames_def used_frames_def)

lemma frames_bound: "k \<in> free_frames fr \<Longrightarrow> frames_ok fr \<Longrightarrow> k < 2 ^ 20"
  unfolding free_frames_def frames_ok_def by (simp add: word_less_nat_alt)

lemma used_frames_bound: "k \<in> used_frames fr \<Longrightarrow> frames_ok fr \<Longrightarrow> k < 2 ^ 20"
  unfolding used_frames_def frames_ok_def by (simp add: word_less_nat_alt)

lemma mm_alloc_frame_none:
  "pg_frame pg = 0 \<Longrightarrow> free_frames fr = {} \<Longrightarrow>
    mm_alloc_frame pg ker wr fr = Inl (bytes ''Out of memory'')"
  by (simp add: mm_alloc_frame_def mm_first_free_none)

text \<open>The frame, the set and the counter after an allocation that succeeds.\<close>

definition taken_page :: "page \<Rightarrow> bool \<Rightarrow> bool \<Rightarrow> nat \<Rightarrow> page" where
  "taken_page pg ker wr k = pg\<lparr>pg_present := True, pg_rw := wr, pg_user := \<not> ker, pg_frame := of_nat k\<rparr>"

lemma mm_alloc_frame_some:
  assumes "pg_frame pg = 0" and "free_frames fr \<noteq> {}" and ok: "frames_ok fr"
  defines "k \<equiv> Min (free_frames fr)"
  obtains fr' where "mm_alloc_frame pg ker wr fr = Inr (taken_page pg ker wr k, fr')"
    and "free_frames fr' = free_frames fr - {k}" and "used_frames fr' = insert k (used_frames fr)"
    and "frames_ok fr'" and "total_blocks fr' = total_blocks fr"
    and "used_blocks fr' = used_blocks fr + 1" and "k \<in> free_frames fr" and "k < 2 ^ 20"
proof -
  have k: "k \<in> free_frames fr" unfolding k_def using assms(2) by (intro Min_in) auto
  have k20: "k < 2 ^ 20" using frames_bound [OF k ok] .
  define fr' where "fr' = (mm_set_bit k fr)\<lparr>used_blocks := used_blocks fr + 1\<rparr>"
  have bit: "frame_bit fr' j \<longleftrightarrow> j = k \<or> frame_bit fr j" if "j < unat (total_blocks fr)" for j
    using frame_bit_set [of j k fr] that ok k20 by (simp add: fr'_def frames_ok_def word_less_nat_alt)
  have tb: "total_blocks fr' = total_blocks fr" by (simp add: fr'_def)
  show ?thesis
  proof (rule that [of fr'])
    show "mm_alloc_frame pg ker wr fr = Inr (taken_page pg ker wr k, fr')"
      using assms(1) mm_first_free_some [OF assms(2)]
      by (simp add: mm_alloc_frame_def taken_page_def fr'_def k_def)
    show "free_frames fr' = free_frames fr - {k}"
      using bit by (auto simp: free_frames_def tb)
    show "used_frames fr' = insert k (used_frames fr)"
      using bit k by (auto simp: used_frames_def free_frames_def tb)
    show "frames_ok fr'" using ok by (simp add: frames_ok_def tb)
  qed (use tb k k20 in \<open>auto simp: fr'_def\<close>)
qed

lemma mm_free_frame_used:
  assumes "pg_frame pg \<noteq> 0" and ok: "frames_ok fr"
  defines "k \<equiv> unat (pg_frame pg)"
  obtains fr' where "mm_free_frame pg fr = (pg\<lparr>pg_frame := 0\<rparr>, fr')"
    and "used_frames fr' = used_frames fr - {k}" and "frames_ok fr'"
    and "total_blocks fr' = total_blocks fr" and "used_blocks fr' = used_blocks fr - 1"
proof -
  define fr' where "fr' = (mm_unset_bit k fr)\<lparr>used_blocks := used_blocks fr - 1\<rparr>"
  have k20: "k < 2 ^ 20" unfolding k_def using unsigned_less [of "pg_frame pg"] by simp
  have bit: "frame_bit fr' j \<longleftrightarrow> j \<noteq> k \<and> frame_bit fr j" if "j < unat (total_blocks fr)" for j
    using frame_bit_unset [of j k fr] that ok k20 by (simp add: fr'_def frames_ok_def word_less_nat_alt)
  have tb: "total_blocks fr' = total_blocks fr" by (simp add: fr'_def)
  show ?thesis
  proof (rule that [of fr'])
    show "mm_free_frame pg fr = (pg\<lparr>pg_frame := 0\<rparr>, fr')"
      using assms(1) by (simp add: mm_free_frame_def fr'_def k_def)
    show "used_frames fr' = used_frames fr - {k}"
      using bit by (auto simp: used_frames_def tb)
    show "frames_ok fr'" using ok by (simp add: frames_ok_def tb)
  qed (use tb in \<open>auto simp: fr'_def\<close>)
qed

subsection \<open>The state after \<open>mm_init\<close>\<close>

lemma frame_bit_fold_unset:
  "n \<le> 2 ^ 35 \<Longrightarrow> j < 2 ^ 35 \<Longrightarrow>
    frame_bit (fold mm_unset_bit [0..<n] fr) j \<longleftrightarrow> n \<le> j \<and> frame_bit fr j"
  by (induction n) (auto simp: frame_bit_unset)

lemma fold_unset_frame [simp]:
  "mem_bitmap (fold mm_unset_bit ks fr) = mem_bitmap fr"
  "total_blocks (fold mm_unset_bit ks fr) = total_blocks fr"
  "total_memory (fold mm_unset_bit ks fr) = total_memory fr"
  by (induction ks arbitrary: fr) auto

lemma kernel_blocks_eval: "kernel_blocks = 0x10000"
  by (simp add: kernel_blocks_def KERNEL_HEAP_START_def KERNEL_BASE_def PAGE_SIZE_def)

lemma bit_ff: "bit (0xFF :: u8) (k mod 8)"
proof -
  have "\<forall>i \<in> set [0..<8]. bit (0xFF :: u8) i" by (simp add: upt_rec)
  then show ?thesis by simp
qed

lemma mm_init_simps [simp]:
  "mem_bitmap (mm_init sz p fr) = p" "total_blocks (mm_init sz p fr) = sz div PAGE_SIZE"
  "total_memory (mm_init sz p fr) = sz" "used_blocks (mm_init sz p fr) = 0x10000"
  by (simp_all add: mm_init_def Let_def kernel_blocks_eval)

lemma mm_init_bit:
  assumes "k < 2 ^ 35"
  shows "frame_bit (mm_init sz p fr) k \<longleftrightarrow> 0x10000 \<le> k
    \<and> (k div 8 < unat (sz div PAGE_SIZE) div 8 \<or> bit (fr_mem fr (p + of_nat (k div 8))) (k mod 8))"
proof -
  have "k div 8 < 2 ^ 32" using assms by simp
  then have "unat (of_nat (k div 8) :: u32) = k div 8" by (rule unat_of_nat_u32)
  then show ?thesis
    using bit_ff assms
    by (simp add: mm_init_def Let_def frame_bit_fold_unset kernel_blocks_eval)
      (auto simp: frame_bit_def memset_overlay overlay_def unat_div)
qed

lemma mm_init_ok: "frames_ok (mm_init sz p fr)"
  unfolding frames_ok_def by (simp add: PAGE_SIZE_def word_less_nat_alt unat_div)
    (use unat_u32_less [of sz] in \<open>simp add: less_mult_imp_div_less\<close>)

end
