(* ===== verification/FramePool.thy ===== *)
theory FramePool
  imports Frames
begin

text \<open>
  The contract of a pool of numbered resources, its clients' lemmas, and its interpretation on
  the frame allocator; then the properties of the frame allocator.
\<close>

subsection \<open>The contract\<close>

text \<open>
  A pool hands out numbers that are not in use and takes back numbers that are; a client keeps
  a table of what it owns, where 0 stands for nothing.
\<close>

locale pool =
  fixes take_one :: "'s \<Rightarrow> (nat \<times> 's) option"
    and give :: "nat \<Rightarrow> 's \<Rightarrow> 's"
    and used :: "'s \<Rightarrow> nat set"
    and ok :: "'s \<Rightarrow> bool"
  assumes take_fresh: "ok s \<Longrightarrow> take_one s = Some (k, s') \<Longrightarrow> k \<notin> used s"
    and take_used: "ok s \<Longrightarrow> take_one s = Some (k, s') \<Longrightarrow> used s' = insert k (used s)"
    and take_ok: "ok s \<Longrightarrow> take_one s = Some (k, s') \<Longrightarrow> ok s'"
    and give_used: "ok s \<Longrightarrow> 0 < k \<Longrightarrow> k \<in> used s \<Longrightarrow> used (give k s) = used s - {k}"
    and give_ok: "ok s \<Longrightarrow> k \<in> used s \<Longrightarrow> ok (give k s)"
begin

definition owned :: "('i \<Rightarrow> nat) \<Rightarrow> 's \<Rightarrow> bool" where
  "owned own s \<longleftrightarrow> ok s \<and> (\<forall>i. own i \<noteq> 0 \<longrightarrow> own i \<in> used s)
     \<and> (\<forall>i j. own i = own j \<and> own i \<noteq> 0 \<longrightarrow> i = j)"

lemma owned_take:
  assumes "owned own s" and "take_one s = Some (k, s')"
  shows "owned (own(i := k)) s'"
proof -
  have "ok s" using assms(1) by (simp add: owned_def)
  note facts = take_fresh [OF this assms(2)] take_used [OF this assms(2)] take_ok [OF this assms(2)]
  show ?thesis using assms(1) facts unfolding owned_def by (auto split: if_splits)
qed

lemma owned_give:
  assumes "owned own s" and "own i \<noteq> 0"
  shows "owned (own(i := 0)) (give (own i) s)"
proof -
  have "ok s" "own i \<in> used s" using assms by (auto simp: owned_def)
  note facts = give_used [OF this(1) _ this(2)] give_ok [OF this]
  show ?thesis using assms facts unfolding owned_def by (auto split: if_splits)
qed

lemma owned_distinct: "owned own s \<Longrightarrow> i \<noteq> j \<Longrightarrow> own i \<noteq> 0 \<Longrightarrow> own i \<noteq> own j"
  by (auto simp: owned_def)

lemma owned_used: "owned own s \<Longrightarrow> own i \<noteq> 0 \<Longrightarrow> own i \<in> used s"
  by (auto simp: owned_def)

lemma owned_none: "ok s \<Longrightarrow> owned (\<lambda>_. 0) s"
  by (simp add: owned_def)

end

subsection \<open>The frame allocator keeps the contract\<close>

definition take_frame :: "frames \<Rightarrow> (nat \<times> frames) option" where
  "take_frame fr = (case mm_alloc_frame zero_page True True fr of
     Inl _ \<Rightarrow> None | Inr (pg, fr') \<Rightarrow> Some (unat (pg_frame pg), fr'))"

definition give_frame :: "nat \<Rightarrow> frames \<Rightarrow> frames" where
  "give_frame k fr = snd (mm_free_frame (zero_page\<lparr>pg_frame := of_nat k\<rparr>) fr)"

lemma unat_frame: "k < 2 ^ 20 \<Longrightarrow> unat (of_nat k :: 20 word) = k"
  by (simp add: unat_of_nat)

lemma take_frame_cases:
  assumes "frames_ok fr"
  shows "(free_frames fr = {} \<and> take_frame fr = None)
    \<or> (\<exists>fr'. take_frame fr = Some (Min (free_frames fr), fr') \<and> Min (free_frames fr) \<in> free_frames fr
        \<and> used_frames fr' = insert (Min (free_frames fr)) (used_frames fr) \<and> frames_ok fr'
        \<and> free_frames fr \<noteq> {})"
proof (cases "free_frames fr = {}")
  case True
  then show ?thesis by (simp add: take_frame_def mm_alloc_frame_none zero_page_def)
next
  case False
  show ?thesis
    by (rule mm_alloc_frame_some [of zero_page fr True True, OF _ False assms])
      (auto simp: take_frame_def zero_page_def taken_page_def unat_frame False)
qed

lemma give_frame_used:
  assumes "frames_ok fr" and "0 < k" and "k \<in> used_frames fr"
  shows "used_frames (give_frame k fr) = used_frames fr - {k}" and "frames_ok (give_frame k fr)"
proof -
  have k: "k < 2 ^ 20" using used_frames_bound assms by blast
  then have "(of_nat k :: 20 word) \<noteq> 0" using assms(2) unat_frame [OF k] by fastforce
  then have nz: "pg_frame (zero_page\<lparr>pg_frame := of_nat k\<rparr>) \<noteq> 0" by simp
  obtain fr' where "mm_free_frame (zero_page\<lparr>pg_frame := of_nat k\<rparr>) fr
      = ((zero_page\<lparr>pg_frame := of_nat k\<rparr>)\<lparr>pg_frame := 0\<rparr>, fr')"
    "used_frames fr' = used_frames fr - {k}" "frames_ok fr'"
    by (rule mm_free_frame_used [OF nz assms(1)]) (simp add: unat_frame [OF k])
  then show "used_frames (give_frame k fr) = used_frames fr - {k}" and "frames_ok (give_frame k fr)"
    by (simp_all add: give_frame_def)
qed

interpretation fpool: pool take_frame give_frame used_frames frames_ok
proof
  fix fr fr' k
  assume ok: "frames_ok fr" and t: "take_frame fr = Some (k, fr')"
  show "k \<notin> used_frames fr" and "used_frames fr' = insert k (used_frames fr)" and "frames_ok fr'"
    using take_frame_cases [OF ok] t by (auto simp: free_frames_def used_frames_def)
next
  fix fr k
  assume "frames_ok fr" and "k \<in> used_frames fr"
  then show "frames_ok (give_frame k fr)"
    using give_frame_used(2) [of fr k] by (cases "k = 0") (auto simp: give_frame_def mm_free_frame_def zero_page_def)
qed (simp add: give_frame_used(1))

subsection \<open>Pages and frames\<close>

text \<open>
  The runs of \<open>mm_alloc_frame\<close> and \<open>mm_free_frame\<close> on a family of page table entries,
  from the state \<open>mm_init\<close> leaves.
\<close>

inductive pages_reach :: "(nat \<Rightarrow> page) \<Rightarrow> frames \<Rightarrow> bool" where
  start: "(\<And>i. pg_frame (P i) = 0) \<Longrightarrow> pages_reach P (mm_init sz bitmap fr)"
| alloc: "pages_reach P fr \<Longrightarrow> mm_alloc_frame (P i) ker wr fr = Inr (pg, fr')
    \<Longrightarrow> pages_reach (P(i := pg)) fr'"
| free: "pages_reach P fr \<Longrightarrow> mm_free_frame (P i) fr = (pg, fr') \<Longrightarrow> pages_reach (P(i := pg)) fr'"

lemma alloc_frame_take:
  assumes "pg_frame pg = 0" and "mm_alloc_frame pg ker wr fr = Inr (pg', fr')"
  shows "take_frame fr = Some (unat (pg_frame pg'), fr')"
  using assms by (auto simp: take_frame_def mm_alloc_frame_def Let_def zero_page_def split: if_splits)

lemma alloc_frame_taken:
  "pg_frame pg \<noteq> 0 \<Longrightarrow> mm_alloc_frame pg ker wr fr = Inr (pg, fr)"
  by (simp add: mm_alloc_frame_def)

lemma free_frame_give:
  "mm_free_frame pg fr = (pg\<lparr>pg_frame := 0\<rparr>, give_frame (unat (pg_frame pg)) fr)"
  by (auto simp: give_frame_def mm_free_frame_def Let_def)

lemma pages_reach_owned:
  assumes "pages_reach P fr"
  shows "fpool.owned (\<lambda>i. unat (pg_frame (P i))) fr"
  using assms
proof induction
  case (start P sz bitmap fr)
  then show ?case by (simp add: fpool.owned_none mm_init_ok)
next
  case (alloc P fr i ker wr pg fr')
  have upd: "(\<lambda>j. unat (pg_frame ((P(i := pg)) j))) = (\<lambda>j. unat (pg_frame (P j)))(i := unat (pg_frame pg))"
    by auto
  show ?case
  proof (cases "pg_frame (P i) = 0")
    case True
    show ?thesis
      unfolding upd by (rule fpool.owned_take [OF alloc.IH alloc_frame_take [OF True alloc.hyps(2)]])
  next
    case False
    then have "pg = P i" "fr' = fr" using alloc.hyps(2) by (auto simp: alloc_frame_taken)
    with alloc.IH show ?thesis by simp
  qed
next
  case (free P fr i pg fr')
  have pg: "pg = (P i)\<lparr>pg_frame := 0\<rparr>" "fr' = give_frame (unat (pg_frame (P i))) fr"
    using free.hyps(2) by (simp_all add: free_frame_give)
  have upd: "(\<lambda>j. unat (pg_frame ((P(i := pg)) j))) = (\<lambda>j. unat (pg_frame (P j)))(i := 0)"
    using pg(1) by auto
  show ?case
  proof (cases "pg_frame (P i) = 0")
    case True
    then have "fr' = fr" using pg(2) by (simp add: give_frame_def mm_free_frame_def)
    moreover have "(\<lambda>j. unat (pg_frame (P j)))(i := 0) = (\<lambda>j. unat (pg_frame (P j)))"
      using True by auto
    ultimately show ?thesis unfolding upd using free.IH by simp
  next
    case False
    then have "unat (pg_frame (P i)) \<noteq> 0" by (simp add: unat_eq_0)
    then show ?thesis unfolding upd pg(2) using fpool.owned_give [OF free.IH] by simp
  qed
qed

text \<open>A machine with 512 MB whose memory is all zero at boot.\<close>

definition frames0 :: frames where
  "frames0 = mm_init 0x20000000 0x100000
     \<lparr>mem_bitmap = 0, total_memory = 0, total_blocks = 0, used_blocks = 0, fr_mem = (\<lambda>_. 0)\<rparr>"

lemma frames0_free: "free_frames frames0 = {..<0x10000}"
proof -
  have "frame_bit frames0 k \<longleftrightarrow> 0x10000 \<le> k" if "k < 0x20000" for k
    using that by (auto simp: frames0_def mm_init_bit PAGE_SIZE_def less_mult_imp_div_less)
  then show ?thesis by (auto simp: free_frames_def frames0_def PAGE_SIZE_def)
qed

lemma frames0_ok: "frames_ok frames0"
  unfolding frames0_def by (rule mm_init_ok)

lemma frames0_first:
  obtains fr' where "mm_alloc_frame zero_page ker wr frames0 = Inr (taken_page zero_page ker wr 0, fr')"
    and "free_frames fr' = {0<..<0x10000}" and "frames_ok fr'"
proof -
  have m: "Min {..<0x10000 :: nat} = 0" by (rule Min_eqI) auto
  have d: "{..<0x10000} - {0} = {0<..<0x10000 :: nat}" by auto
  show ?thesis
    by (rule mm_alloc_frame_some [of zero_page frames0 ker wr, unfolded frames0_free m d])
      (auto simp: frames0_ok lessThan_empty_iff intro: that)
qed

text \<open>The second frame handed out is frame 1, so the second entry really owns it.\<close>

lemma frames0_two:
  obtains fr1 fr2 where "mm_alloc_frame zero_page True True frames0 = Inr (taken_page zero_page True True 0, fr1)"
    and "mm_alloc_frame zero_page True True fr1 = Inr (taken_page zero_page True True 1, fr2)"
proof -
  obtain fr1 where fr1: "mm_alloc_frame zero_page True True frames0 = Inr (taken_page zero_page True True 0, fr1)"
    "free_frames fr1 = {0<..<0x10000}" "frames_ok fr1" by (rule frames0_first)
  have "Min {0<..<0x10000 :: nat} = 1" by (rule Min_eqI) auto
  moreover have "1 \<in> {0<..<0x10000 :: nat}" by simp
  then have "{0<..<0x10000 :: nat} \<noteq> {}" by blast
  ultimately show ?thesis
    using mm_alloc_frame_some [of zero_page fr1 True True, unfolded fr1(2)] fr1(1,3) that
    by (metis zero_page_frame)
qed

text \<open>C4. Whatever sequence of frame allocations and frees follows \<open>mm_init\<close>, two page table
  entries never hold the same physical frame, and a frame held by an entry lies in physical
  memory and is marked used in the bitmap.\<close>

theorem frames_exclusive:
  assumes "pages_reach P fr" and "pg_frame (P i) \<noteq> 0" and "i \<noteq> j"
  shows "pg_frame (P i) \<noteq> pg_frame (P j) \<and> unat (pg_frame (P i)) \<in> used_frames fr"
proof -
  have own: "fpool.owned (\<lambda>i. unat (pg_frame (P i))) fr" using pages_reach_owned [OF assms(1)] .
  have i: "unat (pg_frame (P i)) \<noteq> 0" using assms(2) by (simp add: unat_eq_0)
  show ?thesis
    using fpool.owned_used [OF own] fpool.owned_distinct [OF own assms(3)] i by auto
qed

theorem frames_exclusive_witness:
  "\<exists>P fr. pages_reach P fr \<and> pg_frame (P 1) \<noteq> 0 \<and> pg_frame (P 1) \<noteq> pg_frame (P 0)
     \<and> unat (pg_frame (P 1)) \<in> used_frames fr"
proof -
  obtain fr1 fr2 where a: "mm_alloc_frame zero_page True True frames0 = Inr (taken_page zero_page True True 0, fr1)"
    "mm_alloc_frame zero_page True True fr1 = Inr (taken_page zero_page True True 1, fr2)"
    by (rule frames0_two)
  let ?P0 = "\<lambda>_ :: nat. zero_page"
  have "pages_reach ?P0 frames0" unfolding frames0_def by (rule pages_reach.start) simp
  then have "pages_reach (?P0(0 := taken_page zero_page True True 0)) fr1"
    by (rule pages_reach.alloc [where i = 0]) (use a(1) in simp)
  then have "pages_reach (?P0(0 := taken_page zero_page True True 0, 1 := taken_page zero_page True True 1)) fr2"
    by (rule pages_reach.alloc [where i = 1]) (use a(2) in simp)
  with frames_exclusive [OF this, of 1 0] show ?thesis
    by (intro exI [of _ "?P0(0 := taken_page zero_page True True 0, 1 := taken_page zero_page True True 1)"]
        exI [of _ fr2]) (simp add: taken_page_def)
qed

text \<open>C18. \<open>mm_alloc_frame\<close> on an entry without a frame gives it the lowest free frame, marks exactly
  that frame used, sets the flags the caller asks for and counts it; when no frame is free it
  panics. In the word of the entry the processor finds these flags and the frame at their bits.
  (The entry that gets frame 0 still looks unallocated.)\<close>

theorem mm_alloc_frame_lowest:
  assumes "pg_frame pg = 0" and "frames_ok fr"
  shows "case mm_alloc_frame pg ker wr fr of
      Inl msg \<Rightarrow> free_frames fr = {} \<and> msg = bytes ''Out of memory''
    | Inr (pg', fr') \<Rightarrow>
        unat (pg_frame pg') \<in> free_frames fr \<and> (\<forall>k \<in> free_frames fr. unat (pg_frame pg') \<le> k)
        \<and> free_frames fr' = free_frames fr - {unat (pg_frame pg')}
        \<and> used_frames fr' = insert (unat (pg_frame pg')) (used_frames fr)
        \<and> used_blocks fr' = used_blocks fr + 1
        \<and> pg_present pg' \<and> pg_rw pg' = wr \<and> pg_user pg' = (\<not> ker)
        \<and> page_word pg' AND PAGE_PRESENT \<noteq> 0 \<and> (page_word pg' AND PAGE_RW \<noteq> 0) = wr
        \<and> (page_word pg' AND PAGE_USER \<noteq> 0) = (\<not> ker) \<and> drop_bit 12 (page_word pg') = ucast (pg_frame pg')"
proof (cases "free_frames fr = {}")
  case True
  then show ?thesis by (simp add: mm_alloc_frame_none assms(1))
next
  case False
  show ?thesis
    by (rule mm_alloc_frame_some [OF assms(1) False assms(2), of ker wr])
      (simp add: taken_page_def unat_frame page_word_flags page_word_frame)
qed

theorem mm_alloc_frame_lowest_witness:
  "\<exists>pg' fr'. mm_alloc_frame zero_page False True frames0 = Inr (pg', fr') \<and> pg_user pg'
     \<and> pg_frame pg' = 0"
  using mm_alloc_frame_lowest [where pg = zero_page and fr = frames0 and ker = False and wr = True] frames0_ok
  by (auto simp: frames0_free unat_eq_0 lessThan_empty_iff dest: bspec [of _ _ 0] split: sum.splits)

text \<open>The counters of \<open>mm_init\<close> are inverted: after it, exactly the first 65536 frames are
  free in the bitmap and every other frame its byte count reaches is used, while
  \<open>used_blocks\<close> says that 65536 frames are used. On a machine with less than 256 MB,
  \<open>mm_get_free_memory\<close> wraps around.\<close>

theorem mm_init_inverted:
  assumes "k < 8 * (unat (sz div PAGE_SIZE) div 8)"
  shows "(k \<in> used_frames (mm_init sz bitmap fr) \<longleftrightarrow> 65536 \<le> k)
    \<and> (k \<in> free_frames (mm_init sz bitmap fr) \<longleftrightarrow> k < 65536)
    \<and> mm_get_used_memory (mm_init sz bitmap fr) = 65536 * PAGE_SIZE
    \<and> mm_get_free_memory (mm_init sz bitmap fr) = sz div PAGE_SIZE * PAGE_SIZE - 65536 * PAGE_SIZE"
proof -
  have k: "k div 8 < unat (sz div PAGE_SIZE) div 8" "k < unat (sz div PAGE_SIZE)"
    using assms by (auto simp: less_mult_imp_div_less mult.commute)
  moreover have "k < 2 ^ 35" using k(2) unat_u32_less [of "sz div PAGE_SIZE"] by simp
  ultimately show ?thesis
    by (auto simp: used_frames_def free_frames_def mm_init_bit mm_get_used_memory_def
        mm_get_free_memory_def algebra_simps)
qed

theorem mm_init_inverted_witness:
  "100 \<in> free_frames frames0 \<and> 70000 \<in> used_frames frames0"
  using mm_init_inverted [of 100 "0x20000000"] mm_init_inverted [of 70000 "0x20000000"]
  by (simp add: frames0_def PAGE_SIZE_def)

text \<open>\<open>mm_init\<close> always clears the 8192 bytes from the address of its bitmap, however
  small the memory is; \<open>kernel_main\<close> passes 0x100000, where the linker script puts the kernel
  image.\<close>

theorem mm_init_clears_image:
  "bytes_at (fr_mem (mm_init sz 0x100000 fr)) 0x100000 8192 = replicate 8192 0"
proof (rule nth_equalityI)
  fix i assume "i < length (bytes_at (fr_mem (mm_init sz 0x100000 fr)) 0x100000 8192)"
  then have i: "i < 8192" by simp
  have "\<not> bit (fr_mem (mm_init sz 0x100000 fr) (0x100000 + of_nat i)) b" if "b < 8" for b
  proof -
    have "(8 * i + b) div 8 = i" "(8 * i + b) mod 8 = b" "8 * i + b < 65536" using that i by auto
    then show ?thesis
      using mm_init_bit [of "8 * i + b" sz "0x100000" fr] by (simp add: frame_bit_def)
  qed
  then have "fr_mem (mm_init sz 0x100000 fr) (0x100000 + of_nat i) = 0"
    by (intro bit_word_eqI) simp
  then show "bytes_at (fr_mem (mm_init sz 0x100000 fr)) 0x100000 8192 ! i = replicate 8192 0 ! i"
    using i by simp
qed simp

end
