(* ===== verification/Ports.thy ===== *)
theory Ports
  imports Prelude
begin

text \<open>
  The port instructions of \<open>kernel/kernel.c\<close>. The devices behind the ports are not part of
  the source: a device is a function \<open>dev\<close> from the accesses so far (latest last) and a port
  to the value it answers, and every driver takes it as an argument. The accesses of a run are
  its trace.
\<close>

datatype access = Out8 u16 u8 | In8 u16 u8 | Out16 u16 u16 | In16 u16 u16

type_synonym trace = "access list"
type_synonym device = "trace \<Rightarrow> u16 \<Rightarrow> u16"

definition outb :: "u16 \<Rightarrow> u8 \<Rightarrow> trace \<Rightarrow> trace" where
  "outb port v tr = tr @ [Out8 port v]"

definition inb :: "device \<Rightarrow> u16 \<Rightarrow> trace \<Rightarrow> u8 \<times> trace" where
  "inb dev port tr = (let v = ucast (dev tr port) in (v, tr @ [In8 port v]))"

definition outw :: "u16 \<Rightarrow> u16 \<Rightarrow> trace \<Rightarrow> trace" where
  "outw port v tr = tr @ [Out16 port v]"

definition inw :: "device \<Rightarrow> u16 \<Rightarrow> trace \<Rightarrow> u16 \<times> trace" where
  "inw dev port tr = (let v = dev tr port in (v, tr @ [In16 port v]))"

lemmas port_defs = outb_def inb_def outw_def inw_def

end
