(* ===== verification/Interrupts.thy ===== *)
theory Interrupts
  imports Ports
begin

text \<open>
  Interrupt dispatch: the handler table and the two dispatchers of \<open>arch/x86_64/isr.c\<close>, the
  programming of the two interrupt controllers, and the stack frame that the stubs of
  \<open>arch/x86_64/irq.s\<close> build for the dispatchers. A handler is a value of a type \<open>'h\<close>, the
  null function pointer is \<open>None\<close>.
\<close>

subsection \<open>The register frame\<close>

record registers =
  r_ds :: u32
  r_edi :: u32
  r_esi :: u32
  r_ebp :: u32
  r_esp :: u32
  r_ebx :: u32
  r_edx :: u32
  r_ecx :: u32
  r_eax :: u32
  r_int_no :: u32
  r_err_code :: u32
  r_eip :: u32
  r_cs :: u32
  r_eflags :: u32
  r_useresp :: u32
  r_ss :: u32

text \<open>The struct laid over 16 words of memory, lowest address first.\<close>

fun registers_of :: "u32 list \<Rightarrow> registers option" where
  "registers_of [w0, w1, w2, w3, w4, w5, w6, w7, w8, w9, w10, w11, w12, w13, w14, w15] =
     Some \<lparr>r_ds = w0, r_edi = w1, r_esi = w2, r_ebp = w3, r_esp = w4, r_ebx = w5, r_edx = w6,
       r_ecx = w7, r_eax = w8, r_int_no = w9, r_err_code = w10, r_eip = w11, r_cs = w12,
       r_eflags = w13, r_useresp = w14, r_ss = w15\<rparr>"
| "registers_of _ = None"

text \<open>The machine registers when the interrupt arrives.\<close>

record cpu =
  c_eax :: u32
  c_ebx :: u32
  c_ecx :: u32
  c_edx :: u32
  c_esi :: u32
  c_edi :: u32
  c_ebp :: u32
  c_esp :: u32
  c_ds :: u32
  c_es :: u32
  c_fs :: u32
  c_gs :: u32
  c_eip :: u32
  c_cs :: u32
  c_eflags :: u32

text \<open>
  A push puts its word in front. The processor pushes \<open>eflags\<close>, \<open>cs\<close>, \<open>eip\<close> and, for some
  exceptions, an error code; \<open>push byte\<close> sign-extends; \<open>pusha\<close> stores \<open>esp\<close> as it was
  before it; \<open>esp\<close> is the value after the pushes of the processor and the stub's own two.
\<close>

definition push_byte :: "u8 \<Rightarrow> u32 list \<Rightarrow> u32 list" where
  "push_byte b st = scast b # st"

definition cpu_pushes :: "cpu \<Rightarrow> u32 list \<Rightarrow> u32 list" where
  "cpu_pushes c st = c_eip c # c_cs c # c_eflags c # st"

definition pusha :: "cpu \<Rightarrow> u32 \<Rightarrow> u32 list \<Rightarrow> u32 list" where
  "pusha c sp st = c_edi c # c_esi c # c_ebp c # sp # c_ebx c # c_edx c # c_ecx c # c_eax c # st"

definition push_segments :: "cpu \<Rightarrow> u32 list \<Rightarrow> u32 list" where
  "push_segments c st = c_gs c # c_fs c # c_es c # c_ds c # st"

definition common_stub :: "cpu \<Rightarrow> u32 list \<Rightarrow> u32 list" where
  "common_stub c st = push_segments c (pusha c (c_esp c - 4 * of_nat 5) st)"

definition irq_stub :: "u8 \<Rightarrow> cpu \<Rightarrow> u32 list \<Rightarrow> u32 list" where
  "irq_stub n c st = common_stub c (push_byte n (push_byte 0 (cpu_pushes c st)))"

definition isr_noerr_stub :: "u8 \<Rightarrow> cpu \<Rightarrow> u32 list \<Rightarrow> u32 list" where
  "isr_noerr_stub n c st = common_stub c (push_byte n (push_byte 0 (cpu_pushes c st)))"

definition isr_err_stub :: "u8 \<Rightarrow> u32 \<Rightarrow> cpu \<Rightarrow> u32 list \<Rightarrow> u32 list" where
  "isr_err_stub n err c st = common_stub c (push_byte n (err # cpu_pushes c st))"

definition isr128 :: "cpu \<Rightarrow> u32 list \<Rightarrow> u32 list" where
  "isr128 c st = common_stub c (push_byte 128 (push_byte 0 (cpu_pushes c st)))"

subsection \<open>The handler table\<close>

type_synonym 'h handlers = "u8 \<Rightarrow> 'h option"

text \<open>
  The table has 256 entries and the dispatchers index it with a 32-bit \<open>int_no\<close>. An index
  past the table reads whatever lies behind it: the result \<open>Wild\<close>.
\<close>

datatype 'h dispatch = Idle | Call 'h registers | Wild

definition isr_handler :: "registers \<Rightarrow> 'h handlers \<Rightarrow> 'h dispatch" where
  "isr_handler regs H =
     (if r_int_no regs < 256
      then case H (ucast (r_int_no regs)) of None \<Rightarrow> Idle | Some h \<Rightarrow> Call h regs
      else Wild)"

definition isr_register_handler :: "u8 \<Rightarrow> 'h option \<Rightarrow> 'h handlers \<Rightarrow> 'h handlers" where
  "isr_register_handler n h H = H(n := h)"

definition isr_init :: "'h handlers \<Rightarrow> 'h handlers" where
  "isr_init H = (\<lambda>_. None)"

definition irq_handler :: "registers \<Rightarrow> 'h handlers \<Rightarrow> trace \<Rightarrow> 'h dispatch \<times> trace" where
  "irq_handler regs H tr =
     (let tr1 = (if r_int_no regs \<ge> 40 then outb 0xA0 0x20 tr else tr);
          tr2 = outb 0x20 0x20 tr1
      in (if r_int_no regs < 256
          then case H (ucast (r_int_no regs)) of None \<Rightarrow> Idle | Some h \<Rightarrow> Call h regs
          else Wild, tr2))"

definition irq_init :: "trace \<Rightarrow> trace" where
  "irq_init tr = fold (\<lambda>(port, v). outb port v)
     [(0x20, 0x11), (0xA0, 0x11), (0x21, 0x20), (0xA1, 0x28), (0x21, 0x04), (0xA1, 0x02),
      (0x21, 0x01), (0xA1, 0x01), (0x21, 0x00), (0xA1, 0x00)] tr"

text \<open>The handler number is an \<open>int\<close>; the callers of the source pass 0 to 15.\<close>

definition irq_install_handler :: "nat \<Rightarrow> 'h option \<Rightarrow> 'h handlers \<Rightarrow> 'h handlers" where
  "irq_install_handler irq h H = H(of_nat (irq + 32) := h)"

definition irq_uninstall_handler :: "nat \<Rightarrow> 'h handlers \<Rightarrow> 'h handlers" where
  "irq_uninstall_handler irq H = H(of_nat (irq + 32) := None)"

text \<open>The messages of the exceptions, which no code prints.\<close>

definition exception_messages :: "string list" where
  "exception_messages = [''Division By Zero'', ''Debug'', ''Non Maskable Interrupt'', ''Breakpoint'', ''Overflow'',
     ''Bound Range Exceeded'', ''Invalid Opcode'', ''Device Not Available'', ''Double Fault'',
     ''Coprocessor Segment Overrun'', ''Invalid TSS'', ''Segment Not Present'', ''Stack Fault'',
     ''General Protection Fault'', ''Page Fault'', ''Unknown Interrupt'', ''Coprocessor Fault'', ''Alignment Check'',
     ''Machine Check'', ''SIMD Floating-Point Exception'', ''Virtualization Exception'',
     ''Control Protection Exception''] @ replicate 10 ''Reserved''"

lemma exception_messages: "length exception_messages = 32"
  by (simp add: exception_messages_def)

subsection \<open>Properties\<close>

text \<open>C19. The struct that the dispatchers lay over the stub's frame is three words too short: the
  stubs push four segment registers and \<open>registers_t\<close> has one. So the interrupt number the
  dispatchers read is the interrupted program's \<open>edx\<close>, its \<open>eax\<close> reads as \<open>ebx\<close>, and the
  number pushed by the stub is read as \<open>cs\<close>.\<close>

theorem dispatch_reads_edx:
  "\<exists>r. registers_of (take 16 (irq_stub n c st)) = Some r \<and> r_int_no r = c_edx c
     \<and> r_eax r = c_ebx c \<and> r_cs r = scast n
     \<and> irq_handler r H tr
         = (if c_edx c < 256 then (case H (ucast (c_edx c)) of None \<Rightarrow> Idle | Some h \<Rightarrow> Call h r) else Wild,
            tr @ (if c_edx c \<ge> 40 then [Out8 0xA0 0x20] else []) @ [Out8 0x20 0x20])"
  by (simp add: irq_stub_def common_stub_def push_segments_def pusha_def push_byte_def cpu_pushes_def
      irq_handler_def port_defs)

text \<open>A frame that does carry the number \<open>n + 32\<close> reaches the handler installed for
  interrupt request \<open>n\<close>, and no other, after the end-of-interrupt commands: to the slave
  controller exactly when the request is its, to the master always. An uninstalled handler is
  not called.\<close>

theorem irq_install_dispatch:
  assumes "n < 16" and "m < 16" and "r_int_no regs = of_nat (m + 32)"
  shows "irq_handler regs (irq_install_handler n (Some h) H) tr
      = (if m = n then Call h regs else fst (irq_handler regs H tr),
         tr @ (if 8 \<le> m then [Out8 0xA0 0x20] else []) @ [Out8 0x20 0x20])
    \<and> fst (irq_handler regs (irq_uninstall_handler m H) tr) = Idle"
proof -
  have "(of_nat (m + 32) :: u32) < 256" "(of_nat (m + 32) :: u32) \<ge> 40 \<longleftrightarrow> 8 \<le> m"
    "unat (of_nat (m + 32) :: u32) = m + 32"
    using assms by (simp_all add: word_less_nat_alt word_le_nat_alt unat_of_nat del: of_nat_add)
  moreover have "(ucast (of_nat (m + 32) :: u32) :: u8) = of_nat (m + 32)"
    using assms(2) by (simp add: word_unat_eq_iff unat_of_nat unsigned_ucast_eq take_bit_eq_mod del: of_nat_add)
  moreover have "(of_nat (m + 32) :: u8) = of_nat (n + 32) \<longleftrightarrow> m = n"
    using assms by (simp add: word_unat_eq_iff unat_of_nat del: of_nat_add)
  ultimately show ?thesis
    unfolding irq_handler_def irq_install_handler_def irq_uninstall_handler_def outb_def assms(3) Let_def
    by (simp del: of_nat_add)
qed

theorem irq_install_dispatch_witness:
  "\<exists>regs. fst (irq_handler regs (irq_install_handler 1 (Some True) (\<lambda>_. None)) []) = Call True regs"
proof -
  obtain regs :: registers where "r_int_no regs = of_nat (1 + 32)"
    by (metis registers.select_convs(10))
  then show ?thesis
    using irq_install_dispatch [of 1 1 regs True "\<lambda>_. None" "[]"] by (intro exI [of _ regs]) simp
qed

end
