(* ===== verification/Paging.thy ===== *)
theory Paging
  imports FramePool Allocator Interrupts
begin

text \<open>
  Paging in \<open>kernel/mm.c\<close>: page tables and directories allocated on the kernel heap, the page
  walk, the kernel's own mapping and the copying of a directory. Tables and directories are
  kept in two typed stores, indexed by the address \<open>kmalloc\<close> returned. The theorems show that
  the mapping of the kernel never ends in success: its bound grows with every frame it takes.
\<close>

subsection \<open>State\<close>

record page_directory =
  pd_tables :: "nat \<Rightarrow> ptr"
  pd_tables_physical :: "nat \<Rightarrow> u32"
  pd_physical :: u32

record 'h mm =
  mm_frames :: frames
  mm_heap :: heap
  mm_ptables :: "ptr \<Rightarrow> nat \<Rightarrow> page"
  mm_dirs :: "ptr \<Rightarrow> page_directory"
  kernel_directory :: ptr
  current_directory :: ptr
  mm_handlers :: "'h handlers"
  cr0 :: u32
  cr3 :: u32

definition zero_directory :: page_directory where
  "zero_directory = \<lparr>pd_tables = (\<lambda>_. 0), pd_tables_physical = (\<lambda>_. 0), pd_physical = 0\<rparr>"

definition SIZEOF_DIRECTORY :: u32 where "SIZEOF_DIRECTORY = 8196"
definition SIZEOF_TABLE :: u32 where "SIZEOF_TABLE = 4096"

definition upd_dir :: "ptr \<Rightarrow> (page_directory \<Rightarrow> page_directory) \<Rightarrow> 'h mm \<Rightarrow> 'h mm" where
  "upd_dir d f st = st\<lparr>mm_dirs := (mm_dirs st)(d := f (mm_dirs st d))\<rparr>"

definition upd_page :: "ptr \<Rightarrow> nat \<Rightarrow> page \<Rightarrow> 'h mm \<Rightarrow> 'h mm" where
  "upd_page t j pg st = st\<lparr>mm_ptables := (mm_ptables st)(t := (mm_ptables st t)(j := pg))\<rparr>"

subsection \<open>Operations\<close>

text \<open>A \<open>kmalloc\<close> of the family on the heap of the state.\<close>

definition mm_kmalloc_ap :: "u32 \<Rightarrow> 'h mm \<Rightarrow> (ptr \<times> u32 option \<times> 'h mm) panicking option" where
  "mm_kmalloc_ap sz st = map_option (map_sum id (\<lambda>(p, phys, h). (p, phys, st\<lparr>mm_heap := h\<rparr>)))
     (kmalloc_ap sz True (mm_heap st))"

definition mm_kmalloc_a :: "u32 \<Rightarrow> 'h mm \<Rightarrow> (ptr \<times> 'h mm) panicking option" where
  "mm_kmalloc_a sz st = map_option (map_sum id (\<lambda>(p, h). (p, st\<lparr>mm_heap := h\<rparr>))) (kmalloc_a sz (mm_heap st))"

text \<open>
  The result points into a table: its address and the index in it. \<open>tmp\<close> is the value of the
  local variable before \<open>kmalloc_ap\<close> writes it.
\<close>

definition mm_get_page ::
    "u32 \<Rightarrow> bool \<Rightarrow> ptr \<Rightarrow> u32 \<Rightarrow> 'h mm \<Rightarrow> ((ptr \<times> nat) option \<times> 'h mm) panicking option" where
  "mm_get_page addr0 mk dir tmp st =
     (let addr = addr0 div PAGE_SIZE;
          table_idx = unat (addr div 1024)
      in if pd_tables (mm_dirs st dir) table_idx \<noteq> 0
         then preturn (Some (pd_tables (mm_dirs st dir) table_idx, unat (addr mod 1024)), st)
         else if mk
         then pbind (mm_kmalloc_ap SIZEOF_TABLE st) (\<lambda>(p, phys, st1).
           let st2 = upd_dir dir (\<lambda>d. d\<lparr>pd_tables := (pd_tables d)(table_idx := p)\<rparr>) st1;
               st3 = st2\<lparr>mm_ptables := (mm_ptables st2)(p := (\<lambda>_. zero_page))\<rparr>;
               tmp1 = (case phys of None \<Rightarrow> tmp | Some v \<Rightarrow> v);
               st4 = upd_dir dir (\<lambda>d. d\<lparr>pd_tables_physical :=
                 (pd_tables_physical d)(table_idx := tmp1 OR 7)\<rparr>) st3
           in preturn (Some (p, unat (addr mod 1024)), st4))
         else preturn (None, st))"

text \<open>\<open>mm_alloc_frame\<close> and \<open>mm_free_frame\<close> on an entry of the stores.\<close>

definition alloc_frame_at :: "ptr \<times> nat \<Rightarrow> bool \<Rightarrow> bool \<Rightarrow> 'h mm \<Rightarrow> 'h mm panicking option" where
  "alloc_frame_at pg ker wr st =
     (case pg of (t, j) \<Rightarrow>
        Some (map_sum id (\<lambda>(pg', fr'). (upd_page t j pg' st)\<lparr>mm_frames := fr'\<rparr>)
          (mm_alloc_frame (mm_ptables st t j) ker wr (mm_frames st))))"

text \<open>
  The body of both loops of \<open>mm_init_paging\<close>; with \<open>make\<close> set \<open>mm_get_page\<close> never returns
  null.
\<close>

definition map_page :: "u32 \<Rightarrow> u32 \<Rightarrow> 'h mm \<Rightarrow> 'h mm panicking option" where
  "map_page tmp addr st =
     pbind (mm_get_page addr True (kernel_directory st) tmp st) (\<lambda>(pg, st1).
       case pg of None \<Rightarrow> None | Some pg \<Rightarrow> alloc_frame_at pg True True st1)"

partial_function (option) map_low_loop :: "u32 \<Rightarrow> u32 \<Rightarrow> u32 \<Rightarrow> 'h mm \<Rightarrow> 'h mm panicking option" where
  "map_low_loop tmp i addr st =
     (if i < used_blocks (mm_frames st)
      then (case map_page tmp addr st of
              None \<Rightarrow> None
            | Some (Inl msg) \<Rightarrow> Some (Inl msg)
            | Some (Inr st1) \<Rightarrow> map_low_loop tmp (i + 1) (addr + PAGE_SIZE) st1)
      else Some (Inr st))"

fun map_heap_loop :: "u32 \<Rightarrow> u32 list \<Rightarrow> 'h mm \<Rightarrow> 'h mm panicking option" where
  "map_heap_loop tmp [] st = preturn st"
| "map_heap_loop tmp (a # as) st = pbind (map_page tmp a st) (map_heap_loop tmp as)"

definition heap_pages :: "u32 list" where
  "heap_pages = map (\<lambda>k. KERNEL_HEAP_START + of_nat k * PAGE_SIZE)
     [0..<unat (KERNEL_HEAP_SIZE div PAGE_SIZE)]"

definition mm_switch_page_directory :: "ptr \<Rightarrow> 'h mm \<Rightarrow> 'h mm" where
  "mm_switch_page_directory dir st =
     (let st1 = st\<lparr>current_directory := dir, cr3 := pd_physical (mm_dirs st dir)\<rparr>
      in st1\<lparr>cr0 := cr0 st1 OR 0x80000000\<rparr>)"

definition clear_entry :: "ptr \<Rightarrow> nat \<Rightarrow> 'h mm \<Rightarrow> 'h mm" where
  "clear_entry d i = upd_dir d (\<lambda>pd. pd\<lparr>pd_tables := (pd_tables pd)(i := 0),
     pd_tables_physical := (pd_tables_physical pd)(i := 0)\<rparr>)"

definition mm_init_paging :: "u32 \<Rightarrow> 'h mm \<Rightarrow> 'h mm panicking option" where
  "mm_init_paging tmp st =
     pbind (mm_kmalloc_a SIZEOF_DIRECTORY st) (\<lambda>(kd, st1).
       let st2 = st1\<lparr>kernel_directory := kd\<rparr>;
           st3 = upd_dir kd (\<lambda>_. zero_directory) st2;
           st4 = upd_dir kd (\<lambda>d. d\<lparr>pd_physical := kd + 4096\<rparr>) st3;
           st5 = fold (clear_entry kd) [0..<1024] st4
       in pbind (map_low_loop tmp 0 0 st5) (\<lambda>st6.
          pbind (map_heap_loop tmp heap_pages st6) (\<lambda>st7.
            let st8 = st7\<lparr>mm_handlers := isr_register_handler 14 None (mm_handlers st7)\<rparr>
            in preturn (mm_switch_page_directory (kernel_directory st8) st8))))"

text \<open>
  Copying one page: \<open>table\<close> is the new table, already a copy of \<open>old\<close>. A frame number is
  widened to 32 bits and multiplied by the page size.
\<close>

definition frame_addr :: "page \<Rightarrow> ptr" where
  "frame_addr pg = ucast (pg_frame pg) * PAGE_SIZE"

definition clone_page :: "ptr \<Rightarrow> ptr \<Rightarrow> nat \<Rightarrow> 'h mm \<Rightarrow> 'h mm panicking option" where
  "clone_page table old j st =
     (if pg_frame (mm_ptables st old j) \<noteq> 0
      then
        let tmp_frame = pg_frame (mm_ptables st old j);
            st1 = upd_page old j ((mm_ptables st old j)\<lparr>pg_frame := 0\<rparr>) st
        in pbind (alloc_frame_at (table, j) False (pg_rw (mm_ptables st1 old j)) st1) (\<lambda>st2.
             let phys_addr = ucast tmp_frame * PAGE_SIZE;
                 fr = mm_frames st2;
                 fr1 = fr\<lparr>fr_mem := fst (memcpy (fr_mem fr) (frame_addr (mm_ptables st2 table j)) phys_addr PAGE_SIZE)\<rparr>;
                 st3 = st2\<lparr>mm_frames := fr1\<rparr>
             in preturn (upd_page old j ((mm_ptables st3 old j)\<lparr>pg_frame := tmp_frame\<rparr>) st3))
      else preturn st)"

fun clone_pages :: "ptr \<Rightarrow> ptr \<Rightarrow> nat list \<Rightarrow> 'h mm \<Rightarrow> 'h mm panicking option" where
  "clone_pages table old [] st = preturn st"
| "clone_pages table old (j # js) st = pbind (clone_page table old j st) (clone_pages table old js)"

text \<open>One iteration over the 1024 tables of a directory.\<close>

definition clone_table :: "ptr \<Rightarrow> nat \<Rightarrow> 'h mm \<Rightarrow> 'h mm panicking option" where
  "clone_table dir i st =
     (let kt = pd_tables (mm_dirs st (kernel_directory st)) i;
          ct = pd_tables (mm_dirs st (current_directory st)) i
      in if kt = 0 then preturn st
         else if kt = ct
         then preturn (upd_dir dir (\<lambda>d. d\<lparr>pd_tables := (pd_tables d)(i := kt),
                pd_tables_physical := (pd_tables_physical d)
                  (i := pd_tables_physical (mm_dirs st (kernel_directory st)) i)\<rparr>) st)
         else pbind (mm_kmalloc_ap SIZEOF_TABLE st) (\<lambda>(table, phys, st1).
           let st2 = (case phys of None \<Rightarrow> st1 | Some v \<Rightarrow>
                 upd_dir dir (\<lambda>d. d\<lparr>pd_tables_physical := (pd_tables_physical d)(i := v)\<rparr>) st1);
               st3 = st2\<lparr>mm_ptables := (mm_ptables st2)(table := mm_ptables st2 ct)\<rparr>
           in pbind (clone_pages table ct [0..<1024] st3) (\<lambda>st4.
                preturn (upd_dir dir (\<lambda>d. d\<lparr>pd_tables := (pd_tables d)(i := table)\<rparr>) st4))))"

fun clone_tables :: "ptr \<Rightarrow> nat list \<Rightarrow> 'h mm \<Rightarrow> 'h mm panicking option" where
  "clone_tables dir [] st = preturn st"
| "clone_tables dir (i # is) st = pbind (clone_table dir i st) (clone_tables dir is)"

text \<open>
  The physical address is stored through the variable \<open>dir\<close> before it has a value:
  \<open>dir0\<close> is what the variable holds then.
\<close>

definition mm_clone_directory :: "ptr \<Rightarrow> 'h mm \<Rightarrow> (ptr \<times> 'h mm) panicking option" where
  "mm_clone_directory dir0 st =
     pbind (mm_kmalloc_ap SIZEOF_DIRECTORY st) (\<lambda>(dir, phys, st1).
       let st2 = (case phys of None \<Rightarrow> st1 | Some v \<Rightarrow> upd_dir dir0 (\<lambda>d. d\<lparr>pd_physical := v\<rparr>) st1);
           st3 = upd_dir dir (\<lambda>_. zero_directory) st2
       in pbind (clone_tables dir [0..<1024] st3) (\<lambda>st4. preturn (dir, st4)))"

subsection \<open>The mapping of the kernel\<close>

text \<open>A heap whose last block is free and still has room for \<open>n\<close> bytes besides its header.\<close>

definition tail_room :: "nat \<Rightarrow> heap \<Rightarrow> bool" where
  "tail_room n h \<longleftrightarrow> (\<exists>a. heap_tail a h \<and> a + 16 + n \<le> HEAP_TOP)"

lemma tail_room_mono: "tail_room n h \<Longrightarrow> m \<le> n \<Longrightarrow> tail_room m h"
  by (fastforce simp: tail_room_def)

lemma kmalloc_ap_tail:
  assumes room: "tail_room (n + 24 + k) h" and n: "0 < n" and n32: "n + 16 < 2 ^ 32"
  obtains p h' where "kmalloc_ap (of_nat n) phys h = Some (Inr (p, if phys then Some p else None, h'))"
    and "tail_room k h'" and "p \<noteq> 0"
proof -
  obtain a where a: "heap_tail a h" "a + 16 + (n + 24 + k) \<le> HEAP_TOP"
    using room by (auto simp: tail_room_def)
  obtain h' where "kmalloc_ap (of_nat n) phys h
      = Some (Inr (of_nat (a + 16), if phys then Some (of_nat (a + 16)) else None, h'))"
    "heap_tail (a + 16 + n) h'" "(of_nat (a + 16) :: ptr) \<noteq> 0"
    by (rule kmalloc_bump [OF a(1) n, of phys]) (use a(2) in auto)
  with a(2) show ?thesis by (intro that) (auto simp: tail_room_def)
qed

lemma tail_room_boot: "tail_room 16777200 (heap_boot B)"
  unfolding tail_room_def using heap_tail_boot by (fastforce simp: HEAP_BASE_def HEAP_TOP_def)

text \<open>The state before the mapping loop takes page \<open>i\<close>: \<open>i\<close> frames have been taken and counted.\<close>

definition mapped :: "nat \<Rightarrow> 'h mm \<Rightarrow> bool" where
  "mapped i st \<longleftrightarrow>
     (let q = i div 1024; D = pd_tables (mm_dirs st (kernel_directory st))
      in frames_ok (mm_frames st) \<and> i + card (free_frames (mm_frames st)) < 2 ^ 20
       \<and> used_blocks (mm_frames st) = 0x10000 + of_nat i \<and> (\<forall>t > q. D t = 0)
       \<and> (if i mod 1024 = 0
          then D q = 0 \<and> tail_room ((1024 - q) * 4120) (mm_heap st)
          else D q \<noteq> 0 \<and> (\<forall>j \<ge> i mod 1024. pg_frame (mm_ptables st (D q) j) = 0)
               \<and> tail_room ((1023 - q) * 4120) (mm_heap st)))"

lemma page_numbers:
  assumes "i < 2 ^ 20"
  shows "unat ((of_nat i * PAGE_SIZE) div PAGE_SIZE div 1024) = i div 1024"
    and "unat ((of_nat i * PAGE_SIZE) div PAGE_SIZE mod 1024) = i mod 1024"
proof -
  have "unat (of_nat i * PAGE_SIZE) = i * 4096"
    using assms by (simp add: PAGE_SIZE_def unat_word_ariths unat_of_nat)
  then show "unat ((of_nat i * PAGE_SIZE) div PAGE_SIZE div 1024) = i div 1024"
    and "unat ((of_nat i * PAGE_SIZE) div PAGE_SIZE mod 1024) = i mod 1024"
    by (simp_all add: PAGE_SIZE_def unat_div unat_mod)
qed

text \<open>The page walk finds or makes the table of page \<open>i\<close>.\<close>

lemma get_page_mapped:
  assumes m: "mapped i st"
  obtains t st1 where
    "mm_get_page (of_nat i * PAGE_SIZE) True (kernel_directory st) tmp st
       = Some (Inr (Some (t, i mod 1024), st1))"
    and "mm_frames st1 = mm_frames st" and "kernel_directory st1 = kernel_directory st"
    and "pd_tables (mm_dirs st1 (kernel_directory st)) (i div 1024) = t" and "t \<noteq> 0"
    and "\<forall>u > i div 1024. pd_tables (mm_dirs st1 (kernel_directory st)) u = 0"
    and "\<forall>j \<ge> i mod 1024. pg_frame (mm_ptables st1 t j) = 0"
    and "tail_room ((1023 - i div 1024) * 4120) (mm_heap st1)"
proof (cases "i mod 1024 = 0")
  case True
  have i: "i < 2 ^ 20" using m by (auto simp: mapped_def Let_def)
  then have q: "i div 1024 < 1024" by (simp add: less_mult_imp_div_less)
  have room: "tail_room ((1024 - i div 1024) * 4120) (mm_heap st)"
    and D0: "pd_tables (mm_dirs st (kernel_directory st)) (i div 1024) = 0"
    using m True by (auto simp: mapped_def Let_def)
  have "(1024 - i div 1024) * 4120 = 4096 + 24 + (1023 - i div 1024) * 4120" using q by simp
  then obtain p h' where p: "kmalloc_ap (of_nat 4096) True (mm_heap st) = Some (Inr (p, Some p, h'))"
    "tail_room ((1023 - i div 1024) * 4120) h'" "p \<noteq> 0"
    using kmalloc_ap_tail [of 4096 "(1023 - i div 1024) * 4120" "mm_heap st" True] room by auto
  have k: "mm_kmalloc_ap SIZEOF_TABLE st = Some (Inr (p, Some p, st\<lparr>mm_heap := h'\<rparr>))"
    using p(1) by (simp add: mm_kmalloc_ap_def SIZEOF_TABLE_def)
  show ?thesis
    using that [of p] D0 k p(2,3) m
    by (simp add: mm_get_page_def Let_def page_numbers [OF i] preturn_def upd_dir_def mapped_def True)
next
  case False
  have i: "i < 2 ^ 20" using m by (auto simp: mapped_def Let_def)
  show ?thesis
    using that [of _ st] m False
    by (simp add: mm_get_page_def Let_def page_numbers [OF i] preturn_def mapped_def)
qed

lemma map_page_panics:
  assumes "mapped i st" and "free_frames (mm_frames st) = {}"
  shows "map_page tmp (of_nat i * PAGE_SIZE) st = Some (Inl (bytes ''Out of memory''))"
  by (rule get_page_mapped [OF assms(1), of tmp])
    (simp add: map_page_def alloc_frame_at_def mm_alloc_frame_none assms(2))

lemma map_page_mapped:
  assumes m: "mapped i st" and ne: "free_frames (mm_frames st) \<noteq> {}"
  obtains st' where "map_page tmp (of_nat i * PAGE_SIZE) st = Some (Inr st')" and "mapped (Suc i) st'"
    and "card (free_frames (mm_frames st)) = Suc (card (free_frames (mm_frames st')))"
proof -
  have ok: "frames_ok (mm_frames st)" using m by (auto simp: mapped_def Let_def)
  obtain t st1 where g:
    "mm_get_page (of_nat i * PAGE_SIZE) True (kernel_directory st) tmp st
       = Some (Inr (Some (t, i mod 1024), st1))"
    "mm_frames st1 = mm_frames st" "kernel_directory st1 = kernel_directory st"
    "pd_tables (mm_dirs st1 (kernel_directory st)) (i div 1024) = t" "t \<noteq> 0"
    "\<forall>u > i div 1024. pd_tables (mm_dirs st1 (kernel_directory st)) u = 0"
    "\<forall>j \<ge> i mod 1024. pg_frame (mm_ptables st1 t j) = 0"
    "tail_room ((1023 - i div 1024) * 4120) (mm_heap st1)"
    using m by (rule get_page_mapped)
  define k where "k = Min (free_frames (mm_frames st))"
  define pg where "pg = taken_page (mm_ptables st1 t (i mod 1024)) True True k"
  have pg0: "pg_frame (mm_ptables st1 t (i mod 1024)) = 0" using g(7) by simp
  obtain fr' where fr': "mm_alloc_frame (mm_ptables st1 t (i mod 1024)) True True (mm_frames st) = Inr (pg, fr')"
    "free_frames fr' = free_frames (mm_frames st) - {k}" "frames_ok fr'"
    "used_blocks fr' = used_blocks (mm_frames st) + 1" "k \<in> free_frames (mm_frames st)"
    unfolding k_def pg_def by (rule mm_alloc_frame_some [OF pg0 ne ok])
  define st' where "st' = (upd_page t (i mod 1024) pg st1)\<lparr>mm_frames := fr'\<rparr>"
  have run: "map_page tmp (of_nat i * PAGE_SIZE) st = Some (Inr st')"
    using g(1,2) fr'(1) by (simp add: map_page_def alloc_frame_at_def st'_def)
  have card: "card (free_frames (mm_frames st)) = Suc (card (free_frames fr'))"
    using card_Suc_Diff1 [OF frames_finite(1) fr'(5)] fr'(2) by simp
  have same: "kernel_directory st' = kernel_directory st" "mm_dirs st' = mm_dirs st1"
    "mm_heap st' = mm_heap st1" "mm_frames st' = fr'"
    "\<forall>j > i mod 1024. pg_frame (mm_ptables st' t j) = 0"
    using g(3,7) by (auto simp: st'_def upd_page_def)
  have "mapped (Suc i) st'"
  proof (cases "Suc i mod 1024 = 0")
    case True
    then have "Suc i div 1024 = Suc (i div 1024)" by (simp add: div_Suc)
    then show ?thesis
      using m g fr'(3,4) card True by (simp add: mapped_def Let_def same)
  next
    case False
    then have "Suc i div 1024 = i div 1024" "Suc i mod 1024 = Suc (i mod 1024)"
      by (auto simp: div_Suc mod_Suc split: if_splits)
    then show ?thesis
      using m g same(5) fr'(3,4) card by (simp add: mapped_def Let_def same(1-4))
  qed
  with that run card same(4) show ?thesis by simp
qed

lemma map_low_panics:
  "mapped i st \<Longrightarrow>
    map_low_loop tmp (of_nat i) (of_nat i * PAGE_SIZE) st = Some (Inl (bytes ''Out of memory''))"
proof (induction "card (free_frames (mm_frames st))" arbitrary: i st)
  case 0
  have u: "used_blocks (mm_frames st) = 0x10000 + of_nat i" "i < 2 ^ 20"
    using 0(2) by (auto simp: mapped_def Let_def)
  have below: "of_nat i < used_blocks (mm_frames st)"
    using u by (simp add: word_less_nat_alt unat_word_ariths unat_of_nat)
  have "free_frames (mm_frames st) = {}" using 0(1) by simp
  then show ?case
    by (subst map_low_loop.simps) (simp add: below map_page_panics [OF 0(2)])
next
  case (Suc n)
  have u: "used_blocks (mm_frames st) = 0x10000 + of_nat i" "i < 2 ^ 20"
    using Suc.prems by (auto simp: mapped_def Let_def)
  have below: "of_nat i < used_blocks (mm_frames st)"
    using u by (simp add: word_less_nat_alt unat_word_ariths unat_of_nat)
  have ne: "free_frames (mm_frames st) \<noteq> {}" using Suc.hyps(2) by auto
  obtain st' where st': "map_page tmp (of_nat i * PAGE_SIZE) st = Some (Inr st')" "mapped (Suc i) st'"
    "n = card (free_frames (mm_frames st'))"
    using map_page_mapped [OF Suc.prems ne, of tmp] Suc.hyps(2) by (metis Suc_inject)
  show ?case
    using Suc.hyps(1) [OF st'(3,2)] st'(1)
    by (subst map_low_loop.simps) (simp add: below algebra_simps)
qed

text \<open>A state in which nothing has been allocated yet, with \<open>mm_init\<close> just done.\<close>

definition mm_boot :: "frames \<Rightarrow> (ptr \<Rightarrow> mem_block) \<Rightarrow> 'h handlers \<Rightarrow> 'h mm" where
  "mm_boot fr B H = \<lparr>mm_frames = fr, mm_heap = heap_boot B, mm_ptables = (\<lambda>_ _. zero_page),
     mm_dirs = (\<lambda>_. zero_directory), kernel_directory = 0, current_directory = 0, mm_handlers = H,
     cr0 = 1, cr3 = 0\<rparr>"

lemma clear_entry_eq:
  "clear_entry kd i st = st\<lparr>mm_dirs := (mm_dirs st)(kd := (mm_dirs st kd)
     \<lparr>pd_tables := (pd_tables (mm_dirs st kd))(i := 0),
      pd_tables_physical := (pd_tables_physical (mm_dirs st kd))(i := 0)\<rparr>)\<rparr>"
  by (simp add: clear_entry_def upd_dir_def)

lemma clear_directory:
  assumes "\<And>i. pd_tables (mm_dirs st kd) i = 0"
  shows "mm_frames (fold (clear_entry kd) is st) = mm_frames st
    \<and> mm_heap (fold (clear_entry kd) is st) = mm_heap st
    \<and> kernel_directory (fold (clear_entry kd) is st) = kernel_directory st
    \<and> (\<forall>i. pd_tables (mm_dirs (fold (clear_entry kd) is st) kd) i = 0)"
  using assms
proof (induction "is" arbitrary: st)
  case Nil
  then show ?case by simp
next
  case (Cons i "is")
  have "\<And>j. pd_tables (mm_dirs (clear_entry kd i st) kd) j = 0"
    using Cons.prems by (simp add: clear_entry_eq)
  from Cons.IH [OF this] show ?case by (simp add: clear_entry_eq [of kd i st])
qed

lemma init_paging_panics:
  assumes "frames_ok fr" and "used_blocks fr = 0x10000"
  shows "mm_init_paging tmp (mm_boot fr B H) = Some (Inl (bytes ''Out of memory''))"
proof -
  let ?st = "mm_boot fr B H"
  have "tail_room (8196 + 24 + 1024 * 4120) (heap_boot B)"
    by (rule tail_room_mono [OF tail_room_boot]) simp
  then obtain kd h' where kd: "kmalloc_ap (of_nat 8196) False (heap_boot B) = Some (Inr (kd, None, h'))"
    "tail_room (1024 * 4120) h'"
    by (rule kmalloc_ap_tail [where phys = False]) auto
  define st4 where "st4 = upd_dir kd (\<lambda>d. d\<lparr>pd_physical := kd + 4096\<rparr>) (upd_dir kd (\<lambda>_. zero_directory)
      (?st\<lparr>mm_heap := h', kernel_directory := kd\<rparr>))"
  define st5 where "st5 = fold (clear_entry kd) [0..<1024] st4"
  have z: "\<And>i. pd_tables (mm_dirs st4 kd) i = 0" by (simp add: st4_def upd_dir_def zero_directory_def)
  have st5: "mm_frames st5 = fr" "mm_heap st5 = h'" "kernel_directory st5 = kd"
    "\<forall>i. pd_tables (mm_dirs st5 kd) i = 0"
    using clear_directory [of st4 kd "[0..<1024]", OF z]
    by (simp_all add: st5_def st4_def upd_dir_def mm_boot_def)
  have a: "mm_kmalloc_a SIZEOF_DIRECTORY ?st = Some (Inr (kd, ?st\<lparr>mm_heap := h'\<rparr>))"
    using kd(1) by (simp add: mm_kmalloc_a_def kmalloc_a_def drop_phys_def SIZEOF_DIRECTORY_def mm_boot_def)
  have "card (free_frames fr) \<le> unat (total_blocks fr)"
    by (rule order.trans [OF card_mono [of "{..<unat (total_blocks fr)}"]]) (auto simp: free_frames_def)
  also have "\<dots> < 2 ^ 20"
    using assms by (simp add: frames_ok_def word_less_nat_alt)
  finally have "mapped 0 st5"
    using kd(2) assms
    by (simp add: mapped_def Let_def st5)
  from map_low_panics [OF this, of tmp]
  have "map_low_loop tmp 0 0 st5 = Some (Inl (bytes ''Out of memory''))" by simp
  then show ?thesis
    by (simp add: mm_init_paging_def a Let_def st4_def [symmetric] st5_def [symmetric])
qed

text \<open>C3. Paging is never switched on. Whatever the size of memory, its bitmap and what it holds,
  \<open>mm_init_paging\<close> after \<open>mm_init\<close> panics with ``Out of memory'': its loop runs while
  \<open>i < used_blocks\<close>, each iteration takes a frame, and taking a frame increments
  \<open>used_blocks\<close>, so the loop only ends when no frame is left.\<close>

theorem mm_init_paging_panics:
  "mm_init_paging tmp (mm_boot (mm_init sz bitmap fr) B H) = Some (Inl (bytes ''Out of memory''))"
  by (rule init_paging_panics) (simp_all add: mm_init_ok)

subsection \<open>Copying a directory\<close>

lemma memcpy_self: "fst (memcpy m p p n) = m"
proof -
  have "fold (copy_byte p p) is m = m" for "is"
    by (induction "is") (simp_all add: copy_byte_def)
  then show ?thesis by (simp add: memcpy_def)
qed

lemma clone_page_same:
  assumes "table \<noteq> old" and "mm_ptables st table = mm_ptables st old"
  shows "clone_page table old j st = preturn st"
proof (cases "pg_frame (mm_ptables st old j) = 0")
  case True
  then show ?thesis by (simp add: clone_page_def)
next
  case False
  have fr: "frame_addr (mm_ptables st old j) = ucast (pg_frame (mm_ptables st old j)) * PAGE_SIZE"
    by (simp add: frame_addr_def)
  show ?thesis
    using False assms
    by (simp add: clone_page_def Let_def alloc_frame_at_def upd_page_def alloc_frame_taken preturn_def
        fr memcpy_self fun_upd_idem)
qed

lemma clone_pages_same:
  "table \<noteq> old \<Longrightarrow> mm_ptables st table = mm_ptables st old \<Longrightarrow> clone_pages table old js st = preturn st"
  by (induction js) (simp_all add: clone_page_same)

lemma clone_pages_dirs:
  "clone_pages table old js st = Some (Inr st') \<Longrightarrow> mm_dirs st' = mm_dirs st"
proof (induction js arbitrary: st)
  case Nil
  then show ?case by (simp add: preturn_def)
next
  case (Cons j js)
  then obtain st1 where 1: "clone_page table old j st = Some (Inr st1)"
    "clone_pages table old js st1 = Some (Inr st')"
    by (auto simp: pbind_def split: option.splits sum.splits)
  then have "mm_dirs st1 = mm_dirs st"
    by (auto simp: clone_page_def Let_def alloc_frame_at_def upd_page_def preturn_def pbind_def
        map_sum_def split: if_splits sum.splits)
  with Cons.IH [OF 1(2)] show ?case by simp
qed

lemma mm_kmalloc_ap_heap:
  assumes "mm_kmalloc_ap sz st = Some (Inr (p, phys, st1))"
  obtains h where "st1 = st\<lparr>mm_heap := h\<rparr>"
proof -
  obtain z where "kmalloc_ap sz True (mm_heap st) = Some z"
    and "map_sum id (\<lambda>(p, phys, h). (p, phys, st\<lparr>mm_heap := h\<rparr>)) z = Inr (p, phys, st1)"
    using assms by (auto simp: mm_kmalloc_ap_def)
  with that show ?thesis by (cases z) auto
qed

lemma clone_table_physical:
  assumes run: "clone_table dir i st = Some (Inr st')"
  shows "pd_physical (mm_dirs st' dir) = pd_physical (mm_dirs st dir)"
proof -
  let ?kt = "pd_tables (mm_dirs st (kernel_directory st)) i"
  let ?ct = "pd_tables (mm_dirs st (current_directory st)) i"
  show ?thesis
  proof (cases "?kt = 0 \<or> ?kt = ?ct")
    case True
    then show ?thesis
      using run by (auto simp: clone_table_def Let_def preturn_def upd_dir_def split: if_splits)
  next
    case False
    then obtain table phys st1 st3 st4 where 1: "mm_kmalloc_ap SIZEOF_TABLE st = Some (Inr (table, phys, st1))"
      and 3: "st3 = (case phys of None \<Rightarrow> st1 | Some v \<Rightarrow>
          upd_dir dir (\<lambda>d. d\<lparr>pd_tables_physical := (pd_tables_physical d)(i := v)\<rparr>) st1)"
      and 4: "clone_pages table ?ct [0..<1024] (st3\<lparr>mm_ptables := (mm_ptables st3)(table := mm_ptables st3 ?ct)\<rparr>)
          = Some (Inr st4)"
      and 5: "st' = upd_dir dir (\<lambda>d. d\<lparr>pd_tables := (pd_tables d)(i := table)\<rparr>) st4"
      using run by (auto simp: clone_table_def Let_def preturn_def pbind_def split: option.splits sum.splits)
    have "mm_dirs st1 = mm_dirs st" by (rule mm_kmalloc_ap_heap [OF 1]) simp
    then have "pd_physical (mm_dirs st3 dir) = pd_physical (mm_dirs st dir)"
      by (cases phys) (simp_all add: 3 upd_dir_def)
    then show ?thesis using clone_pages_dirs [OF 4] by (simp add: 5 upd_dir_def)
  qed
qed

lemma clone_tables_physical:
  "clone_tables dir is st = Some (Inr st') \<Longrightarrow> pd_physical (mm_dirs st' dir) = pd_physical (mm_dirs st dir)"
proof (induction "is" arbitrary: st)
  case Nil
  then show ?case by (simp add: preturn_def)
next
  case (Cons i "is")
  then obtain st1 where "clone_table dir i st = Some (Inr st1)" "clone_tables dir is st1 = Some (Inr st')"
    by (auto simp: pbind_def split: option.splits sum.splits)
  with Cons.IH clone_table_physical show ?case by metis
qed

lemma clone_tables_empty:
  "(\<And>i. pd_tables (mm_dirs st (kernel_directory st)) i = 0) \<Longrightarrow> clone_tables dir is st = preturn st"
  by (induction "is") (simp_all add: clone_table_def)

lemma clone_physical_zero:
  assumes "mm_clone_directory dir0 st = Some (Inr (dir, st'))"
  shows "pd_physical (mm_dirs st' dir) = 0"
proof -
  obtain phys st1 st4 where 1: "mm_kmalloc_ap SIZEOF_DIRECTORY st = Some (Inr (dir, phys, st1))"
    and 2: "clone_tables dir [0..<1024] (upd_dir dir (\<lambda>_. zero_directory)
      (case phys of None \<Rightarrow> st1 | Some v \<Rightarrow> upd_dir dir0 (\<lambda>d. d\<lparr>pd_physical := v\<rparr>) st1)) = Some (Inr st')"
    using assms
    by (auto simp: mm_clone_directory_def pbind_def Let_def preturn_def split: option.splits sum.splits)
  show ?thesis using clone_tables_physical [OF 2] by (simp add: upd_dir_def zero_directory_def)
qed

lemma mm_clone_empty:
  assumes "tail_room (8220 + k) (mm_heap st)" and "\<And>i. pd_tables (mm_dirs st (kernel_directory st)) i = 0"
  obtains dir st' where "mm_clone_directory dir0 st = Some (Inr (dir, st'))" and "tail_room k (mm_heap st')"
proof -
  obtain p h' where p: "kmalloc_ap (of_nat 8196) True (mm_heap st) = Some (Inr (p, Some p, h'))"
    "tail_room k h'"
    by (rule kmalloc_ap_tail [where phys = True and n = 8196 and k = k and h = "mm_heap st"])
      (use assms(1) in auto)
  have "mm_kmalloc_ap SIZEOF_DIRECTORY st = Some (Inr (p, Some p, st\<lparr>mm_heap := h'\<rparr>))"
    using p(1) by (simp add: mm_kmalloc_ap_def SIZEOF_DIRECTORY_def)
  moreover define st3 where "st3 = upd_dir p (\<lambda>_. zero_directory)
      (upd_dir dir0 (\<lambda>d. d\<lparr>pd_physical := p\<rparr>) (st\<lparr>mm_heap := h'\<rparr>))"
  moreover have "clone_tables p [0..<1024] st3 = preturn st3"
    by (rule clone_tables_empty) (use assms(2) in \<open>auto simp: st3_def upd_dir_def zero_directory_def\<close>)
  ultimately have "mm_clone_directory dir0 st = Some (Inr (p, st3))"
    by (simp add: mm_clone_directory_def preturn_def)
  then show ?thesis using p(2) by (intro that [of p st3]) (simp_all add: st3_def upd_dir_def)
qed

text \<open>A directory from \<open>mm_clone_directory\<close> cannot be switched to: its physical address, if it
  was stored at all, is erased when the directory is cleared, and switching to it loads 0
  into \<open>cr3\<close>.\<close>

theorem mm_clone_directory_no_address:
  assumes "mm_clone_directory dir0 st = Some (Inr (dir, st'))"
  shows "cr3 (mm_switch_page_directory dir st') = 0"
  using clone_physical_zero [OF assms] by (simp add: mm_switch_page_directory_def Let_def)

theorem mm_clone_directory_no_address_witness:
  "\<forall>B. \<exists>dir st'. mm_clone_directory 0 (mm_boot frames0 B (\<lambda>_. None :: bool option)) = Some (Inr (dir, st'))
     \<and> cr3 (mm_switch_page_directory dir st') = 0"
proof
  fix B
  let ?st = "mm_boot frames0 B (\<lambda>_. None :: bool option)"
  have "tail_room (8220 + 0) (mm_heap ?st)"
    using tail_room_mono [OF tail_room_boot, of 8220] by (simp add: mm_boot_def)
  then obtain dir st' where run: "mm_clone_directory 0 ?st = Some (Inr (dir, st'))"
    by (rule mm_clone_empty) (simp_all add: mm_boot_def zero_directory_def)
  from run mm_clone_directory_no_address [OF run]
  show "\<exists>dir st'. mm_clone_directory 0 ?st = Some (Inr (dir, st')) \<and> cr3 (mm_switch_page_directory dir st') = 0"
    by blast
qed

text \<open>The pages of a private table are shared, not copied: the clone's table has the same
  entries, frame numbers included, no frame is taken and no memory is copied, although the
  code allocates a frame for each page and copies its 4 KB. The entry handed to
  \<open>mm_alloc_frame\<close> is a copy of the old one, so it already has a frame.\<close>

theorem clone_table_shares_frames:
  assumes "mm_kmalloc_ap SIZEOF_TABLE st = Some (Inr (table, phys, st1))"
    and "pd_tables (mm_dirs st (kernel_directory st)) i \<noteq> 0"
    and "pd_tables (mm_dirs st (kernel_directory st)) i \<noteq> pd_tables (mm_dirs st (current_directory st)) i"
    and "table \<noteq> pd_tables (mm_dirs st (current_directory st)) i"
  shows "\<exists>st'. clone_table dir i st = Some (Inr st') \<and> mm_frames st' = mm_frames st
    \<and> pd_tables (mm_dirs st' dir) i = table
    \<and> mm_ptables st' table = mm_ptables st (pd_tables (mm_dirs st (current_directory st)) i)"
proof -
  have "mm_frames st1 = mm_frames st" "mm_ptables st1 = mm_ptables st"
    by (rule mm_kmalloc_ap_heap [OF assms(1)], simp)+
  then show ?thesis
    using assms
    by (cases phys) (simp_all add: clone_table_def Let_def clone_pages_same upd_dir_def preturn_def)
qed

text \<open>Two directories that differ in their first table.\<close>

definition mm_two_dirs :: "bool mm" where
  "mm_two_dirs = (mm_boot frames0 (\<lambda>_. \<lparr>mb_size = 0, mb_next = 0, mb_prev = 0, mb_free = False\<rparr>) (\<lambda>_. None))
     \<lparr>kernel_directory := 4, current_directory := 8,
      mm_dirs := (\<lambda>d. zero_directory\<lparr>pd_tables := (\<lambda>_. if d = 4 then 16 else 0)\<rparr>)\<rparr>"

theorem clone_table_shares_frames_witness:
  "\<exists>st'. clone_table 64 0 mm_two_dirs = Some (Inr st') \<and> mm_frames st' = frames0"
proof -
  let ?B = "\<lambda>_. \<lparr>mb_size = 0, mb_next = 0, mb_prev = 0, mb_free = False\<rparr>"
  have "tail_room (4096 + 24 + 0) (heap_boot ?B)" by (rule tail_room_mono [OF tail_room_boot]) simp
  then obtain p h' where p: "kmalloc_ap (of_nat 4096) True (heap_boot ?B) = Some (Inr (p, Some p, h'))" "p \<noteq> 0"
    by (rule kmalloc_ap_tail [where phys = True]) auto
  have "mm_kmalloc_ap SIZEOF_TABLE mm_two_dirs = Some (Inr (p, Some p, mm_two_dirs\<lparr>mm_heap := h'\<rparr>))"
    using p(1) by (simp add: mm_kmalloc_ap_def SIZEOF_TABLE_def mm_two_dirs_def mm_boot_def)
  note clone_table_shares_frames [OF this, of 0 64]
  moreover have "pd_tables (mm_dirs mm_two_dirs (kernel_directory mm_two_dirs)) 0 = 16"
    "pd_tables (mm_dirs mm_two_dirs (current_directory mm_two_dirs)) 0 = 0"
    "mm_frames mm_two_dirs = frames0"
    by (simp_all add: mm_two_dirs_def mm_boot_def)
  ultimately show ?thesis using p(2) by auto
qed

end
