(* ===== verification/Descriptors.thy ===== *)
theory Descriptors
  imports Prelude
begin

text \<open>
  The segment and interrupt descriptor tables of \<open>arch/x86_64/gdt.c\<close> and
  \<open>arch/x86_64/idt.c\<close>: the packed entries with their split base and limit fields, the
  functions that fill them, and what the processor reads out of them. The addresses of the
  assembly stubs and of the tables are parameters.
\<close>

subsection \<open>Segments\<close>

record gdt_entry =
  limit_low :: u16
  base_low :: u16
  base_middle :: u8
  access :: u8
  granularity :: u8
  base_high :: u8

record table_ptr =
  tp_limit :: u16
  tp_base :: u32

record gdt_state =
  gdt :: "nat \<Rightarrow> gdt_entry"
  gp :: table_ptr

definition GDT_ENTRIES :: nat where "GDT_ENTRIES = 5"

definition gdt_set_gate :: "nat \<Rightarrow> u32 \<Rightarrow> u32 \<Rightarrow> u8 \<Rightarrow> u8 \<Rightarrow> gdt_state \<Rightarrow> gdt_state" where
  "gdt_set_gate num base limit acc gran s =
     s\<lparr>gdt := (gdt s)(num := \<lparr>
         limit_low = ucast (limit AND 0xFFFF),
         base_low = ucast (base AND 0xFFFF),
         base_middle = ucast (drop_bit 16 base AND 0xFF),
         access = acc,
         granularity = ucast ((drop_bit 16 limit AND 0x0F) OR (ucast gran AND 0xF0)),
         base_high = ucast (drop_bit 24 base AND 0xFF)\<rparr>)\<rparr>"

text \<open>\<open>sizeof(struct gdt_entry)\<close> is 8; the processor is given the address of \<open>gp\<close>.\<close>

definition gdt_init :: "u32 \<Rightarrow> gdt_state \<Rightarrow> gdt_state" where
  "gdt_init gdt_addr s =
     (let s0 = s\<lparr>gp := \<lparr>tp_limit = of_nat (8 * GDT_ENTRIES - 1), tp_base = gdt_addr\<rparr>\<rparr>;
          s1 = gdt_set_gate 0 0 0 0 0 s0;
          s2 = gdt_set_gate 1 0 0xFFFFFFFF 0x9A 0xCF s1;
          s3 = gdt_set_gate 2 0 0xFFFFFFFF 0x92 0xCF s2;
          s4 = gdt_set_gate 3 0 0xFFFFFFFF 0xFA 0xCF s3
      in gdt_set_gate 4 0 0xFFFFFFFF 0xF2 0xCF s4)"

text \<open>What the processor reads: the fields put together again.\<close>

definition gdt_base :: "gdt_entry \<Rightarrow> u32" where
  "gdt_base e = ucast (base_low e) OR push_bit 16 (ucast (base_middle e)) OR push_bit 24 (ucast (base_high e))"

definition gdt_limit :: "gdt_entry \<Rightarrow> u32" where
  "gdt_limit e = ucast (limit_low e) OR push_bit 16 (ucast (granularity e AND 0x0F))"

definition segment_size :: "gdt_entry \<Rightarrow> nat" where
  "segment_size e = (Suc (unat (gdt_limit e))) * (if bit (granularity e) 7 then 4096 else 1)"

text \<open>A selector of the table is flat: base 0, all 4 GB, present, for the kernel, code or data.\<close>

definition flat_segment :: "gdt_state \<Rightarrow> bool \<Rightarrow> u32 \<Rightarrow> bool" where
  "flat_segment s code w \<longleftrightarrow>
     (let e = gdt s (unat w div 8)
      in unat w + 7 \<le> unat (tp_limit (gp s)) \<and> gdt_base e = 0 \<and> segment_size e = 2 ^ 32
         \<and> bit (access e) 7 \<and> drop_bit 5 (access e) AND 3 = 0 \<and> bit (access e) 3 = code)"

subsection \<open>Interrupt gates\<close>

record idt_entry =
  base_lo :: u16
  sel :: u16
  always0 :: u8
  flags :: u8
  base_hi :: u16

type_synonym idt_ptr = table_ptr

record idt_state =
  idt :: "u8 \<Rightarrow> idt_entry"
  idtp :: idt_ptr

definition idt_set_gate :: "u8 \<Rightarrow> u32 \<Rightarrow> u16 \<Rightarrow> u8 \<Rightarrow> idt_state \<Rightarrow> idt_state" where
  "idt_set_gate num base s f st =
     st\<lparr>idt := (idt st)(num := \<lparr>
         base_lo = ucast (base AND 0xFFFF),
         sel = s,
         always0 = 0,
         flags = f,
         base_hi = ucast (drop_bit 16 base AND 0xFFFF)\<rparr>)\<rparr>"

definition zero_gate :: idt_entry where
  "zero_gate = \<lparr>base_lo = 0, sel = 0, always0 = 0, flags = 0, base_hi = 0\<rparr>"

text \<open>
  The calls for vectors 0 to 47 run in order of the vector; \<open>stub k\<close> is the address of
  \<open>isr\<close>\<open>k\<close> for \<open>k < 32\<close>, of \<open>irq\<close>\<open>(k - 32)\<close> for \<open>k < 48\<close> and of \<open>isr128\<close> for 128.
\<close>

definition idt_init :: "u32 \<Rightarrow> (nat \<Rightarrow> u32) \<Rightarrow> idt_state \<Rightarrow> idt_state" where
  "idt_init idt_addr stub st =
     (let st0 = st\<lparr>idtp := \<lparr>tp_limit = 8 * 256 - 1, tp_base = idt_addr\<rparr>, idt := (\<lambda>_. zero_gate)\<rparr>;
          st1 = fold (\<lambda>k. idt_set_gate (of_nat k) (stub k) 0x08 0x8E) [0..<48] st0
      in idt_set_gate 0x80 (stub 128) 0x08 0xEE st1)"

definition gate_target :: "idt_entry \<Rightarrow> u32" where
  "gate_target e = ucast (base_lo e) OR push_bit 16 (ucast (base_hi e))"

text \<open>Present bit, privilege level and type of a gate.\<close>

definition gate_present :: "idt_entry \<Rightarrow> bool" where
  "gate_present e = bit (flags e) 7"

definition gate_dpl :: "idt_entry \<Rightarrow> u8" where
  "gate_dpl e = drop_bit 5 (flags e) AND 3"

subsection \<open>Properties\<close>

lemma and_masks: "x AND 0xFFFF = take_bit 16 (x :: u32)" "x AND 0xFF = take_bit 8 (x :: u32)"
  "b AND 0x0F = take_bit 4 (b :: u8)" "x AND 0x0F = take_bit 4 x" "x AND 0xFFFFF = take_bit 20 x"
  by (simp_all add: take_bit_eq_mask mask_eq_exp_minus_1)

lemma low_F0: "n < 4 \<Longrightarrow> \<not> bit (0xF0 :: u32) n"
  by (auto simp: less_Suc_eq numeral_eq_Suc)

lemma split_add: "k \<le> n \<Longrightarrow> k + (n - k) = (n :: nat)"
  by simp

text \<open>The processor reads back from a segment descriptor the base \<open>gdt_set_gate\<close> was
  given, the low 20 bits of the limit and the access byte.\<close>

theorem gdt_gate_roundtrip:
  "gdt_base (gdt (gdt_set_gate num base limit acc gran s) num) = base
   \<and> gdt_limit (gdt (gdt_set_gate num base limit acc gran s) num) = limit AND 0xFFFFF
   \<and> access (gdt (gdt_set_gate num base limit acc gran s) num) = acc
   \<and> gdt (gdt_set_gate num base limit acc gran s)
       = (gdt s)(num := gdt (gdt_set_gate num base limit acc gran s) num)"
proof -
  have "gdt_base (gdt (gdt_set_gate num base limit acc gran s) num) = base"
  proof (rule bit_word_eqI)
    fix n assume "n < LENGTH(32)"
    then show "bit (gdt_base (gdt (gdt_set_gate num base limit acc gran s) num)) n = bit base n"
      unfolding gdt_base_def gdt_set_gate_def and_masks
      by (cases "n < 24") (auto simp: bit_simps split_add)
  qed
  moreover have "gdt_limit (gdt (gdt_set_gate num base limit acc gran s) num) = limit AND 0xFFFFF"
    unfolding gdt_limit_def gdt_set_gate_def and_masks
    by (rule bit_word_eqI) (auto simp: bit_simps split_add dest: low_F0)
  ultimately show ?thesis by (simp add: gdt_set_gate_def)
qed

text \<open>The two kernel segments of the table are flat.\<close>

lemma gdt_init_flat: "flat_segment (gdt_init tab s) True 8" "flat_segment (gdt_init tab s) False 16"
proof -
  have kernel: "gdt (gdt_init tab s) (Suc 0) = gdt (gdt_set_gate 1 0 0xFFFFFFFF 0x9A 0xCF s) 1"
    "gdt (gdt_init tab s) 2 = gdt (gdt_set_gate 2 0 0xFFFFFFFF 0x92 0xCF s) 2"
    "gp (gdt_init tab s) = \<lparr>tp_limit = 39, tp_base = tab\<rparr>"
    by (simp_all add: gdt_init_def gdt_set_gate_def Let_def GDT_ENTRIES_def)
  show "flat_segment (gdt_init tab s) True 8" "flat_segment (gdt_init tab s) False 16"
    by (simp_all add: flat_segment_def kernel gdt_set_gate_def Let_def gdt_base_def segment_size_def gdt_limit_def)
qed

definition gate :: "u32 \<Rightarrow> u16 \<Rightarrow> u8 \<Rightarrow> idt_entry" where
  "gate base s f = \<lparr>base_lo = ucast (base AND 0xFFFF), sel = s, always0 = 0, flags = f,
     base_hi = ucast (drop_bit 16 base AND 0xFFFF)\<rparr>"

lemma idt_set_gate_eq: "idt_set_gate num base s f st = st\<lparr>idt := (idt st)(num := gate base s f)\<rparr>"
  by (simp add: idt_set_gate_def gate_def)

lemma gate_target_gate [simp]: "gate_target (gate base s f) = base"
  unfolding gate_target_def gate_def and_masks
  by (rule bit_word_eqI) (auto simp: bit_simps split_add)

lemma gate_flags [simp]: "gate_present (gate base s f) = bit f 7" "gate_dpl (gate base s f) = drop_bit 5 f AND 3"
  "\<not> gate_present zero_gate"
  by (simp_all add: gate_present_def gate_dpl_def gate_def zero_gate_def)

lemma of_nat_u8_inject: "i < 256 \<Longrightarrow> j < 256 \<Longrightarrow> ((of_nat i :: u8) = of_nat j) = (i = j)"
  by (simp add: word_unat_eq_iff unat_of_nat)

lemma fold_gates:
  "n \<le> 256 \<Longrightarrow> k < 256 \<Longrightarrow>
    idt (fold (\<lambda>k. idt_set_gate (of_nat k) (stub k) s f) [0..<n] st) (of_nat k)
      = (if k < n then gate (stub k) s f else idt st (of_nat k))"
  by (induction n) (auto simp: idt_set_gate_eq of_nat_u8_inject)

lemma idt_init_gate:
  assumes "k < 256"
  shows "idt (idt_init a stub st) (of_nat k)
    = (if k = 128 then gate (stub 128) 0x08 0xEE
       else if k < 48 then gate (stub k) 0x08 0x8E else zero_gate)"
proof -
  have "(of_nat k = (0x80 :: u8)) = (k = 128)" using of_nat_u8_inject [of k 128] assms by simp
  then show ?thesis by (simp add: idt_init_def Let_def idt_set_gate_eq [of "0x80"] fold_gates assms)
qed

text \<open>After \<open>idt_init\<close> every processor exception, every interrupt request and the system
  call vector has a present gate that leads to its own stub; only the last may be raised from
  user mode; no other vector has a gate.\<close>

theorem idt_init_gates:
  assumes "k < 256"
  shows "gate_present (idt (idt_init a stub st) (of_nat k)) = (k < 48 \<or> k = 128)
    \<and> (k < 48 \<or> k = 128 \<longrightarrow> gate_target (idt (idt_init a stub st) (of_nat k)) = stub k
        \<and> gate_dpl (idt (idt_init a stub st) (of_nat k)) = (if k = 128 then 3 else 0))"
  by (simp add: idt_init_gate [OF assms])

theorem idt_init_gates_witness:
  "\<forall>a st. gate_target (idt (idt_init a (\<lambda>k. 0x100000 + 16 * of_nat k) st) 33) = 0x100210"
  using idt_init_gates [of 33 _ "\<lambda>k. 0x100000 + 16 * of_nat k"] by simp

end
