(* ===== verification/Vga.thy ===== *)
theory Vga
  imports Ports CString
begin

text \<open>
  The text screen of \<open>drivers/vga.c\<close>: 80 by 25 cells of a character and a colour, a cursor,
  scrolling, and the cursor registers of the display controller. The specification is a
  terminal with an endless scroll-back: a table of rows that are never moved, of which the
  screen shows the last 25.
\<close>

subsection \<open>State and operations\<close>

definition VGA_WIDTH :: nat where "VGA_WIDTH = 80"
definition VGA_HEIGHT :: nat where "VGA_HEIGHT = 25"

text \<open>The cells are those of the array at \<open>VGA_MEMORY\<close>, by their index.\<close>

record vga =
  vga_color :: u8
  vga_buffer :: "nat \<Rightarrow> u16"
  cursor_x :: u8
  cursor_y :: u8
  vga_trace :: trace

definition blank :: "u8 \<Rightarrow> u16" where
  "blank color = ucast (32 OR push_bit 8 (ucast color :: u32))"

text \<open>A \<open>char\<close> is signed, so the conversion to \<open>uint16_t\<close> extends its sign.\<close>

definition cell :: "u8 \<Rightarrow> u8 \<Rightarrow> u16" where
  "cell c color = ucast ((ucast (scast c :: u16) :: u32) OR push_bit 8 (ucast color))"

definition vga_move_cursor :: "u8 \<Rightarrow> u8 \<Rightarrow> vga \<Rightarrow> vga" where
  "vga_move_cursor x y v =
     (let pos = of_nat (unat y * VGA_WIDTH + unat x) :: u16;
          t1 = outb 0x3D4 14 (vga_trace v);
          t2 = outb 0x3D5 (ucast (drop_bit 8 pos AND 0xFF)) t1;
          t3 = outb 0x3D4 15 t2;
          t4 = outb 0x3D5 (ucast (pos AND 0xFF)) t3
      in v\<lparr>vga_trace := t4\<rparr>)"

definition put_cell :: "nat \<Rightarrow> u16 \<Rightarrow> vga \<Rightarrow> vga" where
  "put_cell i w v = v\<lparr>vga_buffer := (vga_buffer v)(i := w)\<rparr>"

definition copy_cell :: "nat \<Rightarrow> nat \<Rightarrow> vga \<Rightarrow> vga" where
  "copy_cell y x v = put_cell ((y - 1) * VGA_WIDTH + x) (vga_buffer v (y * VGA_WIDTH + x)) v"

definition blank_cell :: "nat \<Rightarrow> nat \<Rightarrow> vga \<Rightarrow> vga" where
  "blank_cell y x v = put_cell (y * VGA_WIDTH + x) (blank (vga_color v)) v"

definition vga_scroll :: "vga \<Rightarrow> vga" where
  "vga_scroll v =
     (let v1 = fold (\<lambda>y. fold (copy_cell y) [0..<VGA_WIDTH]) [1..<VGA_HEIGHT] v
      in fold (blank_cell (VGA_HEIGHT - 1)) [0..<VGA_WIDTH] v1)"

definition vga_clear :: "vga \<Rightarrow> vga" where
  "vga_clear v =
     (let v1 = fold (\<lambda>y. fold (blank_cell y) [0..<VGA_WIDTH]) [0..<VGA_HEIGHT] v
      in vga_move_cursor 0 0 (v1\<lparr>cursor_x := 0, cursor_y := 0\<rparr>))"

definition cursor_cell :: "vga \<Rightarrow> nat" where
  "cursor_cell v = unat (cursor_y v) * VGA_WIDTH + unat (cursor_x v)"

text \<open>The first half of \<open>vga_putchar\<close>: the character itself.\<close>

definition put_glyph :: "u8 \<Rightarrow> vga \<Rightarrow> vga" where
  "put_glyph c v =
     (if c = 10 then v\<lparr>cursor_x := 0, cursor_y := cursor_y v + 1\<rparr>
      else if c = 13 then v\<lparr>cursor_x := 0\<rparr>
      else if c = 9 then v\<lparr>cursor_x := (cursor_x v + 8) AND NOT 7\<rparr>
      else if c = 8 then
        (if cursor_x v > 0
         then let v1 = v\<lparr>cursor_x := cursor_x v - 1\<rparr>
              in put_cell (cursor_cell v1) (blank (vga_color v1)) v1
         else v)
      else let v1 = put_cell (cursor_cell v) (cell c (vga_color v)) v
           in v1\<lparr>cursor_x := cursor_x v1 + 1\<rparr>)"

definition vga_putchar :: "u8 \<Rightarrow> vga \<Rightarrow> vga" where
  "vga_putchar c v =
     (let v1 = put_glyph c v;
          v2 = (if unat (cursor_x v1) \<ge> VGA_WIDTH
                then v1\<lparr>cursor_x := 0, cursor_y := cursor_y v1 + 1\<rparr> else v1);
          v3 = (if unat (cursor_y v2) \<ge> VGA_HEIGHT
                then (vga_scroll v2)\<lparr>cursor_y := of_nat (VGA_HEIGHT - 1)\<rparr> else v2)
      in vga_move_cursor (cursor_x v3) (cursor_y v3) v3)"

definition vga_write :: "mem \<Rightarrow> ptr \<Rightarrow> u32 \<Rightarrow> vga \<Rightarrow> vga" where
  "vga_write m data sz v = fold (\<lambda>i. vga_putchar (m (data + of_nat i))) [0..<unat sz] v"

partial_function (option) vga_puts :: "mem \<Rightarrow> ptr \<Rightarrow> vga \<Rightarrow> vga option" where
  "vga_puts m str v = (if m str \<noteq> 0 then vga_puts m (str + 1) (vga_putchar (m str) v) else Some v)"

definition vga_setcolor :: "u8 \<Rightarrow> vga \<Rightarrow> vga" where
  "vga_setcolor color v = v\<lparr>vga_color := color\<rparr>"

definition vga_init :: "vga \<Rightarrow> vga" where
  "vga_init v = vga_clear (v\<lparr>cursor_x := 0, cursor_y := 0, vga_color := 0x07\<rparr>)"

definition vga_get_cursor :: "vga \<Rightarrow> u8 \<times> u8" where
  "vga_get_cursor v = (cursor_x v, cursor_y v)"

definition put_bytes :: "u8 list \<Rightarrow> vga \<Rightarrow> vga" where
  "put_bytes s v = fold vga_putchar s v"

text \<open>The colours of the header; a colour byte has the text colour in its low and the background in
  its high half.\<close>

datatype colour = BLACK | BLUE | GREEN | CYAN | RED | MAGENTA | BROWN | LIGHT_GREY | DARK_GREY | LIGHT_BLUE | LIGHT_GREEN
  | LIGHT_CYAN | LIGHT_RED | LIGHT_MAGENTA | LIGHT_BROWN | WHITE

definition colours :: "colour list" where
  "colours = [BLACK, BLUE, GREEN, CYAN, RED, MAGENTA, BROWN, LIGHT_GREY, DARK_GREY, LIGHT_BLUE, LIGHT_GREEN, LIGHT_CYAN,
     LIGHT_RED, LIGHT_MAGENTA, LIGHT_BROWN, WHITE]"

definition colours_of :: "u8 \<Rightarrow> colour \<times> colour" where
  "colours_of c = (colours ! unat (c AND 0x0F), colours ! unat (drop_bit 4 c))"

text \<open>The only colour the code sets is light grey on black.\<close>

lemma setcolor_7: "colours_of (vga_color (vga_setcolor 0x07 v)) = (LIGHT_GREY, BLACK)"
  "colours_of (vga_color (v\<lparr>cursor_x := 0, cursor_y := 0, vga_color := 0x07\<rparr>)) = (LIGHT_GREY, BLACK)"
  by (simp_all add: vga_setcolor_def colours_of_def colours_def)

subsection \<open>Strings\<close>

lemma put_bytes_simps [simp]:
  "put_bytes [] v = v" "put_bytes (c # s) v = put_bytes s (vga_putchar c v)"
  "put_bytes (s @ t) v = put_bytes t (put_bytes s v)"
  by (simp_all add: put_bytes_def)

lemma vga_puts_cstr [cstr_refine]: "cstr m p s \<Longrightarrow> vga_puts m p v = Some (put_bytes s v)"
proof (induction s arbitrary: p v)
  case Nil
  then show ?case by (subst vga_puts.simps) simp
next
  case (Cons c s)
  then show ?case by (subst vga_puts.simps) simp
qed

lemma vga_write_bytes: "vga_write m p n v = put_bytes (bytes_at m p (unat n)) v"
  by (simp add: vga_write_def put_bytes_def bytes_at_def fold_map comp_def)

subsection \<open>Scrolling and clearing\<close>

lemma put_cell_simps [simp]:
  "vga_buffer (put_cell i w v) = (vga_buffer v)(i := w)" "cursor_x (put_cell i w v) = cursor_x v"
  "cursor_y (put_cell i w v) = cursor_y v" "vga_color (put_cell i w v) = vga_color v"
  "vga_trace (put_cell i w v) = vga_trace v"
  by (simp_all add: put_cell_def)

text \<open>What a step on the buffer leaves alone.\<close>

definition same_cursor :: "vga \<Rightarrow> vga \<Rightarrow> bool" where
  "same_cursor v v' \<longleftrightarrow> cursor_x v' = cursor_x v \<and> cursor_y v' = cursor_y v
     \<and> vga_color v' = vga_color v \<and> vga_trace v' = vga_trace v"

lemma copy_cell_Suc:
  "copy_cell (Suc y) x v = put_cell (y * 80 + x) (vga_buffer v (y * 80 + x + 80)) v"
  by (simp add: copy_cell_def VGA_WIDTH_def add_ac)

lemma copy_row:
  "same_cursor v (fold (copy_cell (Suc y)) [0..<n] v)
    \<and> (n \<le> 80 \<longrightarrow> vga_buffer (fold (copy_cell (Suc y)) [0..<n] v)
      = (\<lambda>i. if y * 80 \<le> i \<and> i < y * 80 + n then vga_buffer v (i + 80) else vga_buffer v i))"
  by (induction n) (auto simp: copy_cell_Suc same_cursor_def fun_eq_iff)

lemma blank_row:
  "same_cursor v (fold (blank_cell y) [0..<n] v) \<and> vga_buffer (fold (blank_cell y) [0..<n] v)
    = (\<lambda>i. if y * 80 \<le> i \<and> i < y * 80 + n then blank (vga_color v) else vga_buffer v i)"
  by (induction n) (auto simp: blank_cell_def VGA_WIDTH_def same_cursor_def fun_eq_iff)

lemma copy_rows:
  "same_cursor v (fold (\<lambda>y. fold (copy_cell y) [0..<80]) [1..<Suc n] v)
    \<and> vga_buffer (fold (\<lambda>y. fold (copy_cell y) [0..<80]) [1..<Suc n] v)
      = (\<lambda>i. if i < n * 80 then vga_buffer v (i + 80) else vga_buffer v i)"
proof (induction n)
  case 0
  then show ?case by (simp add: same_cursor_def)
next
  case (Suc n)
  show ?case
    using Suc copy_row [of "fold (\<lambda>y. fold (copy_cell y) [0..<80]) [1..<Suc n] v" n 80]
    by (auto simp: same_cursor_def fun_eq_iff)
qed

lemma vga_scroll_eq:
  "vga_scroll v = v\<lparr>vga_buffer := (\<lambda>i. if i < 1920 then vga_buffer v (i + 80)
     else if i < 2000 then blank (vga_color v) else vga_buffer v i)\<rparr>"
  using copy_rows [of v 24]
    blank_row [of "fold (\<lambda>y. fold (copy_cell y) [0..<80]) [1..<Suc 24] v" 24 80]
  by (intro vga.equality)
    (auto simp: vga_scroll_def VGA_WIDTH_def VGA_HEIGHT_def same_cursor_def fun_eq_iff)

lemma blank_rows:
  "same_cursor v (fold (\<lambda>y. fold (blank_cell y) [0..<80]) [0..<n] v)
    \<and> vga_buffer (fold (\<lambda>y. fold (blank_cell y) [0..<80]) [0..<n] v)
      = (\<lambda>i. if i < n * 80 then blank (vga_color v) else vga_buffer v i)"
proof (induction n)
  case 0
  then show ?case by (simp add: same_cursor_def)
next
  case (Suc n)
  show ?case
    using Suc blank_row [of "fold (\<lambda>y. fold (blank_cell y) [0..<80]) [0..<n] v" n 80]
    by (auto simp: same_cursor_def fun_eq_iff)
qed

lemma vga_clear_eq:
  "vga_clear v = vga_move_cursor 0 0 (v\<lparr>cursor_x := 0, cursor_y := 0,
     vga_buffer := (\<lambda>i. if i < 2000 then blank (vga_color v) else vga_buffer v i)\<rparr>)"
  using blank_rows [of v 25]
  by (simp add: vga_clear_def Let_def VGA_WIDTH_def VGA_HEIGHT_def same_cursor_def)
    (intro arg_cong [of _ _ "vga_move_cursor 0 0"] vga.equality, auto)

subsection \<open>The terminal\<close>

text \<open>Rows are numbered from the first line ever written; \<open>tm_top\<close> is the first on the screen.\<close>

record terminal =
  tm_rows :: "nat \<Rightarrow> nat \<Rightarrow> u16"
  tm_x :: nat
  tm_y :: nat
  tm_top :: nat

definition term_set :: "nat \<Rightarrow> nat \<Rightarrow> u16 \<Rightarrow> terminal \<Rightarrow> terminal" where
  "term_set y x w t = t\<lparr>tm_rows := (tm_rows t)(y := (tm_rows t y)(x := w))\<rparr>"

definition term_glyph :: "u8 \<Rightarrow> u8 \<Rightarrow> terminal \<Rightarrow> terminal" where
  "term_glyph color c t =
     (if c = 10 then t\<lparr>tm_x := 0, tm_y := tm_y t + 1\<rparr>
      else if c = 13 then t\<lparr>tm_x := 0\<rparr>
      else if c = 9 then t\<lparr>tm_x := (tm_x t div 8 + 1) * 8\<rparr>
      else if c = 8 then
        (if tm_x t = 0 then t else term_set (tm_y t) (tm_x t - 1) (blank color) (t\<lparr>tm_x := tm_x t - 1\<rparr>))
      else (term_set (tm_y t) (tm_x t) (cell c color) t)\<lparr>tm_x := tm_x t + 1\<rparr>)"

definition term_wrap :: "terminal \<Rightarrow> terminal" where
  "term_wrap t = (if 80 \<le> tm_x t then t\<lparr>tm_x := 0, tm_y := tm_y t + 1\<rparr> else t)"

definition term_feed :: "u8 \<Rightarrow> terminal \<Rightarrow> terminal" where
  "term_feed color t = (if tm_top t + 25 \<le> tm_y t
     then t\<lparr>tm_top := tm_top t + 1, tm_rows := (tm_rows t)(tm_top t + 25 := (\<lambda>_. blank color))\<rparr>
     else t)"

definition term_putchar :: "u8 \<Rightarrow> u8 \<Rightarrow> terminal \<Rightarrow> terminal" where
  "term_putchar color c t = term_feed color (term_wrap (term_glyph color c t))"

text \<open>\<open>shows v t\<close>: the screen is the last 25 rows of the terminal, its cursor on one of them.
  \<open>room\<close> bounds the cursor: 80 and 25 between two calls, one more inside \<open>vga_putchar\<close>.\<close>

definition screen :: "nat \<Rightarrow> nat \<Rightarrow> vga \<Rightarrow> terminal \<Rightarrow> bool" where
  "screen w h v t \<longleftrightarrow> tm_x t = unat (cursor_x v) \<and> tm_y t = tm_top t + unat (cursor_y v)
     \<and> tm_x t < w \<and> unat (cursor_y v) < h
     \<and> (\<forall>y < 25. \<forall>x < 80. vga_buffer v (y * 80 + x) = tm_rows t (tm_top t + y) x)"

abbreviation vga_shows :: "vga \<Rightarrow> terminal \<Rightarrow> bool" where
  "vga_shows v t \<equiv> screen 80 25 v t"

lemma cell_index: "x < 80 \<Longrightarrow> x' < 80 \<Longrightarrow> (y * 80 + x = y' * 80 + (x' :: nat)) = (y = y' \<and> x = x')"
  by (metis add_left_imp_eq div_mult_self3 div_less add.right_neutral mult.commute zero_neq_numeral)

lemma unat_u8_add: "unat (x :: u8) + k < 256 \<Longrightarrow> unat (x + of_nat k) = unat x + k"
  by (simp add: unat_word_ariths unat_of_nat)

lemma tab_stop_table: "\<forall>x \<in> set [0..<80]. unat ((of_nat x + 8) AND NOT 7 :: u8) = (x div 8 + 1) * 8"
  by code_simp

lemma tab_stop: "unat (x :: u8) < 80 \<Longrightarrow> unat ((x + 8) AND NOT 7) = (unat x div 8 + 1) * 8"
  using bspec [OF tab_stop_table, of "unat x"] by simp

lemma screen_put_cell:
  assumes "screen w h v t" and "x < 80" and "y < 25"
  shows "screen w h (put_cell (y * 80 + x) d v) (term_set (tm_top t + y) x d t)"
  using assms by (auto simp: screen_def term_set_def cell_index)

lemma glyph_screen:
  assumes s: "vga_shows v t"
  shows "screen 88 26 (put_glyph c v) (term_glyph (vga_color v) c t)
    \<and> (cursor_y (put_glyph c v) = 25 \<longrightarrow> cursor_x (put_glyph c v) = 0)
    \<and> vga_color (put_glyph c v) = vga_color v
    \<and> (\<forall>i \<ge> 2000. vga_buffer (put_glyph c v) i = vga_buffer v i)"
proof -
  have xy: "unat (cursor_x v) < 80" "unat (cursor_y v) < 25" "tm_x t = unat (cursor_x v)"
    "tm_y t = tm_top t + unat (cursor_y v)"
    using s by (auto simp: screen_def)
  have x1: "unat (cursor_x v + 1) = unat (cursor_x v) + 1" and y1: "unat (cursor_y v + 1) = unat (cursor_y v) + 1"
    using xy unat_u8_add [of "cursor_x v" 1] unat_u8_add [of "cursor_y v" 1] by simp_all
  have xm: "unat (cursor_x v - 1) = unat (cursor_x v) - 1" if "cursor_x v \<noteq> 0"
    using that by (metis unat_minus_one)
  have y25: "cursor_y v \<noteq> 25" "cursor_y v + 1 = 25 \<longrightarrow> unat (cursor_y v + 1) = 25"
    using xy(2) by auto
  have far: "unat (cursor_y v) * 80 + unat (cursor_x v) < 2000" using xy(1,2) by linarith
  consider "c = 10" | "c = 13" | "c = 9" | "c = 8" "cursor_x v = 0" | "c = 8" "cursor_x v \<noteq> 0"
    | "c \<noteq> 10" "c \<noteq> 13" "c \<noteq> 9" "c \<noteq> 8" by blast
  then show ?thesis
  proof cases
    case 1
    then show ?thesis using s y1 by (auto simp: put_glyph_def term_glyph_def screen_def)
  next
    case 2
    then show ?thesis using s by (auto simp: put_glyph_def term_glyph_def screen_def)
  next
    case 3
    then show ?thesis using s xy tab_stop [OF xy(1)] y25
      by (auto simp: put_glyph_def term_glyph_def screen_def)
  next
    case 4
    then show ?thesis using s y25 by (auto simp: put_glyph_def term_glyph_def screen_def)
  next
    case 5
    let ?v = "v\<lparr>cursor_x := cursor_x v - 1\<rparr>" and ?t = "t\<lparr>tm_x := tm_x t - 1\<rparr>"
    have "screen 88 26 ?v ?t" using s xm 5 by (auto simp: screen_def)
    from screen_put_cell [OF this, of "unat (cursor_x v) - 1" "unat (cursor_y v)" "blank (vga_color v)"]
    have "screen 88 26 (put_cell (cursor_cell ?v) (blank (vga_color v)) ?v)
        (term_set (tm_y t) (tm_x t - 1) (blank (vga_color v)) ?t)"
      using xy xm 5 by (simp add: cursor_cell_def VGA_WIDTH_def)
    moreover have "cursor_cell ?v < 2000" using xm 5 far by (simp add: cursor_cell_def VGA_WIDTH_def)
    ultimately show ?thesis using 5 xy y25
      by (auto simp: put_glyph_def term_glyph_def term_set_def Let_def word_gt_0 unat_eq_0)
  next
    case 6
    let ?v = "put_cell (cursor_cell v) (cell c (vga_color v)) v"
    let ?t = "term_set (tm_y t) (tm_x t) (cell c (vga_color v)) t"
    have "vga_shows ?v ?t"
      using screen_put_cell [OF s, of "unat (cursor_x v)" "unat (cursor_y v)" "cell c (vga_color v)"] xy
      by (simp add: cursor_cell_def VGA_WIDTH_def)
    then have "screen 88 26 (?v\<lparr>cursor_x := cursor_x ?v + 1\<rparr>) (?t\<lparr>tm_x := tm_x ?t + 1\<rparr>)"
      using x1 by (auto simp: screen_def)
    then show ?thesis using 6 far y25
      by (auto simp: put_glyph_def term_glyph_def term_set_def Let_def cursor_cell_def VGA_WIDTH_def)
  qed
qed

lemma wrap_screen:
  assumes "screen 88 26 v t" and "cursor_y v = 25 \<longrightarrow> cursor_x v = 0"
  shows "screen 80 26 (if unat (cursor_x v) \<ge> VGA_WIDTH
      then v\<lparr>cursor_x := 0, cursor_y := cursor_y v + 1\<rparr> else v) (term_wrap t)"
proof -
  have "unat (cursor_y v + 1) = unat (cursor_y v) + 1"
    using assms(1) unat_u8_add [of "cursor_y v" 1] by (simp add: screen_def)
  moreover have "unat (cursor_y v) = 25 \<longrightarrow> unat (cursor_x v) = 0"
    using assms(2) by (auto simp: word_unat_eq_iff)
  ultimately show ?thesis using assms(1) by (auto simp: screen_def term_wrap_def VGA_WIDTH_def)
qed

lemma feed_screen:
  assumes "screen 80 26 v t"
  shows "vga_shows (if unat (cursor_y v) \<ge> VGA_HEIGHT
      then (vga_scroll v)\<lparr>cursor_y := of_nat (VGA_HEIGHT - 1)\<rparr> else v) (term_feed (vga_color v) t)"
proof (cases "unat (cursor_y v) \<ge> 25")
  case False
  then show ?thesis using assms by (auto simp: screen_def term_feed_def VGA_HEIGHT_def)
next
  case True
  have row: "(if y * 80 + x < 1920 then vga_buffer v (y * 80 + x + 80)
        else if y * 80 + x < 2000 then blank (vga_color v) else vga_buffer v (y * 80 + x))
      = ((tm_rows t)(tm_top t + 25 := (\<lambda>_. blank (vga_color v)))) (tm_top t + 1 + y) x"
    if "y < 25" "x < 80" for x y
  proof (cases "y = 24")
    case False
    then have "y * 80 + x < 1920" "y + 1 < 25" using that by linarith+
    moreover have "y * 80 + x + 80 = (y + 1) * 80 + x" by simp
    moreover have "vga_buffer v ((y + 1) * 80 + x) = tm_rows t (tm_top t + (y + 1)) x"
      using assms that(2) \<open>y + 1 < 25\<close> unfolding screen_def by blast
    ultimately show ?thesis by (simp add: add_ac)
  qed (use that in simp)
  show ?thesis
    using True assms row by (simp add: screen_def term_feed_def VGA_HEIGHT_def vga_scroll_eq)
qed

lemma move_cursor_simps [simp]:
  "vga_buffer (vga_move_cursor x y v) = vga_buffer v" "vga_color (vga_move_cursor x y v) = vga_color v"
  "cursor_x (vga_move_cursor x y v) = cursor_x v" "cursor_y (vga_move_cursor x y v) = cursor_y v"
  by (simp_all add: vga_move_cursor_def Let_def)

lemma screen_move_cursor [simp]: "screen w h (vga_move_cursor x y v) t = screen w h v t"
  by (simp add: screen_def)

text \<open>The accesses that set the cursor registers to a cell number.\<close>

definition cursor_accesses :: "nat \<Rightarrow> trace" where
  "cursor_accesses k = [Out8 0x3D4 14, Out8 0x3D5 (of_nat (k div 256)), Out8 0x3D4 15, Out8 0x3D5 (of_nat (k mod 256))]"

lemma move_cursor_trace:
  assumes "unat y * 80 + unat x < 2 ^ 16"
  shows "vga_trace (vga_move_cursor x y v) = vga_trace v @ cursor_accesses (unat y * 80 + unat x)"
proof -
  define k where "k = unat y * 80 + unat x"
  have m: "w AND 0xFF = take_bit 8 (w :: u16)" for w by (simp add: take_bit_eq_mask mask_eq_exp_minus_1)
  have k: "k < 65536" using assms by (simp add: k_def)
  have "ucast (drop_bit 8 (of_nat k :: u16) AND 0xFF) = (of_nat (k div 256) :: u8)"
    unfolding m using k
    by (simp add: word_unat_eq_iff unsigned_ucast_eq unsigned_take_bit_eq unsigned_drop_bit_eq
        unat_of_nat take_bit_eq_mod drop_bit_eq_div unat_div unat_mod)
  moreover have "ucast ((of_nat k :: u16) AND 0xFF) = (of_nat (k mod 256) :: u8)"
    unfolding m using k
    by (simp add: word_unat_eq_iff unsigned_ucast_eq unsigned_take_bit_eq unat_of_nat take_bit_eq_mod unat_mod)
  ultimately show ?thesis
    by (simp add: vga_move_cursor_def Let_def outb_def cursor_accesses_def VGA_WIDTH_def k_def
        del: of_nat_add of_nat_mult)
qed

text \<open>C23. The screen is a window on a terminal with endless scroll-back. One character takes the
  screen, and the cursor on it, to the window on the terminal after that character, for
  newline, carriage return, tab, backspace, wrap at column 80 and scrolling; it writes no cell
  behind the 2000 of the screen; and the last four port accesses set the hardware cursor.\<close>

theorem vga_putchar_terminal:
  assumes "vga_shows v t"
  shows "vga_shows (vga_putchar c v) (term_putchar (vga_color v) c t)
    \<and> vga_color (vga_putchar c v) = vga_color v
    \<and> (\<forall>i \<ge> 2000. vga_buffer (vga_putchar c v) i = vga_buffer v i)
    \<and> vga_trace (vga_putchar c v) = vga_trace v @ cursor_accesses (cursor_cell (vga_putchar c v))"
proof -
  define v1 where "v1 = put_glyph c v"
  define v2 where "v2 = (if unat (cursor_x v1) \<ge> VGA_WIDTH
    then v1\<lparr>cursor_x := 0, cursor_y := cursor_y v1 + 1\<rparr> else v1)"
  define v3 where "v3 = (if unat (cursor_y v2) \<ge> VGA_HEIGHT
    then (vga_scroll v2)\<lparr>cursor_y := of_nat (VGA_HEIGHT - 1)\<rparr> else v2)"
  have run: "vga_putchar c v = vga_move_cursor (cursor_x v3) (cursor_y v3) v3"
    by (simp add: vga_putchar_def Let_def v1_def v2_def v3_def)
  note g = glyph_screen [OF assms, of c, folded v1_def]
  have s2: "screen 80 26 v2 (term_wrap (term_glyph (vga_color v) c t))"
    unfolding v2_def using g by (intro wrap_screen) auto
  have c2: "vga_color v2 = vga_color v" "\<forall>i \<ge> 2000. vga_buffer v2 i = vga_buffer v i"
    using g by (auto simp: v2_def)
  have s3: "vga_shows v3 (term_putchar (vga_color v) c t)"
    using feed_screen [OF s2] unfolding v3_def term_putchar_def c2(1) .
  have c3: "vga_color v3 = vga_color v" "\<forall>i \<ge> 2000. vga_buffer v3 i = vga_buffer v i"
    using c2 by (auto simp: v3_def vga_scroll_eq)
  have "vga_trace v3 = vga_trace v"
    by (auto simp: v3_def v2_def v1_def vga_scroll_eq put_glyph_def Let_def)
  moreover have "unat (cursor_y v3) * 80 + unat (cursor_x v3) < 2 ^ 16"
    using s3 by (auto simp: screen_def)
  ultimately show ?thesis
    using s3 c3 by (auto simp: run move_cursor_trace cursor_cell_def VGA_WIDTH_def)
qed

text \<open>The screen after \<open>vga_clear\<close> is that of an empty terminal.\<close>

definition term0 :: "u8 \<Rightarrow> terminal" where
  "term0 color = \<lparr>tm_rows = (\<lambda>_ _. blank color), tm_x = 0, tm_y = 0, tm_top = 0\<rparr>"

lemma vga_clear_shows: "vga_shows (vga_clear v) (term0 (vga_color v))"
  by (auto simp: vga_clear_eq screen_def term0_def)

lemma vga_init_shows: "vga_shows (vga_init v) (term0 7)"
  using vga_clear_shows [of "v\<lparr>cursor_x := 0, cursor_y := 0, vga_color := 7\<rparr>"] by (simp add: vga_init_def)

theorem vga_putchar_terminal_witness:
  "\<forall>v. vga_shows (vga_putchar 65 (vga_init v)) (term_putchar (vga_color (vga_init v)) 65 (term0 7))"
  using vga_putchar_terminal [OF vga_init_shows] by blast

lemma bit_u8_less: "bit (c :: u8) n \<Longrightarrow> n \<le> 7"
  using bit_imp_le_length [of c n] by simp

lemma bit_u8_min: "bit (c :: u8) n \<Longrightarrow> bit c (min 7 n)" "n < 8 \<Longrightarrow> min 7 n = n"
  using bit_u8_less [of c n] by (simp_all add: min_absorb2)

text \<open>The colour of a cell is the current colour for 7-bit characters only: a character from 128
  on is sign-extended, and its cell has attribute 255 whatever colour is set.\<close>

theorem vga_attribute:
  "drop_bit 8 (cell c color) = (if c < 128 then ucast color else 0xFF) \<and> take_bit 8 (cell c color) = ucast c"
proof -
  have ff: "(0xFF :: u16) = mask 8" by (simp add: mask_eq_exp_minus_1)
  have "drop_bit 8 (cell c color) = (if c < 128 then ucast color else mask 8)"
    by (rule bit_word_eqI) (auto simp: cell_def bit_simps sign_bit not_less dest: bit_imp_le_length)
  moreover have "take_bit 8 (cell c color) = ucast c"
    by (rule bit_word_eqI) (auto simp: cell_def bit_simps bit_u8_min dest: bit_u8_less)
  ultimately show ?thesis by (simp add: ff)
qed

end
