(* ===== verification/Printf.thy ===== *)
theory Printf
  imports Vga CNumber
begin

text \<open>
  \<open>printf\<close> and its helpers from \<open>lib/printf.c\<close>, and \<open>kernel_panic\<close>. \<open>printf\<close> reads its
  format from memory and its arguments from the stack words behind the format, formats numbers
  into a local buffer at \<open>bp\<close> and writes to the screen. The theorem at the end gives its output
  as a function of the format, the arguments and the strings they point to.
\<close>

subsection \<open>Operations\<close>

type_synonym pf = "mem \<times> vga"

definition pad_char :: "bool \<Rightarrow> u8" where
  "pad_char pad_zero = (if pad_zero then 48 else 32)"

text \<open>The loop \<open>for (int i = len; i < width; i++) vga_putchar(c)\<close>.\<close>

definition put_pad :: "u8 \<Rightarrow> u32 \<Rightarrow> u32 \<Rightarrow> vga \<Rightarrow> vga" where
  "put_pad c len width v = fold (\<lambda>_. vga_putchar c) [0..<nat (sint width - sint len)] v"

definition printf_number :: "ptr \<Rightarrow> u32 \<Rightarrow> u32 \<Rightarrow> u32 \<Rightarrow> bool \<Rightarrow> pf \<Rightarrow> pf option" where
  "printf_number bp num base width pad_zero st =
     (case st of (m, v) \<Rightarrow>
        (case itoa m num bp base of
           None \<Rightarrow> None
         | Some (m1, _) \<Rightarrow>
             (case strlen m1 bp of
                None \<Rightarrow> None
              | Some len \<Rightarrow>
                  map_option (Pair m1) (vga_puts m1 bp (put_pad (pad_char pad_zero) len width v)))))"

definition printf_signed :: "ptr \<Rightarrow> u32 \<Rightarrow> u32 \<Rightarrow> bool \<Rightarrow> pf \<Rightarrow> pf option" where
  "printf_signed bp num width pad_zero st =
     (if sint num < 0
      then (case st of (m, v) \<Rightarrow> printf_number bp (- num) 10 (width - 1) pad_zero (m, vga_putchar 45 v))
      else printf_number bp num 10 width pad_zero st)"

definition put_literal :: "string \<Rightarrow> vga \<Rightarrow> vga" where
  "put_literal s v = put_bytes (bytes s) v"

definition printf_string :: "u32 \<Rightarrow> u32 \<Rightarrow> pf \<Rightarrow> pf option" where
  "printf_string str width st =
     (case st of (m, v) \<Rightarrow>
        if str = 0
        then Some (m, put_literal ''(null)'' (put_pad 32 (of_nat (length ''(null)'')) width v))
        else (case strlen m str of
                None \<Rightarrow> None
              | Some len \<Rightarrow> map_option (Pair m) (vga_puts m str (put_pad 32 len width v))))"

text \<open>
  The \<open>switch\<close>: the conversion character, the width and flag, and the arguments with the
  number of the next one. The result counts the arguments consumed.
\<close>

definition printf_directive ::
    "ptr \<Rightarrow> u8 \<Rightarrow> u32 \<Rightarrow> bool \<Rightarrow> (nat \<Rightarrow> u32) \<Rightarrow> nat \<Rightarrow> pf \<Rightarrow> (nat \<times> pf) option" where
  "printf_directive bp c width pad_zero args k st =
     (if c = 100 \<or> c = 105 then map_option (Pair (k + 1)) (printf_signed bp (args k) width pad_zero st)
      else if c = 117 then map_option (Pair (k + 1)) (printf_number bp (args k) 10 width pad_zero st)
      else if c = 120 then map_option (Pair (k + 1)) (printf_number bp (args k) 16 width pad_zero st)
      else if c = 88 then map_option (Pair (k + 1)) (printf_number bp (args k) 16 width pad_zero st)
      else if c = 111 then map_option (Pair (k + 1)) (printf_number bp (args k) 8 width pad_zero st)
      else if c = 112 then
        (case st of (m, v) \<Rightarrow>
           map_option (Pair (k + 1)) (printf_number bp (args k) 16 8 True (m, put_literal ''0x'' v)))
      else if c = 115 then map_option (Pair (k + 1)) (printf_string (args k) width st)
      else if c = 99 then (case st of (m, v) \<Rightarrow> Some (k + 1, (m, vga_putchar (ucast (args k)) v)))
      else if c = 37 then (case st of (m, v) \<Rightarrow> Some (k, (m, vga_putchar 37 v)))
      else (case st of (m, v) \<Rightarrow> Some (k, (m, vga_putchar c (vga_putchar 37 v)))))"

definition is_digit :: "u8 \<Rightarrow> bool" where
  "is_digit c \<longleftrightarrow> 48 \<le> sint c \<and> sint c \<le> 57"

partial_function (option) parse_width :: "mem \<Rightarrow> ptr \<Rightarrow> u32 \<Rightarrow> (u32 \<times> ptr) option" where
  "parse_width m fmt width =
     (if is_digit (m fmt) then parse_width m (fmt + 1) (width * 10 + (scast (m fmt) - 48))
      else Some (width, fmt))"

partial_function (option) printf_loop ::
    "ptr \<Rightarrow> (nat \<Rightarrow> u32) \<Rightarrow> ptr \<Rightarrow> nat \<Rightarrow> pf \<Rightarrow> pf option" where
  "printf_loop bp args fmt k st =
     (case st of (m, v) \<Rightarrow>
        if m fmt = 0 then Some st
        else if m fmt \<noteq> 37 then printf_loop bp args (fmt + 1) k (m, vga_putchar (m fmt) v)
        else
          let fmt1 = fmt + 1;
              pad_zero = (m fmt1 = 48);
              fmt2 = (if pad_zero then fmt1 + 1 else fmt1)
          in (case parse_width m fmt2 0 of
                None \<Rightarrow> None
              | Some (width, fmt3) \<Rightarrow>
                  (case printf_directive bp (m fmt3) width pad_zero args k st of
                     None \<Rightarrow> None
                   | Some (k', st') \<Rightarrow> printf_loop bp args (fmt3 + 1) k' st')))"

definition printf :: "ptr \<Rightarrow> ptr \<Rightarrow> (nat \<Rightarrow> u32) \<Rightarrow> pf \<Rightarrow> pf option" where
  "printf bp fmt args st = printf_loop bp args fmt 0 st"

text \<open>
  \<open>kernel_panic\<close> prints its message between fixed texts and halts; the result is the screen it
  halts with.
\<close>

definition kernel_panic :: "mem \<Rightarrow> ptr \<Rightarrow> vga \<Rightarrow> vga option" where
  "kernel_panic m msg v0 =
     (let v1 = put_bytes (10 # bytes ''*** KERNEL PANIC ***'' @ [10]) v0;
          v2 = put_literal ''Kernel: '' v1;
          v3 = put_literal ''Vaelen Linux'' v2;
          v4 = put_literal '' v'' v3;
          v5 = put_literal ''0.1.0'' v4;
          v6 = put_bytes (10 # bytes ''Error: '') v5
      in map_option (put_bytes (10 # 10 # bytes ''System halted. Please restart your computer.'' @ [10]))
           (vga_puts m msg v6))"

subsection \<open>The text printed\<close>

definition pad_l :: "u8 \<Rightarrow> u32 \<Rightarrow> u8 list \<Rightarrow> u8 list" where
  "pad_l c width s = replicate (nat (sint width - int (length s))) c @ s"

definition number_l :: "u32 \<Rightarrow> u32 \<Rightarrow> u32 \<Rightarrow> bool \<Rightarrow> u8 list" where
  "number_l num base width pad_zero = pad_l (pad_char pad_zero) width (itoa_l num base)"

definition signed_l :: "u32 \<Rightarrow> u32 \<Rightarrow> bool \<Rightarrow> u8 list" where
  "signed_l num width pad_zero =
     (if sint num < 0 then 45 # number_l (- num) 10 (width - 1) pad_zero
      else number_l num 10 width pad_zero)"

text \<open>
  \<open>strs p\<close> is the string at address \<open>p\<close>, where there is one. The result is the text of one
  conversion and the number of arguments it takes.
\<close>

definition directive_l ::
    "(ptr \<Rightarrow> u8 list option) \<Rightarrow> u8 \<Rightarrow> u32 \<Rightarrow> bool \<Rightarrow> u32 \<Rightarrow> (nat \<times> u8 list) option" where
  "directive_l strs c width pad_zero a =
     (if c = 100 \<or> c = 105 then Some (1, signed_l a width pad_zero)
      else if c = 117 then Some (1, number_l a 10 width pad_zero)
      else if c = 120 \<or> c = 88 then Some (1, number_l a 16 width pad_zero)
      else if c = 111 then Some (1, number_l a 8 width pad_zero)
      else if c = 112 then Some (1, bytes ''0x'' @ number_l a 16 8 True)
      else if c = 115 then
        (if a = 0 then Some (1, pad_l 32 width (bytes ''(null)''))
         else map_option (\<lambda>s. (1, pad_l 32 width s)) (strs a))
      else if c = 99 then Some (1, [ucast a])
      else if c = 37 then Some (0, [37])
      else Some (0, [37, c]))"

fun width_l :: "u32 \<Rightarrow> u8 list \<Rightarrow> u32 \<times> u8 list" where
  "width_l w [] = (w, [])"
| "width_l w (c # f) = (if is_digit c then width_l (w * 10 + (scast c - 48)) f else (w, c # f))"

lemma width_l_shorter: "length (snd (width_l w f)) \<le> length f"
  by (induction w f rule: width_l.induct) auto

lemma width_l_rest:
  "(w, d # g) = width_l w0 f \<Longrightarrow> length g < length f"
  using width_l_shorter [of w0 f] by (auto dest: sym)

text \<open>The whole output; \<open>None\<close> for a format that ends inside a conversion.\<close>

function render :: "(ptr \<Rightarrow> u8 list option) \<Rightarrow> (nat \<Rightarrow> u32) \<Rightarrow> nat \<Rightarrow> u8 list \<Rightarrow> u8 list option" where
  "render strs args k [] = Some []"
| "render strs args k (c # f) =
     (if c \<noteq> 37 then map_option (Cons c) (render strs args k f)
      else
        let pad_zero = (f \<noteq> [] \<and> hd f = 48)
        in (case width_l 0 (if pad_zero then tl f else f) of
              (width, []) \<Rightarrow> None
            | (width, d # g) \<Rightarrow>
                (case directive_l strs d width pad_zero (args k) of
                   None \<Rightarrow> None
                 | Some (n, s) \<Rightarrow> map_option (append s) (render strs args (k + n) g))))"
  by pat_completeness auto
termination
  by (relation "measure (\<lambda>(_, _, _, f). length f)")
    (auto dest!: width_l_rest split: if_splits)

declare render.simps [simp del]

lemmas render_Nil [simp] = render.simps(1)

lemma render_plain [simp]: "c \<noteq> 37 \<Longrightarrow> render strs args k (c # f) = map_option (Cons c) (render strs args k f)"
  by (simp add: render.simps(2))

subsection \<open>The helpers print their text\<close>

lemma put_pad_eq: "put_pad c (of_nat n) width v = put_bytes (replicate (nat (sint width - int n)) c) v"
  if "n < 2 ^ 31"
proof -
  have "sint (of_nat n :: u32) = int n"
    using that by (simp add: signed_of_nat signed_take_bit_int_eq_self)
  moreover have "fold (\<lambda>_. vga_putchar c) [0..<k] v = put_bytes (replicate k c) v" for k
    by (induction k) (simp_all add: replicate_append_same [symmetric])
  ultimately show ?thesis by (simp add: put_pad_def)
qed

lemma length_itoa_l_8: "8 \<le> unat base \<Longrightarrow> length (itoa_l num base) \<le> 12"
proof -
  assume b: "8 \<le> unat base"
  have "length (digits_l (unat base) (unat num)) \<le> 11"
  proof -
    have "(8::nat) ^ 11 \<le> unat base ^ 11" using b by (intro power_mono) auto
    then have "unat num < unat base ^ Suc 10" using unat_u32_less [of num] by simp
    with b show ?thesis using length_digit_list [of "unat base" "unat num" 10] by (simp add: digits_l_map)
  qed
  moreover have "length (digits_l 10 (unat (- num))) \<le> 11"
    using length_digit_list [of 10 "unat (- num)" 10] unat_u32_less [of "- num"]
    by (simp add: digits_l_map)
  ultimately show ?thesis by (auto simp: itoa_l_def)
qed

text \<open>\<open>agree bp m m'\<close>: the memories differ in the 32 bytes of the local buffer only.\<close>

definition agree :: "ptr \<Rightarrow> mem \<Rightarrow> mem \<Rightarrow> bool" where
  "agree bp m m' \<longleftrightarrow> (\<forall>a. a \<notin> region bp 32 \<longrightarrow> m' a = m a)"

lemma agree_refl [simp]: "agree bp m m"
  by (simp add: agree_def)

lemma agree_trans: "agree bp m m1 \<Longrightarrow> agree bp m1 m2 \<Longrightarrow> agree bp m m2"
  by (simp add: agree_def)

lemma agree_cstr: "agree bp m m' \<Longrightarrow> cstr m p s \<Longrightarrow> region p (Suc (length s)) \<inter> region bp 32 = {} \<Longrightarrow> cstr m' p s"
  using cstr_cong [of p s m m'] unfolding agree_def by (metis disjoint_iff)

lemma printf_number_prints:
  assumes bp: "unat bp + 34 \<le> 2 ^ 32" and base: "8 \<le> unat base" "unat base \<le> 36"
  shows "\<exists>m'. printf_number bp num base width pad_zero (m, v)
      = Some (m', put_bytes (number_l num base width pad_zero) v) \<and> agree bp m m'"
proof -
  have b2: "2 \<le> unat base" using base(1) by simp
  let ?s = "itoa_l num base"
  define m' where "m' = write_bytes m bp (?s @ [0])"
  have len: "length ?s \<le> 12" using base(1) by (rule length_itoa_l_8)
  have run: "itoa m num bp base = Some (m', bp)" unfolding m'_def by (rule itoa_write [OF b2 base(2) bp])
  have s: "cstr m' bp ?s"
    unfolding m'_def using itoa_l_nonzero [OF b2 base(2)] len by (intro cstr_write_bytes) auto
  have "agree bp m m'"
    unfolding agree_def m'_def
  proof (intro allI impI, rule write_bytes_outside)
    fix a assume "a \<notin> region bp 32"
    moreover have "region bp (length (?s @ [0])) \<subseteq> region bp 32" using len by (intro region_mono) simp
    ultimately show "a \<notin> region bp (length (?s @ [0]))" by blast
  qed
  moreover have "length ?s < 2 ^ 31" using len by simp
  ultimately show ?thesis
    by (simp add: printf_number_def run strlen_cstr [OF s] vga_puts_cstr [OF s] put_pad_eq number_l_def pad_l_def)
qed

lemma printf_signed_prints:
  assumes bp: "unat bp + 34 \<le> 2 ^ 32"
  shows "\<exists>m'. printf_signed bp num width pad_zero (m, v)
      = Some (m', put_bytes (signed_l num width pad_zero) v) \<and> agree bp m m'"
  using printf_number_prints [OF bp, of 10 num width pad_zero m v]
    printf_number_prints [OF bp, of 10 "- num" "width - 1" pad_zero m "vga_putchar 45 v"]
  by (simp add: printf_signed_def signed_l_def)

definition strings_at :: "ptr \<Rightarrow> mem \<Rightarrow> (ptr \<Rightarrow> u8 list option) \<Rightarrow> bool" where
  "strings_at bp m strs \<longleftrightarrow> (\<forall>p s. strs p = Some s \<longrightarrow>
     cstr m p s \<and> length s < 2 ^ 31 \<and> region p (Suc (length s)) \<inter> region bp 32 = {})"

lemma strings_at_agree: "strings_at bp m strs \<Longrightarrow> agree bp m m' \<Longrightarrow> strings_at bp m' strs"
  unfolding strings_at_def using agree_cstr by metis

lemma printf_string_prints:
  assumes "strings_at bp m strs" and "strs p = Some s" and "p \<noteq> 0"
  shows "printf_string p width (m, v) = Some (m, put_bytes (pad_l 32 width s) v)"
proof -
  have s: "cstr m p s" "length s < 2 ^ 31" using assms(1,2) by (auto simp: strings_at_def)
  then show ?thesis
    using assms(3) by (simp add: printf_string_def strlen_cstr [OF s(1)] vga_puts_cstr [OF s(1)] put_pad_eq pad_l_def)
qed

lemma printf_null_prints: "printf_string 0 width (m, v) = Some (m, put_bytes (pad_l 32 width (bytes ''(null)'')) v)"
  using put_pad_eq [of 6 32 width v] by (simp add: printf_string_def put_literal_def pad_l_def bytes_def)

lemma printf_directive_prints:
  assumes bp: "unat bp + 34 \<le> 2 ^ 32" and strs: "strings_at bp m strs"
    and d: "directive_l strs c width pad_zero (args k) = Some (n, s)"
  shows "\<exists>m'. printf_directive bp c width pad_zero args k (m, v) = Some (k + n, (m', put_bytes s v))
    \<and> agree bp m m'"
proof -
  note num = printf_number_prints [OF bp, of _ "args k"] and sgn = printf_signed_prints [OF bp, of "args k" width pad_zero m v]
  consider "c = 100 \<or> c = 105" | "c = 117" | "c = 120 \<or> c = 88" | "c = 111" | "c = 112" | "c = 115"
    | "c \<notin> {100, 105, 117, 120, 88, 111, 112, 115}" by blast
  then show ?thesis
  proof cases
    case 1
    then show ?thesis using d sgn by (auto simp: printf_directive_def directive_l_def)
  next
    case 2
    then show ?thesis using d num [of 10 width pad_zero m v] by (auto simp: printf_directive_def directive_l_def)
  next
    case 3
    then show ?thesis using d num [of 16 width pad_zero m v] by (auto simp: printf_directive_def directive_l_def)
  next
    case 4
    then show ?thesis using d num [of 8 width pad_zero m v] by (auto simp: printf_directive_def directive_l_def)
  next
    case 5
    then show ?thesis using d num [of 16 8 True m "put_bytes (bytes ''0x'') v"]
      by (auto simp: printf_directive_def directive_l_def put_literal_def)
  next
    case 6
    then show ?thesis
      using d printf_null_prints [of width m v] printf_string_prints [OF strs, of "args k" _ width v]
      by (auto simp: printf_directive_def directive_l_def split: if_splits)
  next
    case 7
    then show ?thesis using d by (auto simp: printf_directive_def directive_l_def split: if_splits)
  qed
qed

lemma region_drop: "i \<le> n \<Longrightarrow> region (p + of_nat i) (n - i) \<subseteq> region p n"
proof
  fix a assume "i \<le> n" and "a \<in> region (p + of_nat i) (n - i)"
  then obtain j where "j < n - i" "a = p + of_nat (i + j)" by (auto simp: add.assoc)
  then show "a \<in> region p n" by (auto intro: region_memI simp del: of_nat_add)
qed

lemma parse_width_cstr:
  "cstr m p f \<Longrightarrow> \<exists>j \<le> length f. parse_width m p w = Some (fst (width_l w f), p + of_nat j)
     \<and> snd (width_l w f) = drop j f"
proof (induction w f arbitrary: p rule: width_l.induct)
  case (1 w)
  then show ?case by (subst parse_width.simps) (simp add: is_digit_def)
next
  case (2 w c f)
  show ?case
  proof (cases "is_digit c")
    case True
    then obtain j where "j \<le> length f" "parse_width m (p + 1) (w * 10 + (scast c - 48))
        = Some (fst (width_l (w * 10 + (scast c - 48)) f), p + 1 + of_nat j)"
      "snd (width_l (w * 10 + (scast c - 48)) f) = drop j f"
      using 2 by fastforce
    then show ?thesis
      using True 2 by (intro exI [of _ "Suc j"]) (subst parse_width.simps, simp)
  next
    case False
    then show ?thesis using 2 by (intro exI [of _ 0]) (subst parse_width.simps, simp)
  qed
qed

lemma printf_loop_prints:
  assumes bp: "unat bp + 34 \<le> 2 ^ 32"
  shows "render strs args k f = Some out \<Longrightarrow> cstr m p f \<Longrightarrow> region p (Suc (length f)) \<inter> region bp 32 = {}
    \<Longrightarrow> strings_at bp m strs
    \<Longrightarrow> \<exists>m'. printf_loop bp args p k (m, v) = Some (m', put_bytes out v) \<and> agree bp m m'"
proof (induction strs args k f arbitrary: m p v out rule: render.induct)
  case (1 strs args k)
  then show ?case by (subst printf_loop.simps) simp
next
  case (2 strs args k c f)
  have m: "m p = c" "c \<noteq> 0" "cstr m (p + 1) f" using 2(4) by auto
  have sub: "region (p + 1) (Suc (length f)) \<inter> region bp 32 = {}"
    using 2(5) by (auto simp: region_Suc [of p])
  show ?case
  proof (cases "c = 37")
    case False
    then obtain out' where out: "render strs args k f = Some out'" "out = c # out'"
      using 2(3) by (auto simp: render.simps(2))
    from 2(1) [OF False out(1) m(3) sub 2(6), of "vga_putchar c v"] False m(1,2) out(2) show ?thesis
      by (subst printf_loop.simps) simp
  next
    case True
    define pz where "pz \<longleftrightarrow> f \<noteq> [] \<and> hd f = 48"
    define f2 where "f2 = (if pz then tl f else f)"
    define q where "q = (if pz then p + 1 + 1 else p + 1)"
    have pz: "(m (p + 1) = 48) = pz" using m(3) by (cases f) (auto simp: pz_def)
    have f2: "cstr m q f2" using m(3) by (cases f) (auto simp: f2_def q_def pz_def)
    obtain i where i: "i \<le> length f" "f2 = drop i f" "q = p + 1 + of_nat i"
      by (rule that [of "if pz then 1 else 0"])
        (auto simp: f2_def q_def pz_def drop_Suc Suc_le_eq)
    obtain j where j: "j \<le> length f2" "parse_width m q 0 = Some (fst (width_l 0 f2), q + of_nat j)"
      "snd (width_l 0 f2) = drop j f2"
      using parse_width_cstr [OF f2, of 0] by blast
    define width where "width = fst (width_l 0 f2)"
    obtain d g n s out' where dg: "width_l 0 f2 = (width, d # g)"
      and dir: "directive_l strs d width pz (args k) = Some (n, s)"
      and out: "render strs args (k + n) g = Some out'" "out = s @ out'"
      using 2(3) True
      by (auto simp: render.simps(2) Let_def width_def pz_def [symmetric] f2_def [symmetric]
          split: prod.splits list.splits option.splits)
    have dg': "drop j f2 = d # g" using j(3) dg by simp
    have at: "cstr m (q + of_nat j) (d # g)"
      using cstr_drop [OF f2 j(1)] dg' by simp
    obtain m1 where m1: "printf_directive bp d width pz args k (m, v) = Some (k + n, (m1, put_bytes s v))"
      "agree bp m m1"
      using printf_directive_prints [OF bp 2(6), of d width pz args k n s v] dir by blast
    define r where "r = q + of_nat j + 1"
    have "drop (i + j) f = d # g" using dg' i(2) by (simp add: drop_drop add.commute)
    then have "length f - (i + j) = Suc (length g)" by (metis length_drop length_Cons)
    then have len: "Suc (length f) - (i + j + 1) = Suc (length g)" "i + j + 1 \<le> Suc (length f)"
      by simp_all
    have "region r (Suc (length g)) \<subseteq> region (p + 1) (Suc (length f))"
      using region_drop [OF len(2), of "p + 1"] len(1) i(3) by (simp add: r_def add_ac)
    then have rg: "region r (Suc (length g)) \<inter> region bp 32 = {}" using sub by blast
    have "cstr m r g" using at by (simp add: r_def)
    then have g: "cstr m1 r g" using agree_cstr [OF m1(2)] rg by blast
    have "strings_at bp m1 strs" using strings_at_agree 2(6) m1(2) .
    obtain m' where m': "printf_loop bp args r (k + n) (m1, put_bytes s v) = Some (m', put_bytes out' (put_bytes s v))"
      "agree bp m1 m'"
      using 2(2) [of pz width "d # g" d g "(n, s)" n s out' m1 r "put_bytes s v"] True dg dir out(1) g rg
        strings_at_agree [OF 2(6) m1(2)]
      by (auto simp: pz_def f2_def)
    have "printf_loop bp args p k (m, v) = printf_loop bp args r (k + n) (m1, put_bytes s v)"
      using m(1,2) True pz j(2) m1(1) at
      by (subst printf_loop.simps) (simp add: Let_def q_def [symmetric] width_def [symmetric] r_def)
    then show ?thesis
      using m' agree_trans [OF m1(2)] out(2) by (intro exI [of _ m']) auto
  qed
qed

text \<open>C25. \<open>printf\<close> of a format that ends outside a conversion prints exactly the rendered text: it
  runs to the end, for every conversion, flag and width, with the arguments taken in order,
  and changes no memory but its own 32-byte buffer. The strings arguments point to, and the
  format, must not lie in that buffer.\<close>

theorem printf_renders:
  assumes "unat bp + 34 \<le> 2 ^ 32" and "cstr m fmt f" and "region fmt (Suc (length f)) \<inter> region bp 32 = {}"
    and "strings_at bp m strs" and "render strs args 0 f = Some out"
  shows "\<exists>m'. printf bp fmt args (m, v) = Some (m', put_bytes out v)
    \<and> (\<forall>a. a \<notin> region bp 32 \<longrightarrow> m' a = m a)"
  using printf_loop_prints [OF assms(1,5,2-4), of v] by (simp add: printf_def agree_def)

text \<open>Two formats in an otherwise empty memory.\<close>

definition fmt_mem :: "u8 list \<Rightarrow> mem" where
  "fmt_mem f = write_bytes (\<lambda>_. 0) 0x1000 (f @ [0])"

lemma fmt_mem_cstr: "0 \<notin> set f \<Longrightarrow> length f < 100 \<Longrightarrow> cstr (fmt_mem f) 0x1000 f"
  unfolding fmt_mem_def by (rule cstr_write_bytes) simp_all

lemma fmt_mem_apart: "length f < 100 \<Longrightarrow> region 0x1000 (Suc (length f)) \<inter> region 0x2000 32 = {}"
  by (rule region_apart) simp_all

lemma no_strings: "strings_at bp m (\<lambda>_. None)"
  by (simp add: strings_at_def)

lemma digit_bytes: "bytes ''%03d!'' = [37, 48, 51, 100, 33]" "bytes ''%u'' = [37, 117]" "bytes ''%d'' = [37, 100]"
  by (simp_all add: bytes_def)

lemma render_number_format: "render strs (\<lambda>_. - 7) 0 (bytes ''%03d!'') = Some (bytes ''-07!'')"
  by (simp add: digit_bytes render.simps(2) is_digit_def directive_l_def signed_l_def number_l_def pad_l_def
      pad_char_def itoa_l_def digits_l.simps digit_char_def bytes_def)

theorem printf_renders_witness:
  "\<forall>v. \<exists>m'. printf 0x2000 0x1000 (\<lambda>_. - 7) (fmt_mem (bytes ''%03d!''), v)
     = Some (m', put_bytes (bytes ''-07!'') v)"
proof
  fix v
  have "0 \<notin> set (bytes ''%03d!'')" "length (bytes ''%03d!'') < 100" by (simp_all add: digit_bytes)
  with printf_renders [OF _ fmt_mem_cstr fmt_mem_apart no_strings render_number_format]
  show "\<exists>m'. printf 0x2000 0x1000 (\<lambda>_. - 7) (fmt_mem (bytes ''%03d!''), v)
      = Some (m', put_bytes (bytes ''-07!'') v)"
    by (simp del: One_nat_def) blast
qed

lemma render_one: "render strs args 0 [37, 117] = Some (itoa_l (args 0) 10)"
  "render strs args 0 [37, 100] = Some (signed_l (args 0) 0 False)"
  by (simp_all add: render.simps(2) is_digit_def directive_l_def number_l_def pad_l_def)

text \<open>Signs go wrong at the edges: \<open>%u\<close> of a number from 2^31 on prints a minus sign and the
  digits of its two's complement, because \<open>itoa\<close> takes an \<open>int\<close>; and \<open>%d\<close> of the least
  integer prints two minus signs, because its negation is itself.\<close>

theorem printf_sign:
  assumes "unat bp + 34 \<le> 2 ^ 32" and "cstr m fmt (bytes f)"
    and "region fmt (Suc (length (bytes f))) \<inter> region bp 32 = {}"
    and "f = ''%u'' \<and> sint (args 0) < 0 \<or> f = ''%d'' \<and> args 0 = 0x80000000"
  shows "\<exists>m'. printf bp fmt args (m, v)
    = Some (m', put_bytes ((if f = ''%u'' then [45] else [45, 45]) @ digits_l 10 (unat (- args 0))) v)"
proof -
  have "render (\<lambda>_. None) args 0 (bytes f)
      = Some ((if f = ''%u'' then [45] else [45, 45]) @ digits_l 10 (unat (- args 0)))"
    using assms(4) by (auto simp: digit_bytes render_one itoa_l_def signed_l_def number_l_def pad_l_def)
  from printf_loop_prints [OF assms(1) this assms(2,3) no_strings, of v] show ?thesis
    by (auto simp: printf_def)
qed

theorem printf_sign_witness:
  "\<forall>v. \<exists>m'. printf 0x2000 0x1000 (\<lambda>_. - 1) (fmt_mem (bytes ''%u''), v)
     = Some (m', put_bytes (bytes ''-1'') v)"
proof
  fix v
  have "0 \<notin> set (bytes ''%u'')" "length (bytes ''%u'') < 100" by (simp_all add: digit_bytes)
  with printf_sign [OF _ fmt_mem_cstr fmt_mem_apart, of "''%u''" "\<lambda>_. - 1" v]
  show "\<exists>m'. printf 0x2000 0x1000 (\<lambda>_. - 1) (fmt_mem (bytes ''%u''), v)
      = Some (m', put_bytes (bytes ''-1'') v)"
    by (simp add: digits_l.simps digit_char_def bytes_def)
qed

text \<open>The last screen of a panic.\<close>

lemma kernel_panic_prints:
  assumes "cstr m msg s"
  shows "kernel_panic m msg v = Some (put_bytes ([10] @ bytes ''*** KERNEL PANIC ***'' @ [10]
     @ bytes ''Kernel: Vaelen Linux v0.1.0'' @ [10] @ bytes ''Error: '' @ s
     @ [10, 10] @ bytes ''System halted. Please restart your computer.'' @ [10]) v)"
  by (simp add: kernel_panic_def vga_puts_cstr [OF assms] put_literal_def bytes_def)

end
