(* ===== verification/Task.thy ===== *)
theory Task
  imports Paging Printf
begin

text \<open>
  Tasks and the scheduler, \<open>kernel/task.c\<close>: task records on a linked list, creation, fork,
  exit, sleep and wake-up, the priority scheduler, and the context switch of
  \<open>arch/x86_64/gdt_flush.s\<close>. The records are kept in a store indexed by their address; a
  task's name and its kernel stack are bytes of the flat memory.
\<close>

subsection \<open>State\<close>

definition TASK_STACK_SIZE :: u32 where "TASK_STACK_SIZE = 8192"
definition TASK_NAME_MAX :: u32 where "TASK_NAME_MAX = 32"

datatype task_state = TASK_RUNNING | TASK_READY | TASK_BLOCKED | TASK_SLEEPING | TASK_ZOMBIE | TASK_STOPPED

record task_context =
  x_eax :: u32
  x_ebx :: u32
  x_ecx :: u32
  x_edx :: u32
  x_esi :: u32
  x_edi :: u32
  x_esp :: u32
  x_ebp :: u32
  x_eip :: u32
  x_eflags :: u32
  x_cr3 :: u32
  x_ss :: u32
  x_cs :: u32
  x_ds :: u32
  x_es :: u32
  x_fs :: u32
  x_gs :: u32

record task =
  t_pid :: u32
  t_state :: task_state
  t_context :: task_context
  t_page_directory :: ptr
  t_kernel_stack :: ptr
  t_kernel_stack_top :: u32
  t_user_stack :: ptr
  t_sleep_ticks :: u32
  t_priority :: u32
  t_exit_code :: u32
  t_next :: ptr
  t_parent :: ptr
  t_heap_start :: u32
  t_heap_end :: u32
  t_brk :: u32

text \<open>\<open>sizeof(task_t)\<close>, \<open>sizeof(task_context_t)\<close> and the offset of \<open>name\<close> in \<open>task_t\<close>.\<close>

definition SIZEOF_TASK :: u32 where "SIZEOF_TASK = 156"
definition SIZEOF_CONTEXT :: u32 where "SIZEOF_CONTEXT = 68"

definition name_addr :: "ptr \<Rightarrow> ptr" where
  "name_addr p = p + 4"

record 'h tasks =
  tk_mm :: "'h mm"
  tk_store :: "ptr \<Rightarrow> task"
  task_list_head :: ptr
  current_task :: ptr
  idle_task :: ptr
  next_pid :: u32
  task_count :: u32
  tk_cpu :: cpu

definition zero_context :: task_context where
  "zero_context = \<lparr>x_eax = 0, x_ebx = 0, x_ecx = 0, x_edx = 0, x_esi = 0, x_edi = 0, x_esp = 0,
     x_ebp = 0, x_eip = 0, x_eflags = 0, x_cr3 = 0, x_ss = 0, x_cs = 0, x_ds = 0, x_es = 0, x_fs = 0,
     x_gs = 0\<rparr>"

definition zero_task :: task where
  "zero_task = \<lparr>t_pid = 0, t_state = TASK_RUNNING, t_context = zero_context, t_page_directory = 0,
     t_kernel_stack = 0, t_kernel_stack_top = 0, t_user_stack = 0, t_sleep_ticks = 0, t_priority = 0,
     t_exit_code = 0, t_next = 0, t_parent = 0, t_heap_start = 0, t_heap_end = 0, t_brk = 0\<rparr>"

definition set_task :: "ptr \<Rightarrow> task \<Rightarrow> (ptr \<Rightarrow> task) \<Rightarrow> ptr \<Rightarrow> task" where
  "set_task p tk S = S(p := tk)"

definition upd_task :: "ptr \<Rightarrow> (task \<Rightarrow> task) \<Rightarrow> 'h tasks \<Rightarrow> 'h tasks" where
  "upd_task p f st = st\<lparr>tk_store := set_task p (f (tk_store st p)) (tk_store st)\<rparr>"

lemma upd_task_simps [simp]:
  "tk_store (upd_task p f st) q = (if q = p then f (tk_store st p) else tk_store st q)"
  "current_task (upd_task p f st) = current_task st" "task_list_head (upd_task p f st) = task_list_head st"
  "idle_task (upd_task p f st) = idle_task st" "tk_mm (upd_task p f st) = tk_mm st"
  "tk_cpu (upd_task p f st) = tk_cpu st" "next_pid (upd_task p f st) = next_pid st"
  "task_count (upd_task p f st) = task_count st"
  by (simp_all add: upd_task_def set_task_def)

definition upd_mem :: "(mem \<Rightarrow> mem) \<Rightarrow> 'h tasks \<Rightarrow> 'h tasks" where
  "upd_mem f st = (let M = tk_mm st; fr = mm_frames M
     in st\<lparr>tk_mm := M\<lparr>mm_frames := fr\<lparr>fr_mem := f (fr_mem fr)\<rparr>\<rparr>\<rparr>)"

subsection \<open>Creating tasks\<close>

definition task_init :: "'h tasks \<Rightarrow> 'h tasks" where
  "task_init st = st\<lparr>task_list_head := 0, current_task := 0, next_pid := 1, task_count := 0\<rparr>"

definition tk_kmalloc :: "u32 \<Rightarrow> 'h tasks \<Rightarrow> (ptr \<times> 'h tasks) panicking option" where
  "tk_kmalloc sz st = map_option (map_sum id
     (\<lambda>(p, h). (p, st\<lparr>tk_mm := (tk_mm st)\<lparr>mm_heap := h\<rparr>\<rparr>))) (kmalloc sz (mm_heap (tk_mm st)))"

definition tk_clone_directory :: "ptr \<Rightarrow> 'h tasks \<Rightarrow> (ptr \<times> 'h tasks) panicking option" where
  "tk_clone_directory dir0 st = map_option (map_sum id (\<lambda>(d, M). (d, st\<lparr>tk_mm := M\<rparr>)))
     (mm_clone_directory dir0 (tk_mm st))"

text \<open>The words of a context, in the order of the struct, written to memory.\<close>

definition context_words :: "task_context \<Rightarrow> u32 list" where
  "context_words x = [x_eax x, x_ebx x, x_ecx x, x_edx x, x_esi x, x_edi x, x_esp x, x_ebp x, x_eip x,
     x_eflags x, x_cr3 x, x_ss x, x_cs x, x_ds x, x_es x, x_fs x, x_gs x]"

fun put_words :: "ptr \<Rightarrow> u32 list \<Rightarrow> mem \<Rightarrow> mem" where
  "put_words p [] m = m"
| "put_words p (w # ws) m = put_words (p + 4) ws (put_word m p w)"

definition entry_context :: "u32 \<Rightarrow> task_context" where
  "entry_context entry = zero_context\<lparr>x_eip := entry, x_eflags := 0x202, x_cs := 0x08, x_ss := 0x10,
     x_ds := 0x10, x_es := 0x10, x_fs := 0x10, x_gs := 0x10\<rparr>"

text \<open>\<open>task_create\<close> up to the second allocation, up to the directory, and to the end.\<close>

definition fill_task :: "ptr \<Rightarrow> ptr \<Rightarrow> u32 \<Rightarrow> 'h tasks \<Rightarrow> 'h tasks" where
  "fill_task task name priority st =
     (let st1 = upd_mem (\<lambda>m. fst (memset m (name_addr task) 0 TASK_NAME_MAX)) (upd_task task (\<lambda>_. zero_task) st);
          st2 = (upd_task task (\<lambda>t. t\<lparr>t_pid := next_pid st1\<rparr>) st1)\<lparr>next_pid := next_pid st1 + 1\<rparr>;
          st3 = upd_mem (\<lambda>m. fst (strncpy m (name_addr task) name (TASK_NAME_MAX - 1))) st2
      in upd_task task (\<lambda>t. t\<lparr>t_state := TASK_READY, t_priority := priority,
           t_brk := KERNEL_HEAP_START + KERNEL_HEAP_SIZE\<rparr>) st3)"

definition set_stack :: "ptr \<Rightarrow> ptr \<Rightarrow> 'h tasks \<Rightarrow> 'h tasks" where
  "set_stack task ks st =
     upd_task task (\<lambda>t. t\<lparr>t_kernel_stack := ks, t_kernel_stack_top := ks + TASK_STACK_SIZE\<rparr>) st"

definition enter_task :: "ptr \<Rightarrow> u32 \<Rightarrow> ptr \<Rightarrow> 'h tasks \<Rightarrow> 'h tasks" where
  "enter_task task entry dir st =
     (let st1 = upd_task task (\<lambda>t. t\<lparr>t_page_directory := dir,
            t_context := (t_context t)\<lparr>x_cr3 := pd_physical (mm_dirs (tk_mm st) dir)\<rparr>\<rparr>) st;
          stack = t_kernel_stack_top (tk_store st1 task) - SIZEOF_CONTEXT;
          st2 = upd_mem (put_words stack (context_words (entry_context entry))) st1;
          st3 = upd_task task (\<lambda>t. t\<lparr>t_context := (t_context t)\<lparr>x_esp := stack, x_eip := entry\<rparr>,
            t_next := task_list_head st2, t_parent := 0\<rparr>) st2
      in st3\<lparr>task_list_head := task, task_count := task_count st3 + 1\<rparr>)"

text \<open>\<open>dir0\<close> is the uninitialised pointer of \<open>mm_clone_directory\<close>.\<close>

definition task_create ::
    "ptr \<Rightarrow> ptr \<Rightarrow> u32 \<Rightarrow> u32 \<Rightarrow> 'h tasks \<Rightarrow> (ptr \<times> 'h tasks) panicking option" where
  "task_create dir0 name entry priority st =
     pbind (tk_kmalloc SIZEOF_TASK st) (\<lambda>(task, st1).
     pbind (tk_kmalloc TASK_STACK_SIZE (fill_task task name priority st1)) (\<lambda>(ks, st2).
     pbind (tk_clone_directory dir0 (set_stack task ks st2)) (\<lambda>(dir, st3).
       preturn (task, enter_task task entry dir st3))))"

definition task_fork :: "ptr \<Rightarrow> 'h tasks \<Rightarrow> (ptr \<times> 'h tasks) panicking option" where
  "task_fork dir0 st =
     (let parent = current_task st
      in if parent = 0 then preturn (0, st)
         else pbind (tk_kmalloc SIZEOF_TASK st) (\<lambda>(child, st1).
           let st2 = upd_mem (\<lambda>m. fst (memcpy m (name_addr child) (name_addr parent) TASK_NAME_MAX))
                 (upd_task child (\<lambda>_. tk_store st1 parent) st1);
               st3 = (upd_task child (\<lambda>t. t\<lparr>t_pid := next_pid st2, t_state := TASK_READY, t_parent := parent\<rparr>) st2)
                 \<lparr>next_pid := next_pid st2 + 1\<rparr>
           in pbind (tk_clone_directory dir0 st3) (\<lambda>(dir, st4).
             let st5 = upd_task child (\<lambda>t. t\<lparr>t_page_directory := dir,
                   t_context := (t_context t)\<lparr>x_cr3 := pd_physical (mm_dirs (tk_mm st4) dir)\<rparr>\<rparr>) st4
             in pbind (tk_kmalloc TASK_STACK_SIZE st5) (\<lambda>(ks, st6).
               let st7 = upd_mem (\<lambda>m. fst (memcpy m ks (t_kernel_stack (tk_store st6 parent)) TASK_STACK_SIZE))
                     (upd_task child (\<lambda>t. t\<lparr>t_kernel_stack := ks\<rparr>) st6);
                   st8 = upd_task child (\<lambda>t. t\<lparr>t_kernel_stack_top := ks + TASK_STACK_SIZE,
                     t_next := task_list_head st7\<rparr>) st7
               in preturn (child, st8\<lparr>task_list_head := child, task_count := task_count st8 + 1\<rparr>)))))"

subsection \<open>The context switch\<close>

text \<open>
  \<open>task_switch_context\<close>: the stack holds the saved \<open>ebp\<close>, \<open>ebx\<close>, \<open>esi\<close>, \<open>edi\<close> while
  the registers are stored and loaded; then it pops them and returns. What is loaded into \<open>ebx\<close>,
  \<open>esi\<close> and \<open>edi\<close> (the last two through the \<open>edx\<close> just loaded) is replaced by the pops. The
  result is the processor before the return and the context stored; theory \<open>Assembly\<close> derives it
  from the instructions.
\<close>

definition task_switch_context :: "ptr \<Rightarrow> task_context \<Rightarrow> task_context \<Rightarrow> cpu \<Rightarrow> cpu \<times> task_context" where
  "task_switch_context old_addr old_ctx new_ctx c =
     (let saved = [c_edi c, c_esi c, c_ebx c, c_ebp c];
          c1 = c\<lparr>c_ebp := c_esp c - 4, c_eax := old_addr\<rparr>;
          old1 = old_ctx\<lparr>x_eax := c_eax c1, x_ebx := c_ebx c1, x_ecx := c_ecx c1, x_edx := c_edx c1,
                   x_esi := c_esi c1, x_edi := c_edi c1\<rparr>;
          c2 = c1\<lparr>c_eax := x_eax new_ctx, c_ebx := x_ebx new_ctx, c_ecx := x_ecx new_ctx,
                 c_edx := x_edx new_ctx\<rparr>;
          c3 = c2\<lparr>c_edi := saved ! 0, c_esi := saved ! 1, c_ebx := saved ! 2, c_ebp := saved ! 3\<rparr>
      in (c3, old1))"

subsection \<open>The scheduler\<close>

definition runnable :: "task \<Rightarrow> bool" where
  "runnable t \<longleftrightarrow> t_state t = TASK_READY \<or> t_state t = TASK_RUNNING"

definition tick :: "task \<Rightarrow> task" where
  "tick t = (if t_state t = TASK_SLEEPING \<and> t_sleep_ticks t > 0
     then (let t1 = t\<lparr>t_sleep_ticks := t_sleep_ticks t - 1\<rparr>
           in if t_sleep_ticks t1 = 0 then t1\<lparr>t_state := TASK_READY\<rparr> else t1)
     else t)"

definition better :: "(ptr \<Rightarrow> task) \<Rightarrow> ptr \<Rightarrow> ptr \<Rightarrow> ptr" where
  "better S p best = (if runnable (S p) \<and> (best = 0 \<or> sint (t_priority (S p)) > sint (t_priority (S best)))
     then p else best)"

partial_function (option) sched_loop :: "ptr \<Rightarrow> ptr \<Rightarrow> (ptr \<Rightarrow> task) \<Rightarrow> (ptr \<times> (ptr \<Rightarrow> task)) option" where
  "sched_loop p best S =
     (if p = 0 then Some (best, S)
      else let best1 = better S p best;
               S1 = set_task p (tick (S p)) S
           in sched_loop (t_next (S1 p)) best1 S1)"

definition no_task_text :: "u8 list" where
  "no_task_text = bytes ''No tasks to run. Halting.'' @ [10]"

text \<open>The part after the search; \<open>Inl\<close> is the halt with its message.\<close>

definition switch_to :: "ptr \<Rightarrow> 'h tasks \<Rightarrow> 'h tasks" where
  "switch_to nt st =
     (let st1 = upd_task nt (\<lambda>t. t\<lparr>t_state := TASK_RUNNING\<rparr>) st;
          st2 = (if current_task st1 \<noteq> 0 \<and> t_state (tk_store st1 (current_task st1)) = TASK_RUNNING
                 then upd_task (current_task st1) (\<lambda>t. t\<lparr>t_state := TASK_READY\<rparr>) st1 else st1);
          prev = current_task st2;
          st3 = st2\<lparr>current_task := nt,
                    tk_mm := mm_switch_page_directory (t_page_directory (tk_store st2 nt)) (tk_mm st2)\<rparr>
      in if prev \<noteq> 0
         then (case task_switch_context (prev + 40) (t_context (tk_store st3 prev)) (t_context (tk_store st3 nt)) (tk_cpu st3) of
                 (c, old) \<Rightarrow> (upd_task prev (\<lambda>t. t\<lparr>t_context := old\<rparr>) st3)\<lparr>tk_cpu := c\<rparr>)
         else st3)"

definition task_schedule :: "'h tasks \<Rightarrow> 'h tasks panicking option" where
  "task_schedule st =
     (case sched_loop (task_list_head st) 0 (tk_store st) of
        None \<Rightarrow> None
      | Some (best, S) \<Rightarrow>
          let st1 = st\<lparr>tk_store := S\<rparr>;
              nt = (if best = 0 then idle_task st1 else best)
          in if nt = 0 then Some (Inl no_task_text)
             else if nt = current_task st1 then Some (Inr st1)
             else Some (Inr (switch_to nt st1)))"

definition task_exit :: "u32 \<Rightarrow> 'h tasks \<Rightarrow> 'h tasks panicking option" where
  "task_exit code st =
     (if current_task st = 0 then preturn st
      else task_schedule (upd_task (current_task st)
             (\<lambda>t. t\<lparr>t_state := TASK_ZOMBIE, t_exit_code := code\<rparr>) st))"

definition task_yield :: "'h tasks \<Rightarrow> 'h tasks panicking option" where
  "task_yield st = task_schedule st"

definition task_sleep :: "u32 \<Rightarrow> 'h tasks \<Rightarrow> 'h tasks panicking option" where
  "task_sleep ticks st =
     (if current_task st = 0 then preturn st
      else task_schedule (upd_task (current_task st)
             (\<lambda>t. t\<lparr>t_sleep_ticks := ticks, t_state := TASK_SLEEPING\<rparr>) st))"

definition task_wake :: "ptr \<Rightarrow> 'h tasks \<Rightarrow> 'h tasks" where
  "task_wake p st =
     (if t_state (tk_store st p) = TASK_SLEEPING
      then upd_task p (\<lambda>t. t\<lparr>t_state := TASK_READY, t_sleep_ticks := 0\<rparr>) st else st)"

definition task_get_current :: "'h tasks \<Rightarrow> ptr" where
  "task_get_current st = current_task st"

definition task_get_list_head :: "'h tasks \<Rightarrow> ptr" where
  "task_get_list_head st = task_list_head st"

partial_function (option) by_pid_loop :: "(ptr \<Rightarrow> task) \<Rightarrow> u32 \<Rightarrow> ptr \<Rightarrow> ptr option" where
  "by_pid_loop S pid p =
     (if p = 0 then Some 0 else if t_pid (S p) = pid then Some p else by_pid_loop S pid (t_next (S p)))"

definition task_get_by_pid :: "u32 \<Rightarrow> 'h tasks \<Rightarrow> ptr option" where
  "task_get_by_pid pid st = by_pid_loop (tk_store st) pid (task_list_head st)"

text \<open>The listing; \<open>bp\<close> is the address of its local buffer.\<close>

definition state_text :: "task_state \<Rightarrow> string" where
  "state_text s = (case s of TASK_RUNNING \<Rightarrow> ''RUN'' | TASK_READY \<Rightarrow> ''RDY'' | TASK_BLOCKED \<Rightarrow> ''BLK''
     | TASK_SLEEPING \<Rightarrow> ''SLP'' | TASK_ZOMBIE \<Rightarrow> ''ZMB'' | TASK_STOPPED \<Rightarrow> ''STP'')"

definition put_itoa :: "u32 \<Rightarrow> ptr \<Rightarrow> pf \<Rightarrow> pf option" where
  "put_itoa w bp st = (case st of (m, v) \<Rightarrow> (case itoa m w bp 10 of None \<Rightarrow> None
     | Some (m1, s) \<Rightarrow> map_option (Pair m1) (vga_puts m1 s v)))"

definition list_row :: "ptr \<Rightarrow> ptr \<Rightarrow> task \<Rightarrow> pf \<Rightarrow> pf option" where
  "list_row bp p t st =
     Option.bind (put_itoa (t_pid t) bp st) (\<lambda>(m, v).
     Option.bind (vga_puts m (name_addr p) (put_literal ''   '' v)) (\<lambda>v1.
     let v2 = put_literal ''  '' (put_literal (state_text (t_state t)) (put_literal ''  '' v1))
     in map_option (\<lambda>(m1, v3). (m1, put_bytes [10] v3)) (put_itoa (t_priority t) bp (m, v2))))"

partial_function (option) list_rows :: "ptr \<Rightarrow> (ptr \<Rightarrow> task) \<Rightarrow> ptr \<Rightarrow> pf \<Rightarrow> pf option" where
  "list_rows bp S p st =
     (if p = 0 then Some st
      else (case list_row bp p (S p) st of None \<Rightarrow> None | Some st1 \<Rightarrow> list_rows bp S (t_next (S p)) st1))"

definition task_list :: "ptr \<Rightarrow> 'h tasks \<Rightarrow> pf \<Rightarrow> pf option" where
  "task_list bp st p0 = (case p0 of (m, v) \<Rightarrow>
     list_rows bp (tk_store st) (task_list_head st)
       (m, put_bytes (bytes ''----  ------------------- --------- ---'' @ [10])
             (put_bytes (bytes ''PID   NAME                STATE     PRI'' @ [10]) v)))"

subsection \<open>The task list\<close>

text \<open>\<open>tlist S p ps\<close>: the list from \<open>p\<close> is \<open>ps\<close>, each task once.\<close>

fun tlist :: "(ptr \<Rightarrow> task) \<Rightarrow> ptr \<Rightarrow> ptr list \<Rightarrow> bool" where
  "tlist S p [] = (p = 0)"
| "tlist S p (q # qs) = (p = q \<and> q \<noteq> 0 \<and> q \<notin> set qs \<and> tlist S (t_next (S q)) qs)"

lemma tlist_cong: "(\<And>q. q \<in> set qs \<Longrightarrow> t_next (S q) = t_next (S' q)) \<Longrightarrow> tlist S p qs = tlist S' p qs"
  by (induction qs arbitrary: p) auto

lemma set_task_simps: "set_task p t S p = t" "q \<noteq> p \<Longrightarrow> set_task p t S q = S q"
  by (simp_all add: set_task_def)

lemma tick_simps [simp]: "t_next (tick t) = t_next t" "t_priority (tick t) = t_priority t" "t_pid (tick t) = t_pid t"
  "t_page_directory (tick t) = t_page_directory t" "t_context (tick t) = t_context t"
  by (simp_all add: tick_def Let_def)

lemma tick_runnable: "runnable t \<Longrightarrow> tick t = t"
  by (auto simp: tick_def runnable_def)

lemma tick_running [simp]: "t_state (tick t) = TASK_RUNNING \<longleftrightarrow> t_state t = TASK_RUNNING"
  by (auto simp: tick_def Let_def)

text \<open>What the search returns: the best runnable task and the ticked list.\<close>

definition best_of :: "(ptr \<Rightarrow> task) \<Rightarrow> ptr list \<Rightarrow> ptr \<Rightarrow> ptr" where
  "best_of S ps b = fold (better S) ps b"

definition tick_all :: "ptr list \<Rightarrow> (ptr \<Rightarrow> task) \<Rightarrow> ptr \<Rightarrow> task" where
  "tick_all ps S q = (if q \<in> set ps then tick (S q) else S q)"

lemma better_cong:
  "S q = S' q \<Longrightarrow> t_priority (S b) = t_priority (S' b) \<Longrightarrow> better S q b = better S' q b"
  by (simp add: better_def)

lemma best_of_cong:
  "(\<And>q. q \<in> set ps \<Longrightarrow> S q = S' q) \<Longrightarrow> t_priority (S b) = t_priority (S' b) \<Longrightarrow> best_of S ps b = best_of S' ps b"
proof (induction ps arbitrary: b)
  case Nil
  then show ?case by (simp add: best_of_def)
next
  case (Cons q ps)
  have "better S q b = better S' q b" using Cons.prems by (intro better_cong) auto
  moreover have "t_priority (S (better S' q b)) = t_priority (S' (better S' q b))"
    using Cons.prems by (auto simp: better_def)
  ultimately show ?case using Cons.IH [of "better S' q b"] Cons.prems by (simp add: best_of_def)
qed

lemma sched_loop_tlist:
  "tlist S p ps \<Longrightarrow> sched_loop p b S = Some (best_of S ps b, tick_all ps S)"
proof (induction ps arbitrary: p b S)
  case Nil
  then show ?case by (subst sched_loop.simps) (simp add: best_of_def tick_all_def fun_eq_iff)
next
  case (Cons q ps)
  define S1 where "S1 = set_task q (tick (S q)) S"
  have q: "p = q" "q \<noteq> 0" "q \<notin> set ps" "tlist S (t_next (S q)) ps" using Cons.prems by auto
  have S1: "S1 q = tick (S q)" "\<And>r. r \<noteq> q \<Longrightarrow> S1 r = S r" by (simp_all add: S1_def set_task_simps)
  have "tlist S1 (t_next (S1 q)) ps"
    using q tlist_cong [of ps S S1 "t_next (S q)"] S1 by (metis tick_simps(1))
  note IH = Cons.IH [OF this, of "better S q b"]
  have same: "S1 r = S r" if "r \<in> set ps" for r using q(3) S1(2) that by metis
  then have "\<And>r. r \<in> set ps \<Longrightarrow> S1 r = S r" by blast
  moreover have "t_priority (S1 r) = t_priority (S r)" for r using S1 by (cases "r = q") simp_all
  ultimately have "best_of S1 ps (better S q b) = best_of S ps (better S q b)"
    by (rule best_of_cong)
  moreover have "tick_all ps S1 = tick_all (q # ps) S"
    using q(3) S1 same by (auto simp: tick_all_def fun_eq_iff)
  ultimately show ?case
    using IH q(1,2) by (subst sched_loop.simps) (simp add: S1_def [symmetric] Let_def best_of_def)
qed

text \<open>The first task of the highest priority among the runnable ones.\<close>

definition is_pick :: "(ptr \<Rightarrow> task) \<Rightarrow> ptr list \<Rightarrow> ptr \<Rightarrow> bool" where
  "is_pick S ps p \<longleftrightarrow> (\<exists>us vs. ps = us @ p # vs \<and> runnable (S p)
     \<and> (\<forall>q \<in> set us. runnable (S q) \<longrightarrow> sint (t_priority (S q)) < sint (t_priority (S p)))
     \<and> (\<forall>q \<in> set vs. runnable (S q) \<longrightarrow> sint (t_priority (S q)) \<le> sint (t_priority (S p))))"

lemma is_pick_snoc_keep:
  "is_pick S ps p \<Longrightarrow> \<not> (runnable (S q) \<and> sint (t_priority (S q)) > sint (t_priority (S p))) \<Longrightarrow> is_pick S (ps @ [q]) p"
  unfolding is_pick_def by (elim exE conjE, rule_tac x = us in exI, rule_tac x = "vs @ [q]" in exI) auto

lemma is_pick_snoc_new:
  assumes "is_pick S ps p" and "runnable (S q)" and "sint (t_priority (S q)) > sint (t_priority (S p))"
  shows "is_pick S (ps @ [q]) q"
proof -
  have "sint (t_priority (S r)) < sint (t_priority (S q))" if "r \<in> set ps" "runnable (S r)" for r
    using assms(1,3) that unfolding is_pick_def by fastforce
  then show ?thesis
    unfolding is_pick_def using assms(2) by (intro exI [of _ ps] exI [of _ "[]"]) simp
qed

lemma best_of_pick:
  "0 \<notin> set ps \<Longrightarrow> (best_of S ps 0 = 0 \<and> (\<forall>q \<in> set ps. \<not> runnable (S q)))
    \<or> (best_of S ps 0 \<noteq> 0 \<and> is_pick S ps (best_of S ps 0))"
proof (induction ps rule: rev_induct)
  case Nil
  then show ?case by (simp add: best_of_def)
next
  case (snoc q ps)
  let ?b = "best_of S ps 0"
  have step: "best_of S (ps @ [q]) 0 = better S q ?b" by (simp add: best_of_def)
  have q: "q \<noteq> 0" using snoc.prems by auto
  from snoc.IH snoc.prems consider "?b = 0" "\<forall>r \<in> set ps. \<not> runnable (S r)" | "?b \<noteq> 0" "is_pick S ps ?b"
    by auto
  then show ?case
  proof cases
    case 1
    show ?thesis
    proof (cases "runnable (S q)")
      case True
      then have "is_pick S (ps @ [q]) q"
        unfolding is_pick_def using 1(2) by (intro exI [of _ ps] exI [of _ "[]"]) simp
      with True 1(1) q show ?thesis unfolding step by (simp add: better_def)
    next
      case False
      with 1 show ?thesis unfolding step by (simp add: better_def)
    qed
  next
    case 2
    show ?thesis
    proof (cases "runnable (S q) \<and> sint (t_priority (S q)) > sint (t_priority (S ?b))")
      case True
      with is_pick_snoc_new [OF 2(2)] q show ?thesis unfolding step by (simp add: better_def)
    next
      case False
      with is_pick_snoc_keep [OF 2(2)] 2(1) show ?thesis unfolding step by (auto simp: better_def)
    qed
  qed
qed

lemma is_pick_member: "is_pick S ps p \<Longrightarrow> p \<in> set ps \<and> runnable (S p)"
  by (auto simp: is_pick_def)

lemma is_pick_unique:
  assumes "is_pick S ps p" and "is_pick S ps q"
  shows "p = q"
proof -
  obtain us vs where p: "ps = us @ p # vs" "runnable (S p)"
    "\<forall>r \<in> set us. runnable (S r) \<longrightarrow> sint (t_priority (S r)) < sint (t_priority (S p))"
    "\<forall>r \<in> set vs. runnable (S r) \<longrightarrow> sint (t_priority (S r)) \<le> sint (t_priority (S p))"
    using assms(1) by (auto simp: is_pick_def)
  obtain us' vs' where q: "ps = us' @ q # vs'" "runnable (S q)"
    "\<forall>r \<in> set us'. runnable (S r) \<longrightarrow> sint (t_priority (S r)) < sint (t_priority (S q))"
    "\<forall>r \<in> set vs'. runnable (S r) \<longrightarrow> sint (t_priority (S r)) \<le> sint (t_priority (S q))"
    using assms(2) by (auto simp: is_pick_def)
  have "us @ p # vs = us' @ q # vs'" using p(1) q(1) by simp
  then show ?thesis
    using p(2-) q(2-) by (fastforce simp: append_eq_append_conv2 append_eq_Cons_conv Cons_eq_append_conv)
qed

subsection \<open>What the scheduler does\<close>

text \<open>
  Between two calls at most the current task is running, and it is on the list; there is no
  idle task (the source never sets one).
\<close>

definition sched_wf :: "'h tasks \<Rightarrow> ptr list \<Rightarrow> bool" where
  "sched_wf st ps \<longleftrightarrow> tlist (tk_store st) (task_list_head st) ps \<and> idle_task st = 0
     \<and> (current_task st \<noteq> 0 \<longrightarrow> current_task st \<in> set ps)
     \<and> (\<forall>p \<in> set ps. t_state (tk_store st p) = TASK_RUNNING \<longrightarrow> p = current_task st)"

lemma tlist_nonzero: "tlist S p ps \<Longrightarrow> 0 \<notin> set ps"
  by (induction ps arbitrary: p) auto

lemma tick_all_simps [simp]:
  "t_next (tick_all ps S q) = t_next (S q)" "t_priority (tick_all ps S q) = t_priority (S q)"
  "t_page_directory (tick_all ps S q) = t_page_directory (S q)"
  "t_state (tick_all ps S q) = TASK_RUNNING \<longleftrightarrow> t_state (S q) = TASK_RUNNING"
  by (simp_all add: tick_all_def)

text \<open>The store after a switch, task by task.\<close>

lemma switch_to_store:
  assumes "nt \<noteq> current_task st"
  shows "tk_store (switch_to nt st) q =
      (if q = nt then (tk_store st q)\<lparr>t_state := TASK_RUNNING\<rparr>
       else if q = current_task st \<and> q \<noteq> 0
       then (tk_store st q)\<lparr>t_state := (if t_state (tk_store st q) = TASK_RUNNING then TASK_READY else t_state (tk_store st q)),
              t_context := snd (task_switch_context (q + 40) (t_context (tk_store st q)) (t_context (tk_store st nt)) (tk_cpu st))\<rparr>
       else tk_store st q)"
    and "current_task (switch_to nt st) = nt" and "task_list_head (switch_to nt st) = task_list_head st"
    and "idle_task (switch_to nt st) = idle_task st"
    and "cr3 (tk_mm (switch_to nt st)) = pd_physical (mm_dirs (tk_mm st) (t_page_directory (tk_store st nt)))"
  using assms
  by (simp_all add: switch_to_def Let_def case_prod_beta mm_switch_page_directory_def)

lemma task_schedule_cases:
  assumes wf: "sched_wf st ps"
  defines "S \<equiv> tick_all ps (tk_store st)"
  shows "(task_schedule st = Some (Inl no_task_text) \<and> (\<forall>q \<in> set ps. \<not> runnable (tk_store st q)))
    \<or> (\<exists>p. is_pick (tk_store st) ps p \<and> p \<noteq> 0 \<and> task_schedule st
         = Some (Inr (if p = current_task st then st\<lparr>tk_store := S\<rparr> else switch_to p (st\<lparr>tk_store := S\<rparr>))))"
proof -
  have tl: "tlist (tk_store st) (task_list_head st) ps" and idle: "idle_task st = 0"
    using wf by (auto simp: sched_wf_def)
  show ?thesis
    using best_of_pick [OF tlist_nonzero [OF tl], of "tk_store st"] sched_loop_tlist [OF tl, of 0] idle
    by (auto simp: task_schedule_def S_def Let_def)
qed

lemma sched_wf_stay: "sched_wf st ps \<Longrightarrow> sched_wf (st\<lparr>tk_store := tick_all ps (tk_store st)\<rparr>) ps"
  using tlist_cong [of ps "tk_store st" "tick_all ps (tk_store st)" "task_list_head st"]
  by (simp add: sched_wf_def)

lemma sched_wf_switch:
  assumes "sched_wf st ps" and "p \<in> set ps" and "p \<noteq> current_task st"
  shows "sched_wf (switch_to p st) ps"
proof -
  note s = switch_to_store [OF assms(3)]
  have "tlist (tk_store (switch_to p st)) (task_list_head st) ps"
    using assms(1) tlist_cong [of ps "tk_store st" "tk_store (switch_to p st)" "task_list_head st"]
    by (simp add: sched_wf_def s(1))
  moreover have "q = p" if "q \<in> set ps" "t_state (tk_store (switch_to p st) q) = TASK_RUNNING" for q
  proof (rule ccontr)
    assume "q \<noteq> p"
    have "q \<noteq> 0" using that(1) assms(1) tlist_nonzero by (auto simp: sched_wf_def)
    have "t_state (tk_store st q) = TASK_RUNNING"
      using that(2) \<open>q \<noteq> p\<close> unfolding s(1) by (simp split: if_splits)
    then have "q = current_task st" using assms(1) that(1) by (simp add: sched_wf_def)
    then show False using that(2) \<open>q \<noteq> p\<close> \<open>q \<noteq> 0\<close> unfolding s(1) by (simp split: if_splits)
  qed
  ultimately show ?thesis
    using assms(1,2) by (simp add: sched_wf_def s(2-4))
qed

text \<open>C9. The scheduler either halts, exactly when no task on the list is ready or running, or
  makes current the first task of the highest priority among those, with its page directory;
  at most the current task is running afterwards.\<close>

theorem task_schedule_picks:
  assumes "sched_wf st ps"
  shows "(task_schedule st = Some (Inl no_task_text) \<and> (\<forall>q \<in> set ps. \<not> runnable (tk_store st q)))
    \<or> (\<exists>st'. task_schedule st = Some (Inr st') \<and> is_pick (tk_store st) ps (current_task st')
         \<and> sched_wf st' ps \<and> (current_task st' \<noteq> current_task st \<longrightarrow>
              t_state (tk_store st' (current_task st')) = TASK_RUNNING
              \<and> cr3 (tk_mm st') = pd_physical (mm_dirs (tk_mm st)
                  (t_page_directory (tk_store st (current_task st'))))))"
proof -
  let ?st = "st\<lparr>tk_store := tick_all ps (tk_store st)\<rparr>"
  have "\<exists>st'. task_schedule st = Some (Inr st') \<and> is_pick (tk_store st) ps (current_task st')
         \<and> sched_wf st' ps \<and> (current_task st' \<noteq> current_task st \<longrightarrow>
              t_state (tk_store st' (current_task st')) = TASK_RUNNING
              \<and> cr3 (tk_mm st') = pd_physical (mm_dirs (tk_mm st)
                  (t_page_directory (tk_store st (current_task st')))))"
    if p: "is_pick (tk_store st) ps p" "task_schedule st
      = Some (Inr (if p = current_task st then ?st else switch_to p ?st))" for p
  proof (cases "p = current_task st")
    case True
    with p sched_wf_stay [OF assms] show ?thesis by auto
  next
    case False
    then have ne: "p \<noteq> current_task ?st" by simp
    have "p \<in> set ps" using is_pick_member [OF p(1)] by simp
    then show ?thesis
      using False p sched_wf_switch [OF sched_wf_stay [OF assms], of p] switch_to_store [OF ne] by simp
  qed
  with task_schedule_cases [OF assms] show ?thesis by metis
qed

text \<open>Two ready tasks at 16 and 32, the second of the higher priority, and a processor.\<close>

definition cpu0 :: cpu where
  "cpu0 = \<lparr>c_eax = 0, c_ebx = 0, c_ecx = 0, c_edx = 0, c_esi = 0, c_edi = 0, c_ebp = 0, c_esp = 0x9000,
     c_ds = 16, c_es = 16, c_fs = 16, c_gs = 16, c_eip = 0x100000, c_cs = 8, c_eflags = 2\<rparr>"

definition empty_blocks :: "ptr \<Rightarrow> mem_block" where
  "empty_blocks = (\<lambda>_. \<lparr>mb_size = 0, mb_next = 0, mb_prev = 0, mb_free = False\<rparr>)"

definition tasks0 :: "bool tasks" where
  "tasks0 = \<lparr>tk_mm = mm_boot frames0 empty_blocks (\<lambda>_. None), tk_store = (\<lambda>_. zero_task),
     task_list_head = 0, current_task = 0, idle_task = 0, next_pid = 1, task_count = 0, tk_cpu = cpu0\<rparr>"

definition two_tasks :: "bool tasks" where
  "two_tasks = tasks0\<lparr>task_list_head := 16, next_pid := 3, task_count := 2,
     tk_store := (\<lambda>p. if p = 16 then zero_task\<lparr>t_pid := 2, t_state := TASK_READY, t_priority := 1, t_next := 32\<rparr>
       else if p = 32 then zero_task\<lparr>t_pid := 1, t_state := TASK_READY, t_priority := 2\<rparr> else zero_task)\<rparr>"

lemma two_tasks_simps:
  "tk_store two_tasks 16 = zero_task\<lparr>t_pid := 2, t_state := TASK_READY, t_priority := 1, t_next := 32\<rparr>"
  "tk_store two_tasks 32 = zero_task\<lparr>t_pid := 1, t_state := TASK_READY, t_priority := 2\<rparr>"
  "task_list_head two_tasks = 16" "current_task two_tasks = 0" "idle_task two_tasks = 0"
  by (simp_all add: two_tasks_def tasks0_def)

lemma two_tasks_wf: "sched_wf two_tasks [16, 32]"
  by (simp add: sched_wf_def two_tasks_simps zero_task_def)

lemma two_tasks_pick: "is_pick (tk_store two_tasks) [16, 32] 32"
  unfolding is_pick_def
  by (intro exI [of _ "[16]"] exI [of _ "[]"]) (simp add: two_tasks_simps runnable_def)

theorem task_schedule_picks_witness:
  "\<exists>st'. task_schedule two_tasks = Some (Inr st') \<and> current_task st' = 32
     \<and> t_state (tk_store st' 32) = TASK_RUNNING"
proof -
  have "runnable (tk_store two_tasks 32)" using two_tasks_pick is_pick_member by blast
  with task_schedule_picks [OF two_tasks_wf] obtain st' where st': "task_schedule two_tasks = Some (Inr st')"
    "is_pick (tk_store two_tasks) [16, 32] (current_task st')"
    "current_task st' \<noteq> current_task two_tasks \<longrightarrow> t_state (tk_store st' (current_task st')) = TASK_RUNNING"
    by auto
  have "current_task st' = 32" using st'(2) two_tasks_pick by (rule is_pick_unique)
  with st' show ?thesis by (auto simp: two_tasks_simps)
qed

lemma is_pick_cong:
  "is_pick S ps p \<Longrightarrow> (\<And>q. q \<in> set ps \<Longrightarrow> t_priority (S' q) = t_priority (S q))
    \<Longrightarrow> (\<And>q. q \<in> set ps \<Longrightarrow> runnable (S' q) = runnable (S q)) \<Longrightarrow> is_pick S' ps p"
  unfolding is_pick_def by (elim exE conjE, rule_tac x = us in exI, rule_tac x = vs in exI) auto

text \<open>C33. Yielding never rotates: when no task sleeps, a second \<open>task_yield\<close> keeps the task the
  first one chose and changes nothing, so tasks of the same or a lower priority wait until it
  sleeps or exits.\<close>

theorem task_yield_keeps:
  assumes wf: "sched_wf st ps" and awake: "\<forall>q \<in> set ps. t_state (tk_store st q) \<noteq> TASK_SLEEPING"
    and run: "task_yield st = Some (Inr st')"
  shows "task_yield st' = Some (Inr st')"
proof -
  have still: "tick_all ps S = S" if "\<forall>q \<in> set ps. t_state (S q) \<noteq> TASK_SLEEPING" for S
    using that by (auto simp: tick_all_def tick_def fun_eq_iff)
  have S: "tick_all ps (tk_store st) = tk_store st" using still awake by blast
  obtain p where p: "is_pick (tk_store st) ps p"
    and st': "st' = (if p = current_task st then st else switch_to p st)"
    using task_schedule_cases [OF wf] run unfolding task_yield_def S by auto
  have cur: "current_task st' = p" using st' switch_to_store(2) by (auto split: if_splits)
  have same: "t_priority (tk_store st' q) = t_priority (tk_store st q)"
    "runnable (tk_store st' q) = runnable (tk_store st q)"
    "(t_state (tk_store st' q) = TASK_SLEEPING) = (t_state (tk_store st q) = TASK_SLEEPING)"
    if "q \<in> set ps" for q
    using st' is_pick_member [OF p]
    by (auto simp: switch_to_store(1) runnable_def)
  have wf': "sched_wf st' ps"
    using wf st' sched_wf_switch [OF wf, of p] is_pick_member [OF p] by auto
  have pick': "is_pick (tk_store st') ps p" by (rule is_pick_cong [OF p]) (use same in simp_all)
  have S': "tick_all ps (tk_store st') = tk_store st'"
    using still awake same(3) by blast
  have "runnable (tk_store st' p)" "p \<in> set ps" using is_pick_member [OF pick'] by auto
  then obtain p' where "is_pick (tk_store st') ps p'"
    "task_schedule st' = Some (Inr (if p' = current_task st' then st' else switch_to p' st'))"
    using task_schedule_cases [OF wf'] unfolding S' by auto
  then show ?thesis using is_pick_unique [OF pick'] cur by (auto simp: task_yield_def)
qed

theorem task_yield_keeps_witness:
  "\<exists>st'. task_yield two_tasks = Some (Inr st') \<and> task_yield st' = Some (Inr st')"
proof -
  have "runnable (tk_store two_tasks 32)" using two_tasks_pick is_pick_member by blast
  then obtain st' where run: "task_yield two_tasks = Some (Inr st')"
    using task_schedule_cases [OF two_tasks_wf] by (auto simp: task_yield_def)
  have "\<forall>q \<in> set [16, 32]. t_state (tk_store two_tasks q) \<noteq> TASK_SLEEPING" by (simp add: two_tasks_simps)
  from task_yield_keeps [OF two_tasks_wf this run] run show ?thesis by blast
qed

text \<open>The context switch does not switch: it returns with the stack pointer, the frame pointer
  and the callee-saved registers of the task that called it, and so to that task; the stack
  pointers in the two contexts are neither stored nor loaded, and the stored \<open>eax\<close> is the
  address of the context itself.\<close>

theorem task_switch_context_returns:
  "case task_switch_context a old new c of (c', old') \<Rightarrow>
     c_esp c' = c_esp c \<and> c_ebp c' = c_ebp c \<and> c_ebx c' = c_ebx c \<and> c_esi c' = c_esi c
     \<and> c_edi c' = c_edi c \<and> x_esp old' = x_esp old \<and> x_eip old' = x_eip old \<and> x_eax old' = a"
  by (simp add: task_switch_context_def Let_def)

subsection \<open>Words in memory\<close>

lemma word_at_put_word [simp]: "word_at (put_word m p w) p = w"
proof (rule bit_word_eqI)
  fix k assume "k < LENGTH(32)"
  then have k: "k < 32" "k div 8 < 4" by simp_all
  have "8 * (k div 8) + k mod 8 = k" by simp
  then show "bit (word_at (put_word m p w) p) k = bit w k"
    using word_at_bit [OF k(1)] put_word_byte [OF k(2), of m p w] by (simp add: bit_simps)
qed

lemma word_at_cong: "(\<And>a. a \<in> region p 4 \<Longrightarrow> m' a = m a) \<Longrightarrow> word_at m' p = word_at m p"
  unfolding word_at_def using region_memI [of _ 4 p, where i = 0] region_memI [of 1 4 p] region_memI [of 2 4 p]
    region_memI [of 3 4 p] by simp

lemma word_at_put_other: "region p 4 \<inter> region q 4 = {} \<Longrightarrow> word_at (put_word m p w) q = word_at m q"
  by (intro word_at_cong put_word_other) blast

lemma region_from: "region (p + of_nat k) n \<subseteq> region p (k + n)"
proof
  fix a assume "a \<in> region (p + of_nat k) n"
  then obtain i where i: "i < n" "a = p + of_nat (k + i)" by (auto simp: region_def add.assoc)
  then show "a \<in> region p (k + n)" unfolding i(2) by (intro region_memI) simp
qed

lemma region_split: "k + n \<le> 2 ^ 32 \<Longrightarrow> region p k \<inter> region (p + of_nat k) n = {}"
proof -
  assume fits: "k + n \<le> 2 ^ 32"
  have False if j: "j < k" "i < n" and eq: "p + of_nat j = p + of_nat k + of_nat i" for i j
  proof -
    have "unat (of_nat j :: ptr) = unat (of_nat (k + i) :: ptr)" using eq by simp
    then show False using j fits by (simp add: unat_of_nat del: of_nat_add)
  qed
  then show ?thesis by (auto simp: region_def)
qed

lemma words_apart: "0 < i \<Longrightarrow> 4 * i + 4 \<le> 2 ^ 32 \<Longrightarrow> region p 4 \<inter> region (p + of_nat (4 * i)) 4 = {}"
proof -
  assume i: "0 < i" "4 * i + 4 \<le> 2 ^ 32"
  from i(1) have "region p 4 \<subseteq> region p (4 * i)" by (intro region_mono) simp
  with region_split [OF i(2), of p] show ?thesis by blast
qed

fun stack_at :: "mem \<Rightarrow> ptr \<Rightarrow> u32 list \<Rightarrow> bool" where
  "stack_at m p [] = True"
| "stack_at m p (w # ws) = (word_at m p = w \<and> stack_at m (p + 4) ws)"

lemma stack_at_nth: "stack_at m p ws \<longleftrightarrow> (\<forall>i < length ws. word_at m (p + of_nat (4 * i)) = ws ! i)"
proof (induction ws arbitrary: p)
  case Nil
  then show ?case by simp
next
  case (Cons w ws)
  have "p + 4 + of_nat (4 * i) = p + of_nat (4 * Suc i)" for i by (simp add: algebra_simps)
  then show ?case using Cons by (simp add: All_less_Suc2 add.assoc del: of_nat_mult of_nat_Suc)
qed

lemma stack_at_cong:
  assumes "\<And>a. a \<in> region p (4 * length ws) \<Longrightarrow> m' a = m a"
  shows "stack_at m' p ws = stack_at m p ws"
proof -
  have "word_at m' (p + of_nat (4 * i)) = word_at m (p + of_nat (4 * i))" if "i < length ws" for i
  proof (rule word_at_cong, rule assms)
    fix a assume "a \<in> region (p + of_nat (4 * i)) 4"
    then obtain j where "j < 4" "a = p + of_nat (4 * i + j)" by (auto simp: region_def add.assoc)
    then show "a \<in> region p (4 * length ws)" using that by (auto simp: region_def intro!: image_eqI [of _ _ "4 * i + j"])
  qed
  then show ?thesis by (simp add: stack_at_nth)
qed

lemma stack_at_push:
  assumes "stack_at m p ws" and "4 * length ws + 4 \<le> 2 ^ 32"
  shows "stack_at (put_word m (p - 4) w) (p - 4) (w # ws)"
proof -
  have "word_at (put_word m (p - 4) w) (p + of_nat (4 * i)) = word_at m (p + of_nat (4 * i))" if "i < length ws" for i
  proof (rule word_at_put_other)
    have "p - 4 + of_nat (4 * Suc i) = p + of_nat (4 * i)" by (simp add: algebra_simps)
    then show "region (p - 4) 4 \<inter> region (p + of_nat (4 * i)) 4 = {}"
      using words_apart [of "Suc i" "p - 4"] that assms(2) by simp
  qed
  then have "stack_at (put_word m (p - 4) w) p ws" using assms(1) by (simp add: stack_at_nth del: of_nat_mult)
  then show ?thesis by simp
qed

lemma put_words_other: "a \<notin> region p (4 * length ws) \<Longrightarrow> put_words p ws m a = m a"
proof (induction ws arbitrary: p m)
  case Nil
  then show ?case by simp
next
  case (Cons w ws)
  have "region (p + of_nat 4) (4 * length ws) \<subseteq> region p (4 * length (w # ws))" "region p 4 \<subseteq> region p (4 * length (w # ws))"
    using region_from [of p 4 "4 * length ws"] region_mono [of 4 "4 * length (w # ws)" p] by simp_all
  with Cons.prems have "a \<notin> region (p + 4) (4 * length ws)" "a \<notin> region p 4" by auto
  then show ?case using Cons.IH by (simp add: put_word_other)
qed

lemma put_words_stack: "4 * length ws \<le> 2 ^ 32 \<Longrightarrow> stack_at (put_words p ws m) p ws"
proof (induction ws arbitrary: p m)
  case Nil
  then show ?case by simp
next
  case (Cons w ws)
  have "word_at (put_words (p + 4) ws (put_word m p w)) p = word_at (put_word m p w) p"
    by (rule word_at_cong, rule put_words_other) (use region_split [of 4 "4 * length ws" p] Cons.prems in auto)
  then show ?case using Cons by simp
qed

subsection \<open>What creation does\<close>

lemma upd_mem_simps [simp]:
  "tk_store (upd_mem f st) = tk_store st" "current_task (upd_mem f st) = current_task st"
  "task_list_head (upd_mem f st) = task_list_head st" "idle_task (upd_mem f st) = idle_task st"
  "next_pid (upd_mem f st) = next_pid st" "task_count (upd_mem f st) = task_count st"
  "mm_heap (tk_mm (upd_mem f st)) = mm_heap (tk_mm st)" "mm_dirs (tk_mm (upd_mem f st)) = mm_dirs (tk_mm st)"
  "kernel_directory (tk_mm (upd_mem f st)) = kernel_directory (tk_mm st)"
  by (simp_all add: upd_mem_def Let_def)

lemma tk_kmalloc_frame:
  assumes "tk_kmalloc sz st = Some (Inr (p, st1))"
  shows "tk_store st1 = tk_store st" "current_task st1 = current_task st" "task_list_head st1 = task_list_head st"
    "idle_task st1 = idle_task st" "next_pid st1 = next_pid st" "task_count st1 = task_count st"
proof -
  obtain z where "kmalloc sz (mm_heap (tk_mm st)) = Some z"
    "map_sum id (\<lambda>(p, h). (p, st\<lparr>tk_mm := (tk_mm st)\<lparr>mm_heap := h\<rparr>\<rparr>)) z = Inr (p, st1)"
    using assms by (auto simp: tk_kmalloc_def)
  then obtain h where "st1 = st\<lparr>tk_mm := (tk_mm st)\<lparr>mm_heap := h\<rparr>\<rparr>" by (cases z) auto
  then show "tk_store st1 = tk_store st" "current_task st1 = current_task st" "task_list_head st1 = task_list_head st"
    "idle_task st1 = idle_task st" "next_pid st1 = next_pid st" "task_count st1 = task_count st"
    by simp_all
qed

lemma tk_clone_directory_frame:
  assumes "tk_clone_directory dir0 st = Some (Inr (d, st1))"
  shows "tk_store st1 = tk_store st" "current_task st1 = current_task st" "task_list_head st1 = task_list_head st"
    "idle_task st1 = idle_task st" "next_pid st1 = next_pid st" "task_count st1 = task_count st"
    and "pd_physical (mm_dirs (tk_mm st1) d) = 0"
proof -
  obtain z where z: "mm_clone_directory dir0 (tk_mm st) = Some z"
    "map_sum id (\<lambda>(d, M). (d, st\<lparr>tk_mm := M\<rparr>)) z = Inr (d, st1)"
    using assms by (auto simp: tk_clone_directory_def)
  then obtain M where M: "st1 = st\<lparr>tk_mm := M\<rparr>" "mm_clone_directory dir0 (tk_mm st) = Some (Inr (d, M))"
    by (cases z) auto
  from M(1) show "tk_store st1 = tk_store st" "current_task st1 = current_task st" "task_list_head st1 = task_list_head st"
    "idle_task st1 = idle_task st" "next_pid st1 = next_pid st" "task_count st1 = task_count st"
    by simp_all
  show "pd_physical (mm_dirs (tk_mm st1) d) = 0" using clone_physical_zero [OF M(2)] M(1) by simp
qed

text \<open>The record of a task just created.\<close>

definition new_task :: "u32 \<Rightarrow> u32 \<Rightarrow> u32 \<Rightarrow> ptr \<Rightarrow> ptr \<Rightarrow> ptr \<Rightarrow> task" where
  "new_task pid entry priority ks dir nxt_task = zero_task\<lparr>t_pid := pid, t_state := TASK_READY,
     t_priority := priority, t_brk := KERNEL_HEAP_START + KERNEL_HEAP_SIZE, t_kernel_stack := ks,
     t_kernel_stack_top := ks + TASK_STACK_SIZE, t_page_directory := dir, t_next := nxt_task,
     t_context := zero_context\<lparr>x_esp := ks + TASK_STACK_SIZE - SIZEOF_CONTEXT, x_eip := entry\<rparr>\<rparr>"

lemma tk_kmalloc_heap: "tk_kmalloc sz st = Some (Inr (p, st1)) \<Longrightarrow>
    kmalloc sz (mm_heap (tk_mm st)) = Some (Inr (p, mm_heap (tk_mm st1)))"
  unfolding tk_kmalloc_def by (cases "kmalloc sz (mm_heap (tk_mm st))", simp) (case_tac a; auto)

lemma task_create_result:
  assumes run: "task_create dir0 name entry priority st = Some (Inr (p, st'))"
  obtains ks dir h1 h2 m where "tk_store st' = set_task p (new_task (next_pid st) entry priority ks dir (task_list_head st)) (tk_store st)"
    and "task_list_head st' = p" and "next_pid st' = next_pid st + 1" and "task_count st' = task_count st + 1"
    and "current_task st' = current_task st" and "idle_task st' = idle_task st"
    and "kmalloc 156 (mm_heap (tk_mm st)) = Some (Inr (p, h1))" and "kmalloc 8192 h1 = Some (Inr (ks, h2))"
    and "fr_mem (mm_frames (tk_mm st')) = put_words (ks + (8192 - 68)) (context_words (entry_context entry)) m"
proof -
  obtain st1 ks st2 dir st3 where 1: "tk_kmalloc SIZEOF_TASK st = Some (Inr (p, st1))"
    and 2: "tk_kmalloc TASK_STACK_SIZE (fill_task p name priority st1) = Some (Inr (ks, st2))"
    and 3: "tk_clone_directory dir0 (set_stack p ks st2) = Some (Inr (dir, st3))"
    and st': "st' = enter_task p entry dir st3"
    using run by (auto simp: task_create_def pbind_Inr preturn_def)
  note f = tk_kmalloc_frame [OF 1] tk_kmalloc_frame [OF 2] tk_clone_directory_frame [OF 3]
  have k: "kmalloc 156 (mm_heap (tk_mm st)) = Some (Inr (p, mm_heap (tk_mm st1)))"
    "kmalloc 8192 (mm_heap (tk_mm st1)) = Some (Inr (ks, mm_heap (tk_mm st2)))"
    using tk_kmalloc_heap [OF 1] tk_kmalloc_heap [OF 2] by (simp_all add: fill_task_def Let_def SIZEOF_TASK_def TASK_STACK_SIZE_def)
  show ?thesis
  proof (rule that [of ks dir "mm_heap (tk_mm st1)" "mm_heap (tk_mm st2)" "fr_mem (mm_frames (tk_mm st3))"])
    show "tk_store st' = set_task p (new_task (next_pid st) entry priority ks dir (task_list_head st)) (tk_store st)"
      by (rule ext) (simp add: st' enter_task_def set_stack_def fill_task_def Let_def f set_task_def
          new_task_def zero_task_def zero_context_def)
    show "fr_mem (mm_frames (tk_mm st')) = put_words (ks + (8192 - 68)) (context_words (entry_context entry)) (fr_mem (mm_frames (tk_mm st3)))"
      by (simp add: st' enter_task_def set_stack_def fill_task_def Let_def f upd_mem_def TASK_STACK_SIZE_def SIZEOF_CONTEXT_def
          add.commute del: put_words.simps)
  qed (simp_all add: k st' enter_task_def set_stack_def fill_task_def Let_def f)
qed

text \<open>
  What the listed tasks hold of the heap: each its record and a stack of its own, both among the
  regions \<open>L\<close> that the kernel got from \<open>kmalloc\<close> and has not freed.
\<close>

definition own_stacks :: "(nat \<times> nat) set \<Rightarrow> 'h tasks \<Rightarrow> ptr list \<Rightarrow> bool" where
  "own_stacks L st ps \<longleftrightarrow> distinct (map (\<lambda>q. t_kernel_stack (tk_store st q)) ps)
     \<and> (\<forall>q \<in> set ps. (unat q, 156) \<in> L \<and> (unat (t_kernel_stack (tk_store st q)), 8192) \<in> L
          \<and> t_kernel_stack_top (tk_store st q) = t_kernel_stack (tk_store st q) + 8192)"

text \<open>\<open>clear_of p n L\<close>: the \<open>n\<close> bytes at \<open>p\<close> meet none of the regions \<open>L\<close>.\<close>

definition clear_of :: "ptr \<Rightarrow> nat \<Rightarrow> (nat \<times> nat) set \<Rightarrow> bool" where
  "clear_of p n L \<longleftrightarrow> p \<noteq> 0 \<and> (\<forall>(q, m) \<in> L. unat p + n < q \<or> q + m < unat p)"

lemma clear_of_member: "clear_of p n L \<Longrightarrow> (unat q, m) \<in> L \<Longrightarrow> q \<noteq> p"
  by (auto simp: clear_of_def)

lemma kmalloc_clear:
  assumes "heap_reach h L" and "has_room n h" and "kmalloc (of_nat n) h = Some (Inr (p, h'))"
  shows "heap_reach h' (insert (unat p, n) L)" and "clear_of p n L"
proof -
  have k: "kalloc n h = (unat p, h')" using assms(3) by (simp add: kalloc_def)
  have holds: "heap_holds h L" using heap_reach_holds [OF assms(1)] by simp
  have "0 < unat p" using kheap.alloc_nonnull [OF holds assms(2)] k by simp
  moreover have "unat p + n < q \<or> q + m < unat p" if "(q, m) \<in> L" for q m
    using kheap.alloc_apart [OF holds assms(2) that] k by simp
  ultimately show "clear_of p n L" by (auto simp: clear_of_def unat_gt_0)
  show "heap_reach h' (insert (unat p, n) L)" using heap_reach.alloc [OF assms] .
qed

text \<open>The two regions that a creation takes, in a heap that has room for both.\<close>

lemma task_create_regions:
  assumes "heap_reach h L" and "has_room 156 h" and "has_room 8192 (snd (kalloc 156 h))"
    and "kmalloc 156 h = Some (Inr (p, h1))" and "kmalloc 8192 h1 = Some (Inr (ks, h2))"
  shows "clear_of p 156 L" and "clear_of ks 8192 (insert (unat p, 156) L)"
    and "heap_reach h2 (insert (unat ks, 8192) (insert (unat p, 156) L))"
proof -
  have k: "snd (kalloc 156 h) = h1" using assms(4) by (simp add: kalloc_def)
  note 1 = kmalloc_clear [OF assms(1,2), of p h1]
  note 2 = kmalloc_clear [OF 1(1) assms(3) [unfolded k], of ks h2]
  show "clear_of p 156 L" "clear_of ks 8192 (insert (unat p, 156) L)"
    "heap_reach h2 (insert (unat ks, 8192) (insert (unat p, 156) L))"
    using 1 2 assms(4,5) by simp_all
qed


lemma tk_kmalloc_tail:
  assumes "tail_room (n + 24 + k) (mm_heap (tk_mm st))" and "0 < n" and "n + 16 < 2 ^ 32"
  obtains p st1 where "tk_kmalloc (of_nat n) st = Some (Inr (p, st1))" and "p \<noteq> 0"
    and "tail_room k (mm_heap (tk_mm st1))" and "mm_dirs (tk_mm st1) = mm_dirs (tk_mm st)"
    and "kernel_directory (tk_mm st1) = kernel_directory (tk_mm st)"
proof -
  obtain p h' where p: "kmalloc_ap (of_nat n) False (mm_heap (tk_mm st)) = Some (Inr (p, None, h'))"
    "tail_room k h'" "p \<noteq> 0"
    by (rule kmalloc_ap_tail [where phys = False, OF assms]) auto
  show ?thesis
    by (rule that [of p "st\<lparr>tk_mm := (tk_mm st)\<lparr>mm_heap := h'\<rparr>\<rparr>"])
      (simp_all add: p tk_kmalloc_def kmalloc_def kmalloc_p_def drop_phys_def)
qed


end
