(* ===== verification/Timer.thy ===== *)
theory Timer
  imports Task
begin

text \<open>
  The programmable interval timer, \<open>drivers/timer.c\<close>: its tick counter, the interrupt handler
  that counts down sleeping tasks, its initialisation and the busy wait; then how sleeping and
  the scheduler work together.
\<close>

subsection \<open>State and operations\<close>

record timer =
  timer_ticks :: u32
  timer_frequency :: u32

definition timer_boot :: timer where
  "timer_boot = \<lparr>timer_ticks = 0, timer_frequency = 100\<rparr>"

partial_function (option) timer_loop :: "ptr \<Rightarrow> (ptr \<Rightarrow> task) \<Rightarrow> (ptr \<Rightarrow> task) option" where
  "timer_loop p S = (if p = 0 then Some S
     else let S1 = set_task p (tick (S p)) S in timer_loop (t_next (S1 p)) S1)"

definition timer_handler :: "timer \<times> 'h tasks \<Rightarrow> (timer \<times> 'h tasks) option" where
  "timer_handler x = (case x of (tm, st) \<Rightarrow>
     (let tm1 = tm\<lparr>timer_ticks := timer_ticks tm + 1\<rparr>
      in map_option (\<lambda>S. (tm1, st\<lparr>tk_store := S\<rparr>)) (timer_loop (task_get_list_head st) (tk_store st))))"

text \<open>A frequency of 0 is a division by zero: \<open>None\<close>.\<close>

definition timer_init ::
    "u32 \<Rightarrow> 'h \<Rightarrow> timer \<Rightarrow> 'h handlers \<Rightarrow> trace \<Rightarrow> (timer \<times> 'h handlers \<times> trace) option" where
  "timer_init frequency handler tm H tr =
     (if frequency = 0 then None
      else
        let divisor = 1193180 div frequency;
            tr1 = outb 0x43 0x36 tr;
            tr2 = outb 0x40 (ucast (divisor AND 0xFF)) tr1;
            tr3 = outb 0x40 (ucast (drop_bit 8 divisor AND 0xFF)) tr2
        in Some (tm\<lparr>timer_frequency := frequency\<rparr>, irq_install_handler 0 (Some handler) H, tr3))"

definition timer_get_ticks :: "timer \<Rightarrow> u32" where
  "timer_get_ticks tm = timer_ticks tm"

text \<open>
  The wait: each \<open>hlt\<close> is taken to end with a timer interrupt, which adds one to the counter, and the
  loop to read the counter again (it is not declared \<open>volatile\<close>). The result is the counter when the
  loop ends.
\<close>

function wait_loop :: "u32 \<Rightarrow> u32 \<Rightarrow> u32" where
  "wait_loop ticks target = (if ticks < target then wait_loop (ticks + 1) target else ticks)"
  by pat_completeness auto
termination
proof (relation "measure (\<lambda>(ticks, target). unat target - unat ticks)")
  fix ticks target :: u32
  assume "ticks < target"
  then show "((ticks + 1, target), (ticks, target)) \<in> measure (\<lambda>(ticks, target). unat target - unat ticks)"
    by simp unat_arith
qed simp

declare wait_loop.simps [simp del]

definition timer_sleep :: "u32 \<Rightarrow> timer \<Rightarrow> timer" where
  "timer_sleep ms tm =
     (let target = timer_ticks tm + (ms * timer_frequency tm div 1000)
      in tm\<lparr>timer_ticks := wait_loop (timer_ticks tm) target\<rparr>)"

subsection \<open>Ticks\<close>

lemma timer_loop_tlist: "tlist S p ps \<Longrightarrow> timer_loop p S = Some (tick_all ps S)"
proof (induction ps arbitrary: p S)
  case Nil
  then show ?case by (subst timer_loop.simps) (simp add: tick_all_def fun_eq_iff)
next
  case (Cons q ps)
  define S1 where "S1 = set_task q (tick (S q)) S"
  have q: "p = q" "q \<noteq> 0" "q \<notin> set ps" "tlist S (t_next (S q)) ps" using Cons.prems by auto
  have S1: "S1 q = tick (S q)" "\<And>r. r \<noteq> q \<Longrightarrow> S1 r = S r" by (simp_all add: S1_def set_task_simps)
  have same: "S1 r = S r" if "r \<in> set ps" for r using q(3) S1(2) that by metis
  have "tlist S1 (t_next (S1 q)) ps"
    using q(4) tlist_cong [of ps S S1 "t_next (S q)"] same by (simp add: S1(1))
  from Cons.IH [OF this] have "timer_loop (t_next (S1 q)) S1 = Some (tick_all ps S1)" .
  moreover have "tick_all ps S1 = tick_all (q # ps) S"
    using q(3) S1 same by (auto simp: tick_all_def fun_eq_iff)
  ultimately show ?case
    using q(1,2) by (subst timer_loop.simps) (simp add: S1_def [symmetric] Let_def)
qed

lemma timer_handler_ticks:
  assumes "sched_wf st ps"
  shows "timer_handler (tm, st) = Some (tm\<lparr>timer_ticks := timer_ticks tm + 1\<rparr>, st\<lparr>tk_store := tick_all ps (tk_store st)\<rparr>)"
  using assms timer_loop_tlist [of "tk_store st" "task_list_head st" ps]
  by (simp add: timer_handler_def task_get_list_head_def sched_wf_def Let_def)

text \<open>A run of interrupts.\<close>

fun timer_irqs :: "nat \<Rightarrow> timer \<times> 'h tasks \<Rightarrow> (timer \<times> 'h tasks) option" where
  "timer_irqs 0 x = Some x"
| "timer_irqs (Suc n) x = Option.bind (timer_handler x) (timer_irqs n)"

lemma timer_irqs_ticks:
  "sched_wf st ps \<Longrightarrow> timer_irqs n (tm, st) = Some (tm\<lparr>timer_ticks := timer_ticks tm + of_nat n\<rparr>,
     st\<lparr>tk_store := (tick_all ps ^^ n) (tk_store st)\<rparr>)"
proof (induction n arbitrary: tm st)
  case 0
  then show ?case by simp
next
  case (Suc n)
  then show ?case
    using Suc.IH [OF sched_wf_stay [OF Suc.prems]]
    by (simp add: timer_handler_ticks [OF Suc.prems] funpow_swap1 add.assoc [symmetric])
qed

lemma tick_all_pow: "q \<in> set ps \<Longrightarrow> (tick_all ps ^^ n) S q = (tick ^^ n) (S q)"
  by (induction n) (simp_all add: tick_all_def)

lemma tick_asleep:
  assumes "t_state t = TASK_SLEEPING" and "0 < unat (t_sleep_ticks t)"
  shows "t_state (tick t) = (if unat (t_sleep_ticks t) = 1 then TASK_READY else TASK_SLEEPING)"
    and "unat (t_sleep_ticks (tick t)) = unat (t_sleep_ticks t) - 1"
proof -
  have dec: "unat (t_sleep_ticks t - 1) = unat (t_sleep_ticks t) - 1"
    using assms(2) by (intro unat_minus_one) auto
  have "t_sleep_ticks t - 1 = 0 \<longleftrightarrow> unat (t_sleep_ticks t) = 1"
    using assms(2) dec by (auto simp: unat_eq_0 [symmetric])
  then show "t_state (tick t) = (if unat (t_sleep_ticks t) = 1 then TASK_READY else TASK_SLEEPING)"
    and "unat (t_sleep_ticks (tick t)) = unat (t_sleep_ticks t) - 1"
    using assms dec by (simp_all add: tick_def Let_def word_less_nat_alt)
qed

lemma tick_awake: "t_state t \<noteq> TASK_SLEEPING \<or> t_sleep_ticks t = 0 \<Longrightarrow> tick t = t"
  by (auto simp: tick_def)

lemma tick_pow:
  assumes "t_state t = TASK_SLEEPING" and "0 < unat (t_sleep_ticks t)"
  shows "t_state ((tick ^^ k) t) = (if k < unat (t_sleep_ticks t) then TASK_SLEEPING else TASK_READY)
    \<and> unat (t_sleep_ticks ((tick ^^ k) t)) = unat (t_sleep_ticks t) - k"
proof (induction k)
  case 0
  with assms show ?case by simp
next
  case (Suc k)
  let ?t = "(tick ^^ k) t"
  show ?case
  proof (cases "k < unat (t_sleep_ticks t)")
    case True
    then have t: "t_state ?t = TASK_SLEEPING" "0 < unat (t_sleep_ticks ?t)" using Suc by simp_all
    show ?thesis using tick_asleep [OF t] Suc True by auto
  next
    case False
    then have "tick ?t = ?t" using Suc by (intro tick_awake) simp
    with False Suc show ?thesis by simp
  qed
qed

text \<open>C34. A task that sleeps for a positive number of ticks sleeps through that many timer
  interrupts less one, and is ready after the last, with each interrupt counted; the other
  tasks' interrupts do not disturb it.\<close>

theorem sleep_wakes_after_ticks:
  assumes "sched_wf st ps" and "p \<in> set ps" and "t_state (tk_store st p) = TASK_SLEEPING"
    and "0 < unat (t_sleep_ticks (tk_store st p))"
  shows "\<exists>tm' st'. timer_irqs k (tm, st) = Some (tm', st') \<and> timer_ticks tm' = timer_ticks tm + of_nat k
    \<and> t_state (tk_store st' p) = (if k < unat (t_sleep_ticks (tk_store st p)) then TASK_SLEEPING else TASK_READY)"
  using timer_irqs_ticks [OF assms(1), of k tm] tick_pow [OF assms(3,4), of k] tick_all_pow [OF assms(2)]
  by simp

text \<open>Both tasks asleep, the second for three ticks.\<close>

definition sleepers :: "bool tasks" where
  "sleepers = upd_task 32 (\<lambda>t. t\<lparr>t_state := TASK_SLEEPING, t_sleep_ticks := 3\<rparr>) two_tasks"

lemma sleepers_wf: "sched_wf sleepers [16, 32]"
  by (simp add: sched_wf_def sleepers_def two_tasks_simps zero_task_def)

theorem sleep_wakes_after_ticks_witness:
  "\<exists>tm' st'. timer_irqs 3 (timer_boot, sleepers) = Some (tm', st') \<and> t_state (tk_store st' 32) = TASK_READY"
  using sleep_wakes_after_ticks [OF sleepers_wf, of 32 3 timer_boot]
  by (auto simp: sleepers_def two_tasks_simps)

subsection \<open>Sleeping for no ticks\<close>

text \<open>
  The steps of a running system on its tasks: timer interrupts, yields, and the current task
  going to sleep or exiting.
\<close>

inductive task_step :: "'h tasks \<Rightarrow> 'h tasks \<Rightarrow> bool" where
  timer: "timer_handler (tm, st) = Some (tm', st') \<Longrightarrow> task_step st st'"
| yield: "task_yield st = Some (Inr st') \<Longrightarrow> task_step st st'"
| sleep: "task_sleep n st = Some (Inr st') \<Longrightarrow> task_step st st'"
| exit: "task_exit code st = Some (Inr st') \<Longrightarrow> task_step st st'"

inductive task_run :: "'h tasks \<Rightarrow> 'h tasks \<Rightarrow> bool" where
  stop: "task_run st st"
| more: "task_run st st1 \<Longrightarrow> task_step st1 st2 \<Longrightarrow> task_run st st2"

inductive_cases task_stepE: "task_step st st'"

definition lost :: "ptr \<Rightarrow> ptr list \<Rightarrow> 'h tasks \<Rightarrow> bool" where
  "lost p ps st \<longleftrightarrow> sched_wf st ps \<and> current_task st \<noteq> p \<and> current_task st \<noteq> 0
     \<and> t_state (tk_store st p) = TASK_SLEEPING \<and> t_sleep_ticks (tk_store st p) = 0"

text \<open>A task that is not current, sleeps and has no ticks left is passed over.\<close>

lemma schedule_lost:
  assumes wf: "sched_wf st ps" and p: "t_state (tk_store st p) = TASK_SLEEPING" "t_sleep_ticks (tk_store st p) = 0"
    and run: "task_schedule st = Some (Inr st')"
  shows "lost p ps st'"
proof -
  let ?st = "st\<lparr>tk_store := tick_all ps (tk_store st)\<rparr>"
  obtain r where r: "is_pick (tk_store st) ps r" "r \<noteq> 0" "st' = (if r = current_task st then ?st else switch_to r ?st)"
    using task_schedule_cases [OF wf] run by auto
  have rp: "r \<noteq> p" "r \<in> set ps" using is_pick_member [OF r(1)] p(1) by (auto simp: runnable_def)
  have asleep: "tick_all ps (tk_store st) p = tk_store st p"
    using p by (simp add: tick_all_def tick_awake)
  show ?thesis
  proof (cases "r = current_task st")
    case True
    with r rp asleep p sched_wf_stay [OF wf] show ?thesis by (simp add: lost_def)
  next
    case False
    then have ne: "r \<noteq> current_task ?st" by simp
    have "t_state (tk_store (switch_to r ?st) p) = TASK_SLEEPING \<and> t_sleep_ticks (tk_store (switch_to r ?st) p) = 0"
      unfolding switch_to_store(1) [OF ne] using rp(1) p asleep by (auto simp del: tick_all_simps)
    then show ?thesis
      using False r rp(1) sched_wf_switch [OF sched_wf_stay [OF wf] rp(2) ne] switch_to_store(2) [OF ne]
      by (simp add: lost_def)
  qed
qed

lemma upd_current_wf:
  assumes "sched_wf st ps" and "\<And>t. t_next (f t) = t_next t" and "\<And>t. t_state (f t) \<noteq> TASK_RUNNING"
  shows "sched_wf (upd_task (current_task st) f st) ps"
proof -
  have "tlist (tk_store (upd_task (current_task st) f st)) (task_list_head st) ps"
    using assms(1,2) tlist_cong [of ps "tk_store st" "tk_store (upd_task (current_task st) f st)" "task_list_head st"]
    by (simp add: sched_wf_def)
  then show ?thesis using assms(1,3) by (auto simp: sched_wf_def split: if_splits)
qed

lemma step_lost: "task_step st st' \<Longrightarrow> lost p ps st \<Longrightarrow> lost p ps st'"
proof (erule task_stepE)
  fix tm tm' assume l: "lost p ps st" and "timer_handler (tm, st) = Some (tm', st')"
  then have "st' = st\<lparr>tk_store := tick_all ps (tk_store st)\<rparr>"
    using timer_handler_ticks [of st ps tm] by (auto simp: lost_def)
  then show "lost p ps st'" using l sched_wf_stay by (auto simp: lost_def tick_all_def tick_awake)
next
  assume "lost p ps st" and "task_yield st = Some (Inr st')"
  then show "lost p ps st'" using schedule_lost by (auto simp: lost_def task_yield_def)
next
  fix n assume l: "lost p ps st" and run: "task_sleep n st = Some (Inr st')"
  let ?st = "upd_task (current_task st) (\<lambda>t. t\<lparr>t_sleep_ticks := n, t_state := TASK_SLEEPING\<rparr>) st"
  have "sched_wf ?st ps" using l by (intro upd_current_wf) (auto simp: lost_def)
  moreover have "task_schedule ?st = Some (Inr st')" using l run by (simp add: lost_def task_sleep_def)
  ultimately show "lost p ps st'" using l by (intro schedule_lost [of ?st]) (auto simp: lost_def)
next
  fix code assume l: "lost p ps st" and run: "task_exit code st = Some (Inr st')"
  let ?st = "upd_task (current_task st) (\<lambda>t. t\<lparr>t_state := TASK_ZOMBIE, t_exit_code := code\<rparr>) st"
  have "sched_wf ?st ps" using l by (intro upd_current_wf) (auto simp: lost_def)
  moreover have "task_schedule ?st = Some (Inr st')" using l run by (simp add: lost_def task_exit_def)
  ultimately show "lost p ps st'" using l by (intro schedule_lost [of ?st]) (auto simp: lost_def)
qed

text \<open>
  The stack pointer, the frame pointer, the registers a caller may rely on and the code segment
  and address: what decides whose code goes on when a call returns.
\<close>

definition caller_view :: "cpu \<Rightarrow> u32 list" where
  "caller_view c = [c_esp c, c_ebp c, c_ebx c, c_esi c, c_edi c, c_eip c, c_cs c]"

lemma caller_view_switch [simp]: "caller_view (fst (task_switch_context a old new c)) = caller_view c"
  by (simp add: caller_view_def task_switch_context_def Let_def)

lemma caller_view_switch_to [simp]: "caller_view (tk_cpu (switch_to p st)) = caller_view (tk_cpu st)"
  by (simp add: switch_to_def Let_def case_prod_beta)

lemma caller_view_schedule:
  "task_schedule st = Some (Inr st') \<Longrightarrow> caller_view (tk_cpu st') = caller_view (tk_cpu st)"
  by (auto simp: task_schedule_def Let_def split: option.splits if_splits)

lemma caller_view_step: "task_step st st' \<Longrightarrow> caller_view (tk_cpu st') = caller_view (tk_cpu st)"
  by (erule task_stepE)
    (auto simp: timer_handler_def Let_def task_yield_def task_sleep_def task_exit_def preturn_def
      dest!: caller_view_schedule split: if_splits)

lemma sleep_zero_lost:
  assumes "sched_wf st ps" and "current_task st \<noteq> 0" and "task_sleep 0 st = Some (Inr st1)"
  shows "lost (current_task st) ps st1" and "caller_view (tk_cpu st1) = caller_view (tk_cpu st)"
proof -
  let ?st = "upd_task (current_task st) (\<lambda>t. t\<lparr>t_sleep_ticks := 0, t_state := TASK_SLEEPING\<rparr>) st"
  have "sched_wf ?st ps" using assms(1) by (intro upd_current_wf) auto
  moreover have sched: "task_schedule ?st = Some (Inr st1)" using assms(2,3) by (simp add: task_sleep_def)
  ultimately show "lost (current_task st) ps st1" by (intro schedule_lost [of ?st]) auto
  show "caller_view (tk_cpu st1) = caller_view (tk_cpu st)" using caller_view_schedule [OF sched] by simp
qed

text \<open>C10. Once a task has called \<open>task_sleep(0)\<close>, the kernel's records have lost it, and its code
  goes on. Whatever timer interrupts, yields, sleeps and exits follow, its record stays asleep with
  no ticks left and another task of the list is the current one, so the scheduler never chooses
  it again (only an explicit \<open>task_wake\<close>, which nothing in the source calls, would wake it). But
  the call has returned on the stack it was made on, with the caller's stack pointer, frame
  pointer and callee-saved registers, and so do all the calls that follow: the processor is
  still in the code of the task that asked to sleep, while the records name another one.\<close>

theorem task_sleep_zero_lost:
  assumes "sched_wf st ps" and "current_task st \<noteq> 0" and "task_sleep 0 st = Some (Inr st1)" and "task_run st1 st2"
  shows "t_state (tk_store st2 (current_task st)) = TASK_SLEEPING \<and> t_sleep_ticks (tk_store st2 (current_task st)) = 0
    \<and> current_task st2 \<noteq> current_task st \<and> current_task st2 \<in> set ps
    \<and> caller_view (tk_cpu st1) = caller_view (tk_cpu st) \<and> caller_view (tk_cpu st2) = caller_view (tk_cpu st)"
proof -
  have "lost (current_task st) ps st2 \<and> caller_view (tk_cpu st2) = caller_view (tk_cpu st1)"
    using assms(4) sleep_zero_lost(1) [OF assms(1-3)]
    by (induction rule: task_run.induct) (auto intro: step_lost simp: caller_view_step)
  then show ?thesis using sleep_zero_lost(2) [OF assms(1-3)] by (simp add: lost_def sched_wf_def)
qed

text \<open>The second task is running.\<close>

definition one_running :: "bool tasks" where
  "one_running = (upd_task 32 (\<lambda>t. t\<lparr>t_state := TASK_RUNNING\<rparr>) two_tasks)\<lparr>current_task := 32\<rparr>"

lemma one_running_wf: "sched_wf one_running [16, 32]"
  by (simp add: sched_wf_def one_running_def two_tasks_simps zero_task_def)

theorem task_sleep_zero_lost_witness:
  "\<exists>st1 st2 tm. task_sleep 0 one_running = Some (Inr st1) \<and> timer_handler (timer_boot, st1) = Some (tm, st2)
     \<and> current_task st2 = 16 \<and> t_state (tk_store st2 32) = TASK_SLEEPING \<and> c_esp (tk_cpu st2) = 0x9000"
proof -
  let ?st = "upd_task 32 (\<lambda>t. t\<lparr>t_sleep_ticks := 0, t_state := TASK_SLEEPING\<rparr>) one_running"
  have cur: "current_task one_running = 32" by (simp add: one_running_def)
  have "sched_wf ?st [16, 32]"
    using upd_current_wf [OF one_running_wf, of "\<lambda>t. t\<lparr>t_sleep_ticks := 0, t_state := TASK_SLEEPING\<rparr>"]
    by (simp add: cur)
  moreover have "runnable (tk_store ?st 16)" by (simp add: one_running_def two_tasks_simps runnable_def)
  ultimately obtain st1 where "task_schedule ?st = Some (Inr st1)"
    using task_schedule_cases [of ?st "[16, 32]"] by auto
  then have run: "task_sleep 0 one_running = Some (Inr st1)" by (simp add: task_sleep_def cur)
  have "sched_wf st1 [16, 32]" using sleep_zero_lost(1) [OF one_running_wf _ run] by (simp add: cur lost_def)
  then obtain tm st2 where irq: "timer_handler (timer_boot, st1) = Some (tm, st2)"
    using timer_handler_ticks by blast
  have "task_run st1 st2" using task_run.more [OF task_run.stop task_step.timer [OF irq]] .
  from task_sleep_zero_lost [OF one_running_wf _ run this] run irq show ?thesis
    by (auto simp: cur caller_view_def one_running_def two_tasks_def tasks0_def cpu0_def)
qed

subsection \<open>The busy wait\<close>

lemma wait_loop_eq: "wait_loop ticks target = max ticks target"
proof (induction ticks target rule: wait_loop.induct)
  case (1 ticks target)
  show ?case
  proof (cases "ticks < target")
    case True
    then have "ticks + 1 \<le> target" by (rule inc_le)
    then show ?thesis using 1 True by (subst wait_loop.simps) (simp add: max_def less_imp_le)
  next
    case False
    then show ?thesis by (subst wait_loop.simps) (simp add: max_def)
  qed
qed

text \<open>C40. \<open>timer_sleep\<close> ends, and it waits \<open>ms * frequency div 1000\<close> ticks as long as neither
  the product nor the sum overflows 32 bits; when the sum overflows it does not wait at all.
  At 100 Hz the product overflows from 42,949,673 ms on.\<close>

theorem timer_sleep_waits:
  assumes "unat ms * unat (timer_frequency tm) < 2 ^ 32"
  defines "n \<equiv> unat ms * unat (timer_frequency tm) div 1000"
  shows "if unat (timer_ticks tm) + n < 2 ^ 32
    then unat (timer_ticks (timer_sleep ms tm)) = unat (timer_ticks tm) + n
    else timer_sleep ms tm = tm"
proof -
  define x where "x = ms * timer_frequency tm div 1000"
  have d: "unat x = n"
    using assms(1) by (simp add: x_def n_def unat_div unat_word_ariths)
  have n: "n < 2 ^ 32" using unat_u32_less [of x] d by simp
  have sum: "unat (timer_ticks tm + x) = (unat (timer_ticks tm) + n) mod 2 ^ 32"
    using unat_word_ariths(1) [of "timer_ticks tm" x] d by simp
  have run: "timer_sleep ms tm = tm\<lparr>timer_ticks := max (timer_ticks tm) (timer_ticks tm + x)\<rparr>"
    by (simp add: timer_sleep_def wait_loop_eq x_def)
  show ?thesis
  proof (cases "unat (timer_ticks tm) + n < 2 ^ 32")
    case True
    then have "unat (timer_ticks tm + x) = unat (timer_ticks tm) + n" using sum by simp
    then show ?thesis using True by (simp add: run max_def word_le_nat_alt)
  next
    case False
    then have "unat (timer_ticks tm + x) = unat (timer_ticks tm) + n - 2 ^ 32"
      using n unat_u32_less [of "timer_ticks tm"] sum by (simp add: mod_if)
    then have "timer_ticks tm + x < timer_ticks tm"
      using n False by (simp add: word_less_nat_alt)
    then show ?thesis using False by (simp add: run max_def)
  qed
qed

theorem timer_sleep_waits_witness:
  "unat (timer_ticks (timer_sleep 2000 timer_boot)) = 200"
  using timer_sleep_waits [of 2000 timer_boot] by (simp add: timer_boot_def)

end
