(* ===== verification/Keyboard.thy ===== *)
theory Keyboard
  imports Interrupts
begin

text \<open>
  The keyboard, \<open>drivers/keyboard.c\<close>: scan code tables, shift and caps lock, and the ring
  buffer between the interrupt handler and \<open>keyboard_getchar\<close>. The ring buffer is shown to
  keep the contract of a bounded queue, and the properties of a queue's client carry over.
\<close>

subsection \<open>State and operations\<close>

definition kb_us :: "u8 list" where
  "kb_us = [0, 0] @ bytes ''1234567890-='' @ [8, 9] @ bytes ''qwertyuiop[]'' @ [10, 0]
     @ bytes ''asdfghjkl;'' @ [39, 96, 0, 92] @ bytes ''zxcvbnm,./'' @ [0, 42, 0, 32, 0]"

definition kb_us_shift :: "u8 list" where
  "kb_us_shift = [0, 0] @ bytes ''!@#$%^&*()_+'' @ [8, 9] @ bytes ''QWERTYUIOP{}'' @ [10, 0]
     @ bytes ''ASDFGHJKL:'' @ [34, 126, 0, 124] @ bytes ''ZXCVBNM<>?'' @ [0, 42, 0, 32, 0]"

text \<open>The indices and the counter are \<open>int\<close>s that stay between 0 and 256.\<close>

record keyboard =
  kb_buffer :: "nat \<Rightarrow> u8"
  kb_buf_head :: nat
  kb_buf_tail :: nat
  kb_buf_count :: nat
  shift_pressed :: bool
  caps_lock :: bool

definition keyboard_boot :: keyboard where
  "keyboard_boot = \<lparr>kb_buffer = (\<lambda>_. 0), kb_buf_head = 0, kb_buf_tail = 0, kb_buf_count = 0,
     shift_pressed = False, caps_lock = False\<rparr>"

definition key_char :: "bool \<Rightarrow> bool \<Rightarrow> u8 \<Rightarrow> u8" where
  "key_char shift caps scancode =
     (if shift \<noteq> caps
      then (if unat scancode < length kb_us_shift then kb_us_shift ! unat scancode else 0)
      else (if unat scancode < length kb_us then kb_us ! unat scancode else 0))"

definition kb_put :: "u8 \<Rightarrow> keyboard \<Rightarrow> keyboard" where
  "kb_put c kb =
     (if c \<noteq> 0 \<and> kb_buf_count kb < 256
      then kb\<lparr>kb_buffer := (kb_buffer kb)(kb_buf_tail kb := c),
              kb_buf_tail := (kb_buf_tail kb + 1) mod 256,
              kb_buf_count := kb_buf_count kb + 1\<rparr>
      else kb)"

definition kb_scancode :: "u8 \<Rightarrow> keyboard \<Rightarrow> keyboard" where
  "kb_scancode scancode kb =
     (if scancode = 0x2A \<or> scancode = 0x36 then kb\<lparr>shift_pressed := True\<rparr>
      else if scancode = 0xAA \<or> scancode = 0xB6 then kb\<lparr>shift_pressed := False\<rparr>
      else if scancode = 0x3A then kb\<lparr>caps_lock := \<not> caps_lock kb\<rparr>
      else if scancode AND 0x80 \<noteq> 0 then kb
      else kb_put (key_char (shift_pressed kb) (caps_lock kb) scancode) kb)"

definition keyboard_handler :: "device \<Rightarrow> keyboard \<times> trace \<Rightarrow> keyboard \<times> trace" where
  "keyboard_handler dev x = (case x of (kb, tr) \<Rightarrow>
     (case inb dev 0x60 tr of (scancode, tr1) \<Rightarrow> (kb_scancode scancode kb, tr1)))"

definition keyboard_init :: "'h \<Rightarrow> 'h handlers \<Rightarrow> 'h handlers" where
  "keyboard_init handler H = irq_install_handler 1 (Some handler) H"

definition keyboard_haschar :: "keyboard \<Rightarrow> bool" where
  "keyboard_haschar kb \<longleftrightarrow> kb_buf_count kb > 0"

definition kb_take :: "keyboard \<Rightarrow> u8 \<times> keyboard" where
  "kb_take kb = (kb_buffer kb (kb_buf_head kb),
     kb\<lparr>kb_buf_head := (kb_buf_head kb + 1) mod 256, kb_buf_count := kb_buf_count kb - 1\<rparr>)"

text \<open>Each \<open>hlt\<close> of the wait ends with a keyboard interrupt (others leave this state alone).\<close>

partial_function (option) keyboard_getchar :: "device \<Rightarrow> keyboard \<times> trace \<Rightarrow> (u8 \<times> keyboard \<times> trace) option" where
  "keyboard_getchar dev x =
     (if kb_buf_count (fst x) = 0 then keyboard_getchar dev (keyboard_handler dev x)
      else Some (fst (kb_take (fst x)), snd (kb_take (fst x)), snd x))"

subsection \<open>Bounded queues\<close>

text \<open>
  The contract between a producer and a consumer: \<open>put\<close> appends while there is room and drops
  otherwise, \<open>get\<close> takes the oldest.
\<close>

locale bounded_queue =
  fixes put :: "'a \<Rightarrow> 's \<Rightarrow> 's"
    and get :: "'s \<Rightarrow> 'a \<times> 's"
    and content :: "'s \<Rightarrow> 'a list"
    and ok :: "'s \<Rightarrow> bool"
    and cap :: nat
    and valid :: "'a \<Rightarrow> bool"
  assumes put_content: "ok s \<Longrightarrow> valid c \<Longrightarrow>
      content (put c s) = (if length (content s) < cap then content s @ [c] else content s)"
    and put_ok: "ok s \<Longrightarrow> ok (put c s)"
    and get_content: "ok s \<Longrightarrow> content s \<noteq> [] \<Longrightarrow> fst (get s) = hd (content s) \<and> content (snd (get s)) = tl (content s)"
    and get_ok: "ok s \<Longrightarrow> content s \<noteq> [] \<Longrightarrow> ok (snd (get s))"
    and bounded: "ok s \<Longrightarrow> length (content s) \<le> cap"
begin

lemma puts_content:
  "ok s \<Longrightarrow> (\<And>c. c \<in> set cs \<Longrightarrow> valid c) \<Longrightarrow> ok (fold put cs s) \<and> content (fold put cs s) = take cap (content s @ cs)"
proof (induction cs arbitrary: s)
  case Nil
  then show ?case using bounded by simp
next
  case (Cons c cs)
  have "ok (put c s)" using Cons.prems(1) by (rule put_ok)
  moreover have "take cap (content (put c s) @ cs) = take cap (content s @ c # cs)"
    using put_content [OF Cons.prems(1), of c] Cons.prems(2) bounded [OF Cons.prems(1)] by (simp add: take_Cons')
  ultimately show ?case using Cons.IH [of "put c s"] Cons.prems(2) by simp
qed

fun gets :: "nat \<Rightarrow> 's \<Rightarrow> 'a list \<times> 's" where
  "gets 0 s = ([], s)"
| "gets (Suc n) s = (let (c, s1) = get s; (cs, s2) = gets n s1 in (c # cs, s2))"

lemma gets_content:
  "ok s \<Longrightarrow> n \<le> length (content s) \<Longrightarrow> fst (gets n s) = take n (content s)
    \<and> content (snd (gets n s)) = drop n (content s) \<and> ok (snd (gets n s))"
proof (induction n arbitrary: s)
  case 0
  then show ?case by simp
next
  case (Suc n)
  then have ne: "content s \<noteq> []" by auto
  note g = get_content [OF Suc.prems(1) ne] get_ok [OF Suc.prems(1) ne]
  have "n \<le> length (content (snd (get s)))" using g Suc.prems(2) by simp
  from Suc.IH [OF g(2) this] g(1) ne show ?case
    by (cases "content s") (simp_all add: case_prod_beta Let_def drop_Suc)
qed

text \<open>What was put into an empty queue with room for it comes out in order.\<close>

lemma fifo:
  assumes "ok s" and "content s = []" and "length cs \<le> cap" and "\<And>c. c \<in> set cs \<Longrightarrow> valid c"
  shows "fst (gets (length cs) (fold put cs s)) = cs"
  using puts_content [OF assms(1,4)] gets_content [of "fold put cs s" "length cs"] assms(2,3) by simp

end

subsection \<open>The ring buffer is a bounded queue\<close>

definition kb_ok :: "keyboard \<Rightarrow> bool" where
  "kb_ok kb \<longleftrightarrow> kb_buf_head kb < 256 \<and> kb_buf_count kb \<le> 256
     \<and> kb_buf_tail kb = (kb_buf_head kb + kb_buf_count kb) mod 256"

definition kb_content :: "keyboard \<Rightarrow> u8 list" where
  "kb_content kb = map (\<lambda>i. kb_buffer kb ((kb_buf_head kb + i) mod 256)) [0..<kb_buf_count kb]"

lemma ring_apart:
  assumes "i < n" and "n < 256"
  shows "(h + i) mod 256 \<noteq> (h + n) mod (256 :: nat)"
proof
  assume "(h + i) mod 256 = (h + n) mod 256"
  then have "256 dvd (h + n) - (h + i)" using assms(1) by (intro mod_eq_dvd_iff_nat [THEN iffD1]) auto
  then show False using assms by (auto dest: dvd_imp_le)
qed

lemma kb_put_content:
  assumes "kb_ok kb" and "c \<noteq> 0"
  shows "kb_content (kb_put c kb) = (if length (kb_content kb) < 256 then kb_content kb @ [c] else kb_content kb)"
  using assms ring_apart by (auto simp: kb_put_def kb_content_def kb_ok_def)

lemma kb_put_ok: "kb_ok kb \<Longrightarrow> kb_ok (kb_put c kb)"
  by (auto simp: kb_put_def kb_ok_def mod_simps add.assoc)

lemma kb_take_content:
  assumes "kb_ok kb" and "kb_content kb \<noteq> []"
  shows "fst (kb_take kb) = hd (kb_content kb) \<and> kb_content (snd (kb_take kb)) = tl (kb_content kb)
    \<and> kb_ok (snd (kb_take kb))"
proof -
  obtain n where n: "kb_buf_count kb = Suc n" using assms(2) by (cases "kb_buf_count kb") (auto simp: kb_content_def)
  have split: "[0..<Suc n] = 0 # map Suc [0..<n]" by (simp add: map_Suc_upt upt_conv_Cons del: upt_Suc)
  show ?thesis
    using assms(1) n by (simp add: kb_take_def kb_content_def kb_ok_def split mod_simps comp_def del: upt_Suc)
qed

interpretation kbq: bounded_queue kb_put kb_take kb_content kb_ok 256 "\<lambda>c. c \<noteq> 0"
  by unfold_locales (auto simp: kb_put_content kb_put_ok kb_take_content, auto simp: kb_ok_def kb_content_def)

subsection \<open>Typing\<close>

text \<open>
  The text of a sequence of scan codes, by the state of shift and caps lock: what the driver
  should deliver, with the modifier state after it.
\<close>

definition modifiers :: "u8 \<Rightarrow> bool \<times> bool \<Rightarrow> bool \<times> bool" where
  "modifiers sc m = (if sc = 0x2A \<or> sc = 0x36 then (True, snd m)
     else if sc = 0xAA \<or> sc = 0xB6 then (False, snd m)
     else if sc = 0x3A then (fst m, \<not> snd m) else m)"

definition typed_char :: "u8 \<Rightarrow> bool \<times> bool \<Rightarrow> u8 list" where
  "typed_char sc m = (if sc \<in> {0x2A, 0x36, 0xAA, 0xB6, 0x3A} \<or> 128 \<le> sc
     \<or> key_char (fst m) (snd m) sc = 0 then [] else [key_char (fst m) (snd m) sc])"

fun typed :: "bool \<times> bool \<Rightarrow> u8 list \<Rightarrow> u8 list" where
  "typed m [] = []"
| "typed m (sc # scs) = typed_char sc m @ typed (modifiers sc m) scs"

lemma kb_put_modifiers [simp]: "shift_pressed (kb_put c kb) = shift_pressed kb" "caps_lock (kb_put c kb) = caps_lock kb"
  by (simp_all add: kb_put_def)

lemma kb_put_zero [simp]: "kb_put 0 kb = kb"
  by (simp add: kb_put_def)

lemma kb_flags [simp]:
  "kb_ok (kb\<lparr>shift_pressed := b\<rparr>) = kb_ok kb" "kb_ok (kb\<lparr>caps_lock := b\<rparr>) = kb_ok kb"
  "kb_content (kb\<lparr>shift_pressed := b\<rparr>) = kb_content kb" "kb_content (kb\<lparr>caps_lock := b\<rparr>) = kb_content kb"
  by (simp_all add: kb_ok_def kb_content_def)

lemma kb_scancode_step:
  assumes "kb_ok kb"
  defines "m \<equiv> (shift_pressed kb, caps_lock kb)"
  shows "kb_content (kb_scancode sc kb) = take 256 (kb_content kb @ typed_char sc m)"
    and "kb_ok (kb_scancode sc kb)"
    and "(shift_pressed (kb_scancode sc kb), caps_lock (kb_scancode sc kb)) = modifiers sc m"
proof -
  have "kb_content (kb_scancode sc kb) = kb_content (fold kb_put (typed_char sc m) kb)"
    unfolding kb_scancode_def typed_char_def sign_bit_and m_def by (simp add: not_less)
  also have "\<dots> = take 256 (kb_content kb @ typed_char sc m)"
  proof -
    have "c \<noteq> 0" if "c \<in> set (typed_char sc m)" for c
      using that unfolding typed_char_def by (cases "key_char (fst m) (snd m) sc = 0") (simp_all split: if_splits)
    then show ?thesis using kbq.puts_content [OF assms(1), of "typed_char sc m"] by blast
  qed
  finally show "kb_content (kb_scancode sc kb) = take 256 (kb_content kb @ typed_char sc m)" .
  show "kb_ok (kb_scancode sc kb)" using assms(1) by (simp add: kb_scancode_def kb_put_ok)
  show "(shift_pressed (kb_scancode sc kb), caps_lock (kb_scancode sc kb)) = modifiers sc m"
    by (simp add: kb_scancode_def modifiers_def m_def)
qed

text \<open>A run of interrupts and the codes they read.\<close>

fun kb_irqs :: "nat \<Rightarrow> device \<Rightarrow> keyboard \<times> trace \<Rightarrow> keyboard \<times> trace" where
  "kb_irqs 0 dev x = x"
| "kb_irqs (Suc n) dev x = kb_irqs n dev (keyboard_handler dev x)"

fun kb_reads :: "nat \<Rightarrow> device \<Rightarrow> trace \<Rightarrow> u8 list" where
  "kb_reads 0 dev tr = []"
| "kb_reads (Suc n) dev tr = ucast (dev tr 0x60) # kb_reads n dev (tr @ [In8 0x60 (ucast (dev tr 0x60))])"

lemma take_take_append: "take n (take n xs @ ys) = take n (xs @ ys)"
  by (simp add: min_def)

lemma kb_irqs_content:
  "kb_ok kb \<Longrightarrow> kb_ok (fst (kb_irqs n dev (kb, tr))) \<and> kb_content (fst (kb_irqs n dev (kb, tr)))
    = take 256 (kb_content kb @ typed (shift_pressed kb, caps_lock kb) (kb_reads n dev tr))"
proof (induction n arbitrary: kb tr)
  case 0
  then show ?case using kbq.bounded [OF 0] by simp
next
  case (Suc n)
  define sc :: u8 where "sc = ucast (dev tr 0x60)"
  note step = kb_scancode_step [OF Suc.prems, of sc]
  have run: "keyboard_handler dev (kb, tr) = (kb_scancode sc kb, tr @ [In8 0x60 sc])"
    by (simp add: keyboard_handler_def inb_def sc_def Let_def)
  show ?case
    using Suc.IH [OF step(2), of "tr @ [In8 0x60 sc]"] step(1,3)
    by (simp add: run sc_def [symmetric] take_take_append del: take_append)
qed

text \<open>A reader that takes \<open>n\<close> characters.\<close>

fun kb_getchars :: "nat \<Rightarrow> device \<Rightarrow> keyboard \<times> trace \<Rightarrow> (u8 list \<times> keyboard \<times> trace) option" where
  "kb_getchars 0 dev x = Some ([], x)"
| "kb_getchars (Suc n) dev x = (case keyboard_getchar dev x of None \<Rightarrow> None
     | Some (c, y) \<Rightarrow> map_option (\<lambda>(cs, z). (c # cs, z)) (kb_getchars n dev y))"

lemma getchar_ready: "kb_content kb \<noteq> [] \<Longrightarrow>
    keyboard_getchar dev (kb, tr) = Some (fst (kb_take kb), snd (kb_take kb), tr)"
  by (subst keyboard_getchar.simps) (auto simp: kb_content_def)

lemma getchars_ready:
  "kb_ok kb \<Longrightarrow> n \<le> length (kb_content kb) \<Longrightarrow>
    kb_getchars n dev (kb, tr) = Some (fst (kbq.gets n kb), snd (kbq.gets n kb), tr)"
proof (induction n arbitrary: kb)
  case 0
  then show ?case by simp
next
  case (Suc n)
  then have ne: "kb_content kb \<noteq> []" by auto
  note g = kbq.get_content [OF Suc.prems(1) ne] kbq.get_ok [OF Suc.prems(1) ne]
  have "n \<le> length (kb_content (snd (kb_take kb)))" using g Suc.prems(2) by simp
  from Suc.IH [OF g(2) this] show ?case
    by (simp add: getchar_ready [OF ne] case_prod_beta Let_def)
qed

text \<open>C16. What is typed is read: the characters of any sequence of at most 256 of them, translated
  with the shift and caps lock state at each key, come out of \<open>keyboard_getchar\<close> complete and
  in order, without waiting. A longer sequence loses its end, not its beginning.\<close>

theorem keyboard_delivers:
  assumes "typed (False, False) (kb_reads n dev tr) = cs" and "k \<le> length cs" and "k \<le> 256"
  shows "\<exists>kb'. kb_getchars k dev (kb_irqs n dev (keyboard_boot, tr))
      = Some (take k cs, kb', snd (kb_irqs n dev (keyboard_boot, tr)))
    \<and> kb_content kb' = drop k (take 256 cs)"
proof -
  have boot: "kb_ok keyboard_boot" "kb_content keyboard_boot = []"
    by (simp_all add: kb_ok_def kb_content_def keyboard_boot_def)
  obtain kb tr' where kb: "kb_irqs n dev (keyboard_boot, tr) = (kb, tr')" by fastforce
  have c: "kb_ok kb" "kb_content kb = take 256 cs"
    using kb_irqs_content [OF boot(1), of n dev tr] boot(2) assms(1) kb by (simp_all add: keyboard_boot_def)
  then have "k \<le> length (kb_content kb)" using assms(2,3) by simp
  from getchars_ready [OF c(1) this, of dev tr'] kbq.gets_content [OF c(1) this] show ?thesis
    using c(2) assms(3) by (simp add: kb min_def)
qed

text \<open>A keyboard that sends: shift down, a, shift up, b, release of b.\<close>

definition demo_keys :: device where
  "demo_keys tr p = [0x2A, 0x1E, 0xAA, 0x30, 0xB0] ! length tr"

theorem keyboard_delivers_witness:
  "\<exists>kb'. kb_getchars 2 demo_keys (kb_irqs 5 demo_keys (keyboard_boot, []))
     = Some (bytes ''Ab'', kb', snd (kb_irqs 5 demo_keys (keyboard_boot, [])))"
proof -
  have "typed (False, False) (kb_reads 5 demo_keys []) = bytes ''Ab''"
    by code_simp
  from keyboard_delivers [OF this, of 2] show ?thesis by (auto simp: bytes_def)
qed

text \<open>Caps lock works as a shift lock for every key, so with it on the digit and punctuation
  keys give the shifted symbols, and with shift held the letters and digits are both plain.\<close>

theorem caps_lock_shifts_all:
  "key_char False True sc = key_char True False sc \<and> key_char True True sc = key_char False False sc
   \<and> key_char False True 2 = 33 \<and> key_char False False 2 = 49"
  by (simp add: key_char_def kb_us_def kb_us_shift_def bytes_def)

end
