(* ===== verification/Vfs.thy ===== *)
theory Vfs
  imports FramePool Allocator
begin

text \<open>
  The virtual file system, \<open>fs/vfs.c\<close>: node creation, path lookup (which knows the root only),
  the descriptor table and the list of mounts. Nodes and mounts are kept in typed stores over
  the kernel heap; their names are bytes of the flat memory. Reading, writing and the other
  operations of the source return constants, as modelled here.
\<close>

subsection \<open>State\<close>

definition FS_FILE :: u32 where "FS_FILE = 1"
definition FS_DIRECTORY :: u32 where "FS_DIRECTORY = 2"
definition FS_NAME_MAX :: u32 where "FS_NAME_MAX = 256"
definition FS_PATH_MAX :: u32 where "FS_PATH_MAX = 1024"
definition FS_MAX_FDS :: nat where "FS_MAX_FDS = 256"

text \<open>The name is the first field, at the node's own address; a function pointer is 0 or an address.\<close>

record fs_node =
  fn_mask :: u32
  fn_uid :: u32
  fn_gid :: u32
  fn_flags :: u32
  fn_inode :: u32
  fn_length :: u32
  fn_impl :: u32
  fn_read :: ptr
  fn_write :: ptr
  fn_open :: ptr
  fn_close :: ptr
  fn_readdir :: ptr
  fn_finddir :: ptr
  fn_ptr :: ptr

record fd_entry =
  fd_node :: ptr
  fd_offset :: u32
  fd_flags :: u32

record fs_mount_entry =
  mnt_root :: ptr
  mnt_next :: ptr

record vfs =
  fs_root_node :: ptr
  fd_table :: "nat \<Rightarrow> fd_entry"
  mount_points :: ptr
  fs_nodes :: "ptr \<Rightarrow> fs_node"
  fs_mounts :: "ptr \<Rightarrow> fs_mount_entry"
  fs_heap :: heap
  fs_mem :: mem

definition zero_node :: fs_node where
  "zero_node = \<lparr>fn_mask = 0, fn_uid = 0, fn_gid = 0, fn_flags = 0, fn_inode = 0, fn_length = 0,
     fn_impl = 0, fn_read = 0, fn_write = 0, fn_open = 0, fn_close = 0, fn_readdir = 0, fn_finddir = 0,
     fn_ptr = 0\<rparr>"

definition zero_fd :: fd_entry where
  "zero_fd = \<lparr>fd_node = 0, fd_offset = 0, fd_flags = 0\<rparr>"

text \<open>\<open>sizeof(fs_node_t)\<close> and \<open>sizeof(fs_mount_t)\<close>.\<close>

definition SIZEOF_NODE :: u32 where "SIZEOF_NODE = 312"
definition SIZEOF_MOUNT :: u32 where "SIZEOF_MOUNT = 1032"

definition fs_kmalloc :: "u32 \<Rightarrow> vfs \<Rightarrow> (ptr \<times> vfs) panicking option" where
  "fs_kmalloc sz st = map_option (map_sum id (\<lambda>(p, h). (p, st\<lparr>fs_heap := h\<rparr>))) (kmalloc sz (fs_heap st))"

definition upd_node :: "ptr \<Rightarrow> (fs_node \<Rightarrow> fs_node) \<Rightarrow> vfs \<Rightarrow> vfs" where
  "upd_node p f st = st\<lparr>fs_nodes := (fs_nodes st)(p := f (fs_nodes st p))\<rparr>"

definition upd_fs_mem :: "(mem \<Rightarrow> mem) \<Rightarrow> vfs \<Rightarrow> vfs" where
  "upd_fs_mem f st = st\<lparr>fs_mem := f (fs_mem st)\<rparr>"

definition upd_fd :: "nat \<Rightarrow> (fd_entry \<Rightarrow> fd_entry) \<Rightarrow> vfs \<Rightarrow> vfs" where
  "upd_fd i f st = st\<lparr>fd_table := (fd_table st)(i := f (fd_table st i))\<rparr>"

subsection \<open>Nodes and paths\<close>

definition fs_root :: "vfs \<Rightarrow> ptr" where
  "fs_root st = fs_root_node st"

definition fs_create_node ::
    "ptr \<Rightarrow> u32 \<Rightarrow> u32 \<Rightarrow> u32 \<Rightarrow> u32 \<Rightarrow> ptr \<Rightarrow> vfs \<Rightarrow> (ptr \<times> vfs) panicking option" where
  "fs_create_node name ty msk uid gid parent st =
     pbind (fs_kmalloc SIZEOF_NODE st) (\<lambda>(node, st1).
       let st2 = upd_fs_mem (\<lambda>m. fst (memset m node 0 FS_NAME_MAX)) (upd_node node (\<lambda>_. zero_node) st1);
           st3 = upd_fs_mem (\<lambda>m. fst (strncpy m node name (FS_NAME_MAX - 1))) st2;
           st4 = upd_node node (\<lambda>n. n\<lparr>fn_mask := msk, fn_uid := uid, fn_gid := gid, fn_flags := ty,
                   fn_inode := node\<rparr>) st3;
           st5 = (if parent \<noteq> 0 then upd_node node (\<lambda>n. n\<lparr>fn_ptr := parent\<rparr>) st4 else st4)
       in preturn (node, st5))"

definition fs_find_in_dir :: "ptr \<Rightarrow> ptr \<Rightarrow> ptr" where
  "fs_find_in_dir dir name = 0"

definition fs_traverse :: "ptr \<Rightarrow> vfs \<Rightarrow> ptr" where
  "fs_traverse path st =
     (if path = 0 \<or> fs_mem st path = 0 then fs_root_node st
      else if fs_mem st path = 47 \<and> fs_mem st (path + 1) = 0 then fs_root_node st
      else 0)"

text \<open>The directories of \<open>fs_init\<close> with their modes; \<open>lit s\<close> is the address of a string literal.\<close>

definition root_dirs :: "(string \<times> u32) list" where
  "root_dirs = [(''bin'', 493), (''etc'', 493), (''home'', 493), (''tmp'', 511), (''usr'', 493),
     (''var'', 493), (''dev'', 493), (''proc'', 365), (''lib'', 493), (''opt'', 493), (''sbin'', 493),
     (''sys'', 493), (''mnt'', 493), (''root'', 448), (''boot'', 493)]"

fun fs_make_dirs :: "(string \<Rightarrow> ptr) \<Rightarrow> (string \<times> u32) list \<Rightarrow> vfs \<Rightarrow> vfs panicking option" where
  "fs_make_dirs lit [] st = preturn st"
| "fs_make_dirs lit ((s, msk) # ds) st =
     pbind (fs_create_node (lit s) FS_DIRECTORY msk 0 0 (fs_root_node st) st) (\<lambda>(_, st1). fs_make_dirs lit ds st1)"

definition fs_init :: "(string \<Rightarrow> ptr) \<Rightarrow> vfs \<Rightarrow> vfs panicking option" where
  "fs_init lit st =
     (let st1 = st\<lparr>fd_table := (\<lambda>i. if i < FS_MAX_FDS then zero_fd else fd_table st i)\<rparr>
      in pbind (fs_create_node (lit '''') FS_DIRECTORY 493 0 0 0 st1) (\<lambda>(root, st2).
           fs_make_dirs lit root_dirs (st2\<lparr>fs_root_node := root, mount_points := 0\<rparr>)))"

subsection \<open>Descriptors\<close>

fun fs_open_loop :: "ptr \<Rightarrow> u32 \<Rightarrow> nat list \<Rightarrow> vfs \<Rightarrow> int \<times> vfs" where
  "fs_open_loop path fl [] st = (-1, st)"
| "fs_open_loop path fl (i # is) st =
     (if fd_node (fd_table st i) = 0
      then (int i, upd_fd i (\<lambda>_. \<lparr>fd_node = fs_traverse path st, fd_offset = 0, fd_flags = fl\<rparr>) st)
      else fs_open_loop path fl is st)"

definition fs_open :: "ptr \<Rightarrow> u32 \<Rightarrow> vfs \<Rightarrow> int \<times> vfs" where
  "fs_open path fl st = fs_open_loop path fl [0..<FS_MAX_FDS] st"

definition fs_close :: "int \<Rightarrow> vfs \<Rightarrow> int \<times> vfs" where
  "fs_close fd st =
     (if fd < 0 \<or> fd \<ge> int FS_MAX_FDS then (-1, st)
      else if fd_node (fd_table st (nat fd)) = 0 then (-1, st)
      else (0, upd_fd (nat fd) (\<lambda>e. e\<lparr>fd_node := 0\<rparr>) st))"

definition fs_read :: "int \<Rightarrow> u32 \<Rightarrow> u32 \<Rightarrow> ptr \<Rightarrow> vfs \<Rightarrow> u32" where
  "fs_read fd offset sz buffer st =
     (if fd < 0 \<or> fd \<ge> int FS_MAX_FDS then 0 else if fd_node (fd_table st (nat fd)) = 0 then 0 else 0)"

definition fs_write :: "int \<Rightarrow> u32 \<Rightarrow> u32 \<Rightarrow> ptr \<Rightarrow> vfs \<Rightarrow> u32" where
  "fs_write fd offset sz buffer st =
     (if fd < 0 \<or> fd \<ge> int FS_MAX_FDS then 0 else if fd_node (fd_table st (nat fd)) = 0 then 0 else 0)"

definition fs_mkdir :: "ptr \<Rightarrow> u32 \<Rightarrow> int" where "fs_mkdir path msk = 0"
definition fs_unlink :: "ptr \<Rightarrow> int" where "fs_unlink path = 0"
definition fs_rename :: "ptr \<Rightarrow> ptr \<Rightarrow> int" where "fs_rename oldpath newpath = 0"
definition fs_readdir :: "int \<Rightarrow> u32 \<Rightarrow> ptr" where "fs_readdir fd index = 0"
definition fs_stat :: "ptr \<Rightarrow> ptr \<Rightarrow> int" where "fs_stat path node = 0"
definition fs_chdir :: "ptr \<Rightarrow> int" where "fs_chdir path = 0"

definition fs_mount :: "ptr \<Rightarrow> ptr \<Rightarrow> vfs \<Rightarrow> (int \<times> vfs) panicking option" where
  "fs_mount path root st =
     pbind (fs_kmalloc SIZEOF_MOUNT st) (\<lambda>(mnt, st1).
       let st2 = upd_fs_mem (\<lambda>m. fst (strncpy m mnt path (FS_PATH_MAX - 1))) st1;
           st3 = st2\<lparr>fs_mounts := (fs_mounts st2)(mnt := \<lparr>mnt_root = root, mnt_next = mount_points st2\<rparr>)\<rparr>
       in preturn (0, st3\<lparr>mount_points := mnt\<rparr>))"

subsection \<open>The descriptor table is a pool\<close>

definition open_fds :: "vfs \<Rightarrow> nat set" where
  "open_fds st = {i. i < 256 \<and> fd_node (fd_table st i) \<noteq> 0}"

definition free_fds :: "vfs \<Rightarrow> nat set" where
  "free_fds st = {i. i < 256 \<and> fd_node (fd_table st i) = 0}"

lemma free_fds_finite [simp]: "finite (free_fds st)"
  by (simp add: free_fds_def)

lemma fs_open_loop_cases:
  "(fs_open_loop path fl is st = (-1, st) \<and> (\<forall>i \<in> set is. fd_node (fd_table st i) \<noteq> 0))
   \<or> (\<exists>us i vs. is = us @ i # vs \<and> fd_node (fd_table st i) = 0 \<and> (\<forall>j \<in> set us. fd_node (fd_table st j) \<noteq> 0)
        \<and> fs_open_loop path fl is st
            = (int i, upd_fd i (\<lambda>_. \<lparr>fd_node = fs_traverse path st, fd_offset = 0, fd_flags = fl\<rparr>) st))"
proof (induction "is")
  case Nil
  then show ?case by simp
next
  case (Cons i "is")
  show ?case
  proof (cases "fd_node (fd_table st i) = 0")
    case True
    then show ?thesis by (intro disjI2 exI [of _ "[]"]) simp
  next
    case False
    from Cons.IH show ?thesis
    proof (elim disjE exE conjE)
      fix us k vs assume "is = us @ k # vs" "fd_node (fd_table st k) = 0" "\<forall>j \<in> set us. fd_node (fd_table st j) \<noteq> 0"
        "fs_open_loop path fl is st
          = (int k, upd_fd k (\<lambda>_. \<lparr>fd_node = fs_traverse path st, fd_offset = 0, fd_flags = fl\<rparr>) st)"
      then show ?thesis using False by (intro disjI2 exI [of _ "i # us"]) auto
    qed (use False in simp)
  qed
qed

lemma fs_open_cases:
  "fs_open path fl st = (if free_fds st = {} then (-1, st)
     else (int (Min (free_fds st)), upd_fd (Min (free_fds st))
        (\<lambda>_. \<lparr>fd_node = fs_traverse path st, fd_offset = 0, fd_flags = fl\<rparr>) st))"
proof -
  from fs_open_loop_cases [of path fl "[0..<256]" st] show ?thesis
  proof (elim disjE exE conjE)
    assume "fs_open_loop path fl [0..<256] st = (-1, st)" "\<forall>i \<in> set [0..<256]. fd_node (fd_table st i) \<noteq> 0"
    moreover from this(2) have "free_fds st = {}" by (auto simp: free_fds_def)
    ultimately show ?thesis by (simp add: fs_open_def FS_MAX_FDS_def)
  next
    fix us i vs assume 1: "[0..<256] = us @ i # vs" "fd_node (fd_table st i) = 0"
      "\<forall>j \<in> set us. fd_node (fd_table st j) \<noteq> 0"
      "fs_open_loop path fl [0..<256] st
        = (int i, upd_fd i (\<lambda>_. \<lparr>fd_node = fs_traverse path st, fd_offset = 0, fd_flags = fl\<rparr>) st)"
    have "i \<in> set [0..<256]" unfolding 1(1) by simp
    then have i: "i \<in> free_fds st" using 1(2) by (simp add: free_fds_def)
    have "Min (free_fds st) = i"
    proof (rule Min_eqI)
      fix k assume k: "k \<in> free_fds st"
      then have "k \<in> set (us @ i # vs)" unfolding 1(1) [symmetric] by (simp add: free_fds_def)
      moreover have "k \<notin> set us" using k 1(3) by (auto simp: free_fds_def)
      moreover have "sorted (us @ i # vs)" unfolding 1(1) [symmetric] by simp
      ultimately show "i \<le> k" by (auto simp: sorted_append)
    qed (use i in auto)
    with i show ?thesis using 1(4) by (auto simp: fs_open_def FS_MAX_FDS_def)
  qed
qed

lemma upd_fd_simps [simp]:
  "fs_root_node (upd_fd i f st) = fs_root_node st" "fs_mem (upd_fd i f st) = fs_mem st"
  "fd_table (upd_fd i f st) = (fd_table st)(i := f (fd_table st i))"
  by (simp_all add: upd_fd_def)

lemma open_fds_free: "i \<in> open_fds st \<longleftrightarrow> i < 256 \<and> i \<notin> free_fds st"
  by (auto simp: open_fds_def free_fds_def)

lemma fs_open_none: "free_fds st = {} \<Longrightarrow> fs_open path fl st = (-1, st)"
  by (simp add: fs_open_cases)

lemma fs_open_free:
  assumes "free_fds st \<noteq> {}"
  obtains k where "k = Min (free_fds st)" and "k \<in> free_fds st" and "k < 256"
    and "fs_open path fl st
      = (int k, upd_fd k (\<lambda>_. \<lparr>fd_node = fs_traverse path st, fd_offset = 0, fd_flags = fl\<rparr>) st)"
proof -
  have "Min (free_fds st) \<in> free_fds st" using assms by simp
  moreover from this have "Min (free_fds st) < 256" by (simp add: free_fds_def del: Min_in)
  ultimately show ?thesis using that assms by (simp add: fs_open_cases)
qed

lemma fs_close_open:
  "k \<in> open_fds st \<Longrightarrow> fs_close (int k) st = (0, upd_fd k (\<lambda>e. e\<lparr>fd_node := 0\<rparr>) st)"
  by (auto simp: fs_close_def open_fds_def FS_MAX_FDS_def)

lemma fs_close_bad: "fd < 0 \<or> nat fd \<notin> open_fds st \<Longrightarrow> fs_close fd st = (-1, st)"
  by (auto simp: fs_close_def open_fds_def FS_MAX_FDS_def)

lemma open_fds_upd:
  "k < 256 \<Longrightarrow> fd_node (f (fd_table st k)) \<noteq> 0 \<Longrightarrow> open_fds (upd_fd k f st) = insert k (open_fds st)"
  "fd_node (f (fd_table st k)) = 0 \<Longrightarrow> open_fds (upd_fd k f st) = open_fds st - {k}"
  by (auto simp: open_fds_def)

text \<open>Opening the root directory and closing keep the contract of a pool.\<close>

definition fd_take :: "vfs \<Rightarrow> (nat \<times> vfs) option" where
  "fd_take st = (case fs_open 0 0 st of (fd, st') \<Rightarrow> if fd < 0 then None else Some (nat fd, st'))"

definition fd_give :: "nat \<Rightarrow> vfs \<Rightarrow> vfs" where
  "fd_give k st = snd (fs_close (int k) st)"

definition has_root :: "vfs \<Rightarrow> bool" where
  "has_root st \<longleftrightarrow> fs_root_node st \<noteq> 0"

lemma fd_take_cases:
  assumes "has_root st" and "fd_take st = Some (k, st')"
  shows "k \<notin> open_fds st" and "open_fds st' = insert k (open_fds st)" and "has_root st'"
proof -
  have "free_fds st \<noteq> {}"
    using assms(2) fs_open_none [of st 0 0] by (auto simp: fd_take_def)
  then obtain j where j: "j \<in> free_fds st" "j < 256" "fs_open 0 0 st
      = (int j, upd_fd j (\<lambda>_. \<lparr>fd_node = fs_traverse 0 st, fd_offset = 0, fd_flags = 0\<rparr>) st)"
    by (rule fs_open_free)
  then have k: "k = j" "st' = upd_fd j (\<lambda>_. \<lparr>fd_node = fs_root_node st, fd_offset = 0, fd_flags = 0\<rparr>) st"
    using assms(2) by (auto simp: fd_take_def fs_traverse_def)
  show "k \<notin> open_fds st" "open_fds st' = insert k (open_fds st)" "has_root st'"
    using j(1,2) assms(1) unfolding k by (simp_all add: open_fds_free open_fds_upd(1) has_root_def)
qed

interpretation fdpool: pool fd_take fd_give open_fds has_root
proof
  fix st k
  assume "has_root st" and "k \<in> open_fds st"
  then show "has_root (fd_give k st)" by (simp add: fd_give_def fs_close_open has_root_def)
next
  fix st k
  assume "has_root st" and "k \<in> open_fds st"
  then show "open_fds (fd_give k st) = open_fds st - {k}"
    by (simp add: fd_give_def fs_close_open open_fds_upd(2))
qed (fact fd_take_cases)+

subsection \<open>Creating nodes\<close>

text \<open>A name the code passes: a string below the heap, so no allocation touches it.\<close>

definition name_at :: "mem \<Rightarrow> ptr \<Rightarrow> u8 list \<Rightarrow> bool" where
  "name_at m q x \<longleftrightarrow> cstr m q x \<and> unat q + length x < HEAP_BASE"

lemma name_at_cong:
  "name_at m q x \<Longrightarrow> (\<And>a. unat a < HEAP_BASE \<Longrightarrow> m' a = m a) \<Longrightarrow> name_at m' q x"
  unfolding name_at_def by (auto intro: cstr_below [where a = HEAP_BASE] simp: HEAP_BASE_def)

lemma name_at_lit:
  assumes "s \<in> set names" and "length names < 0x1000" and "length s < 64" and "0 \<notin> set (bytes s)"
  shows "name_at (lit_mem names) (lit_addr names s) (bytes s)"
  using cstr_lit_mem [OF assms] lit_addr_less [OF assms(1-3)] by (simp add: name_at_def bytes_def HEAP_BASE_def)

text \<open>
  Clearing \<open>n\<close> bytes and copying at most \<open>k < n\<close> bytes of a name over them leaves the name, cut
  to \<open>k\<close> bytes, as a string.
\<close>

lemma name_field:
  assumes name: "name_at m q x" and p: "HEAP_BASE \<le> unat p" and fits: "unat p + n \<le> 2 ^ 32"
    and k: "unat k < n" and z: "unat z = n"
  defines "m' \<equiv> fst (strncpy (fst (memset m p 0 z)) p q k)"
  shows "cstr m' p (take (unat k) x)" and "\<And>a. a \<notin> region p n \<Longrightarrow> m' a = m a"
proof -
  let ?m = "fst (memset m p 0 z)"
  have n32: "n \<le> 2 ^ 32" using z unat_u32_less [of z] by simp
  have m: "?m = overlay m p n (\<lambda>_. 0)" by (simp add: memset_overlay z)
  have disj: "region q (Suc (length x)) \<inter> region p n = {}"
    using name p fits by (intro region_apart) (auto simp: name_at_def)
  then have "\<And>a. a \<in> region q (Suc (length x)) \<Longrightarrow> ?m a = m a"
    unfolding m using n32 by (intro overlay_miss) auto
  then have c: "cstr ?m q x" using name cstr_cong [of q x ?m m] by (simp add: name_at_def)
  have sub: "region p (unat k) \<subseteq> region p n" using k by (intro region_mono) simp
  have m': "m' = overlay ?m p (unat k) (\<lambda>i. if i < length x then x ! i else 0)"
    unfolding m'_def using disj sub by (intro strncpy_overlay c) auto
  show "m' a = m a" if "a \<notin> region p n" for a
    using that sub n32 unat_u32_less [of k] unfolding m' m by (subst overlay_miss; (subst overlay_miss)?) auto
  show "cstr m' p (take (unat k) x)"
  proof (rule cstrI)
    show "0 \<notin> set (take (unat k) x)" using cstr_nonzero [OF c] by (auto dest: in_set_takeD)
    show "m' (p + of_nat i) = take (unat k) x ! i" if "i < length (take (unat k) x)" for i
      using that unat_u32_less [of k] by (simp add: m' overlay_hit)
    let ?j = "length (take (unat k) x)"
    have j: "?j < n" "?j \<le> unat k" using k by simp_all
    show "m' (p + of_nat ?j) = 0"
    proof (cases "?j < unat k")
      case True
      then have "?j = length x" by simp
      then show ?thesis using True unat_u32_less [of k] by (simp add: m' overlay_hit)
    next
      case False
      then have eq: "?j = unat k" using j(2) by simp
      have "m' (p + of_nat (unat k)) = ?m (p + of_nat (unat k))"
        by (simp add: m' overlay_def)
      then show ?thesis unfolding eq m using k by (simp add: overlay_def)
    qed
  qed
qed

definition node_of :: "u32 \<Rightarrow> u32 \<Rightarrow> u32 \<Rightarrow> u32 \<Rightarrow> ptr \<Rightarrow> ptr \<Rightarrow> fs_node" where
  "node_of ty msk uid gid par p = zero_node\<lparr>fn_mask := msk, fn_uid := uid, fn_gid := gid, fn_flags := ty,
     fn_inode := p, fn_ptr := par\<rparr>"

lemma fs_create_node_bump:
  assumes tail: "heap_tail a (fs_heap st)" and fits: "a + 352 \<le> HEAP_TOP" and name: "name_at (fs_mem st) q x"
  obtains st' where "fs_create_node q ty msk uid gid par st = Some (Inr (of_nat (a + 16), st'))"
    and "heap_tail (a + 328) (fs_heap st')" and "(of_nat (a + 16) :: ptr) \<noteq> 0"
    and "fs_nodes st' = (fs_nodes st)(of_nat (a + 16) := node_of ty msk uid gid par (of_nat (a + 16)))"
    and "cstr (fs_mem st') (of_nat (a + 16)) (take 255 x)"
    and "\<And>b. b \<notin> region (of_nat (a + 16)) 256 \<Longrightarrow> fs_mem st' b = fs_mem st b"
    and "fs_root_node st' = fs_root_node st" and "fd_table st' = fd_table st"
    and "mount_points st' = mount_points st"
proof -
  let ?p = "of_nat (a + 16) :: ptr"
  obtain h' where h': "kmalloc_ap (of_nat 312) False (fs_heap st) = Some (Inr (?p, None, h'))"
    "heap_tail (a + 16 + 312) h'" "?p \<noteq> 0"
    by (rule kmalloc_bump [OF tail, of 312 False]) (use fits in auto)
  have up: "unat ?p = a + 16" using fits by (intro unat_of_nat_u32) (simp add: HEAP_TOP_def)
  have base: "HEAP_BASE \<le> unat ?p" "unat ?p + 256 \<le> 2 ^ 32"
    using heap_tail_base [OF tail] fits up by (simp_all add: HEAP_TOP_def)
  let ?m = "fst (strncpy (fst (memset (fs_mem st) ?p 0 FS_NAME_MAX)) ?p q (FS_NAME_MAX - 1))"
  let ?st = "st\<lparr>fs_heap := h', fs_nodes := (fs_nodes st)(?p := node_of ty msk uid gid par ?p), fs_mem := ?m\<rparr>"
  have run: "fs_create_node q ty msk uid gid par st = Some (Inr (?p, ?st))"
    using h'(1) by (simp add: fs_create_node_def fs_kmalloc_def kmalloc_def kmalloc_p_def drop_phys_def
      SIZEOF_NODE_def upd_node_def upd_fs_mem_def preturn_def node_of_def zero_node_def Let_def)
  have 255: "unat (FS_NAME_MAX - 1) = 255" "unat FS_NAME_MAX = 256" by (simp_all add: FS_NAME_MAX_def)
  have "cstr ?m ?p (take (unat (FS_NAME_MAX - 1)) x)" and "\<And>b. b \<notin> region ?p 256 \<Longrightarrow> ?m b = fs_mem st b"
    using name_field [OF name base, of "FS_NAME_MAX - 1" FS_NAME_MAX] 255 by auto
  then show ?thesis using h'(2,3) 255
    by (intro that [OF run]) (simp_all add: add.commute)
qed

definition node_is :: "vfs \<Rightarrow> ptr \<Rightarrow> u8 list \<Rightarrow> u32 \<Rightarrow> ptr \<Rightarrow> bool" where
  "node_is st p x msk par \<longleftrightarrow> cstr (fs_mem st) p x \<and> fs_nodes st p = node_of FS_DIRECTORY msk 0 0 par p"

lemma node_is_keep:
  assumes "node_is st p x msk par" and "unat p + length x < a" and "a \<le> 2 ^ 32"
    and "\<And>b. unat b < a \<Longrightarrow> fs_mem st' b = fs_mem st b \<and> fs_nodes st' b = fs_nodes st b"
  shows "node_is st' p x msk par"
  using assms cstr_below [of "fs_mem st" p x a "fs_mem st'"] by (auto simp: node_is_def)

lemma fs_make_dirs_bump:
  assumes "heap_tail a (fs_heap st)" and "a + 328 * length ds + 24 \<le> HEAP_TOP"
    and "\<forall>d \<in> set ds. name_at (fs_mem st) (lit (fst d)) (bytes (fst d)) \<and> length (fst d) < 256"
  obtains st' where "fs_make_dirs lit ds st = Some (Inr st')"
    and "heap_tail (a + 328 * length ds) (fs_heap st')"
    and "\<And>i. i < length ds \<Longrightarrow>
      node_is st' (of_nat (a + 16 + 328 * i)) (bytes (fst (ds ! i))) (snd (ds ! i)) (fs_root_node st)"
    and "\<And>b. unat b < a + 16 \<Longrightarrow> fs_mem st' b = fs_mem st b \<and> fs_nodes st' b = fs_nodes st b"
    and "fs_root_node st' = fs_root_node st" and "fd_table st' = fd_table st"
    and "mount_points st' = mount_points st"
  using assms
proof (induction ds arbitrary: a st thesis)
  case Nil
  show ?case by (rule Nil.prems(1) [of st]) (simp_all add: preturn_def Nil.prems(2))
next
  case (Cons d ds)
  obtain s msk where d: "d = (s, msk)" by (cases d)
  let ?p = "of_nat (a + 16) :: ptr"
  have top: "HEAP_TOP < 2 ^ 32" by (simp add: HEAP_TOP_def)
  have fits: "a + 352 \<le> HEAP_TOP" using Cons.prems(3) by simp
  have name: "name_at (fs_mem st) (lit s) (bytes s)" "length s < 256" using Cons.prems(4) d by auto
  obtain st1 where 1: "fs_create_node (lit s) FS_DIRECTORY msk 0 0 (fs_root_node st) st = Some (Inr (?p, st1))"
    "heap_tail (a + 328) (fs_heap st1)"
    "fs_nodes st1 = (fs_nodes st)(?p := node_of FS_DIRECTORY msk 0 0 (fs_root_node st) ?p)"
    "cstr (fs_mem st1) ?p (take 255 (bytes s))"
    "\<And>b. b \<notin> region ?p 256 \<Longrightarrow> fs_mem st1 b = fs_mem st b"
    "fs_root_node st1 = fs_root_node st" "fd_table st1 = fd_table st" "mount_points st1 = mount_points st"
    by (rule fs_create_node_bump [OF Cons.prems(2) fits name(1), of FS_DIRECTORY msk 0 0 "fs_root_node st"]) blast
  have up: "unat ?p = a + 16" using fits top by (intro unat_of_nat_u32) simp
  have low: "fs_mem st1 b = fs_mem st b \<and> fs_nodes st1 b = fs_nodes st b" if "unat b < a + 16" for b
  proof -
    have "b \<notin> region ?p 256" using region_above [of b "a + 16" 256] that fits top by linarith
    moreover have "b \<noteq> ?p" using that up by auto
    ultimately show ?thesis using 1(3,5) by simp
  qed
  have base: "HEAP_BASE \<le> a" using heap_tail_base [OF Cons.prems(2)] .
  have lits: "\<forall>d \<in> set ds. name_at (fs_mem st1) (lit (fst d)) (bytes (fst d)) \<and> length (fst d) < 256"
  proof
    fix d
    assume "d \<in> set ds"
    then have "name_at (fs_mem st) (lit (fst d)) (bytes (fst d))" "length (fst d) < 256"
      using Cons.prems(4) by auto
    moreover have "fs_mem st1 b = fs_mem st b" if "unat b < HEAP_BASE" for b
      using low [of b] that base by simp
    ultimately show "name_at (fs_mem st1) (lit (fst d)) (bytes (fst d)) \<and> length (fst d) < 256"
      using name_at_cong by blast
  qed
  obtain st' where 2: "fs_make_dirs lit ds st1 = Some (Inr st')"
    "heap_tail (a + 328 + 328 * length ds) (fs_heap st')"
    "\<And>i. i < length ds \<Longrightarrow>
      node_is st' (of_nat (a + 328 + 16 + 328 * i)) (bytes (fst (ds ! i))) (snd (ds ! i)) (fs_root_node st1)"
    "\<And>b. unat b < a + 328 + 16 \<Longrightarrow> fs_mem st' b = fs_mem st1 b \<and> fs_nodes st' b = fs_nodes st1 b"
    "fs_root_node st' = fs_root_node st1" "fd_table st' = fd_table st1" "mount_points st' = mount_points st1"
    by (rule Cons.IH [OF _ 1(2) _ lits]) (use Cons.prems(3) in auto)
  have "take 255 (bytes s) = bytes s" using name(2) by (simp add: bytes_def)
  then have "node_is st1 ?p (bytes s) msk (fs_root_node st)" using 1(3,4) by (simp add: node_is_def)
  then have n0: "node_is st' ?p (bytes s) msk (fs_root_node st)"
  proof (rule node_is_keep)
    show "unat ?p + length (bytes s) < a + 328 + 16" unfolding up using name(2) by (simp add: bytes_def)
    show "a + 328 + 16 \<le> 2 ^ 32" using fits top by linarith
  qed (use 2(4) in blast)
  show ?case
  proof (rule Cons.prems(1))
    show "fs_make_dirs lit (d # ds) st = Some (Inr st')" using 1(1) 2(1) d by simp
    show "heap_tail (a + 328 * length (d # ds)) (fs_heap st')" using 2(2) by (simp add: add.assoc)
    show "node_is st' (of_nat (a + 16 + 328 * i)) (bytes (fst ((d # ds) ! i))) (snd ((d # ds) ! i)) (fs_root_node st)"
      if "i < length (d # ds)" for i
    proof (cases i)
      case 0
      then show ?thesis using n0 d by simp
    next
      case (Suc j)
      have "a + 328 + 16 + 328 * j = a + 16 + 328 * i" using Suc by simp
      then show ?thesis using 2(3) [of j] 1(6) that Suc by (metis Suc_less_eq length_Cons nth_Cons_Suc)
    qed
    show "fs_mem st' b = fs_mem st b \<and> fs_nodes st' b = fs_nodes st b" if "unat b < a + 16" for b
      using 2(4) [of b] low [OF that] that by simp
  qed (use 1(6-8) 2(5-7) in simp_all)
qed

subsection \<open>Properties\<close>

definition vfs0 :: "mem \<Rightarrow> vfs" where
  "vfs0 m = \<lparr>fs_root_node = 0, fd_table = (\<lambda>_. zero_fd), mount_points = 0, fs_nodes = (\<lambda>_. zero_node),
     fs_mounts = (\<lambda>_. \<lparr>mnt_root = 0, mnt_next = 0\<rparr>), fs_heap = heap0, fs_mem = m\<rparr>"

text \<open>C38. \<open>fs_init\<close> on a heap from which nothing has been allocated builds the root directory and
  the fifteen directories below it, at consecutive heap addresses, each with its name, its mode,
  its own address as inode number and the root as parent; all descriptors are free and nothing
  is mounted.\<close>

theorem fs_init_tree:
  assumes "heap_tail HEAP_BASE (fs_heap st)"
    and "\<forall>s \<in> insert '''' (fst ` set root_dirs). name_at (fs_mem st) (lit s) (bytes s)"
  shows "\<exists>st'. fs_init lit st = Some (Inr st') \<and> fs_root st' = 0xD0000010 \<and> mount_points st' = 0
    \<and> open_fds st' = {} \<and> node_is st' 0xD0000010 [] 493 0
    \<and> (\<forall>i < 15. node_is st' (of_nat (0xD0000158 + 328 * i)) (bytes (fst (root_dirs ! i)))
         (snd (root_dirs ! i)) 0xD0000010)"
proof -
  let ?st0 = "st\<lparr>fd_table := (\<lambda>i. if i < FS_MAX_FDS then zero_fd else fd_table st i)\<rparr>"
  have base: "(of_nat (HEAP_BASE + 16) :: ptr) = 0xD0000010" by (simp add: HEAP_BASE_def)
  have tail: "heap_tail HEAP_BASE (fs_heap ?st0)" and root: "name_at (fs_mem ?st0) (lit '''') []"
    using assms by (simp_all add: bytes_def)
  have fits: "HEAP_BASE + 352 \<le> HEAP_TOP" by (simp add: HEAP_BASE_def HEAP_TOP_def)
  obtain st1 where 1: "fs_create_node (lit '''') FS_DIRECTORY 493 0 0 0 ?st0 = Some (Inr (0xD0000010, st1))"
    "heap_tail (HEAP_BASE + 328) (fs_heap st1)"
    "fs_nodes st1 = (fs_nodes ?st0)(0xD0000010 := node_of FS_DIRECTORY 493 0 0 0 0xD0000010)"
    "cstr (fs_mem st1) 0xD0000010 (take 255 [])"
    "\<And>b. b \<notin> region 0xD0000010 256 \<Longrightarrow> fs_mem st1 b = fs_mem ?st0 b" "fd_table st1 = fd_table ?st0"
    by (rule fs_create_node_bump [OF tail fits root, of FS_DIRECTORY 493 0 0 0, unfolded base]) blast
  let ?st1 = "st1\<lparr>fs_root_node := 0xD0000010, mount_points := 0\<rparr>"
  have low: "fs_mem st1 b = fs_mem st b" if "unat b < HEAP_BASE" for b
  proof -
    have "b \<notin> region 0xD0000010 256"
      using region_above [of b "0xD0000010" 256] that by (auto simp: HEAP_BASE_def)
    then show ?thesis using 1(5) by simp
  qed
  have lits: "\<forall>d \<in> set root_dirs. name_at (fs_mem ?st1) (lit (fst d)) (bytes (fst d)) \<and> length (fst d) < 256"
  proof
    fix d
    assume d: "d \<in> set root_dirs"
    then have "name_at (fs_mem st) (lit (fst d)) (bytes (fst d))" using assms(2) by blast
    then have "name_at (fs_mem st1) (lit (fst d)) (bytes (fst d))" using low by (rule name_at_cong)
    moreover have "length (fst d) < 256" using d by (auto simp: root_dirs_def)
    ultimately show "name_at (fs_mem ?st1) (lit (fst d)) (bytes (fst d)) \<and> length (fst d) < 256" by simp
  qed
  have len: "length root_dirs = 15" by (simp add: root_dirs_def)
  have tail1: "heap_tail (HEAP_BASE + 328) (fs_heap ?st1)" using 1(2) by simp
  have fits1: "HEAP_BASE + 328 + 328 * length root_dirs + 24 \<le> HEAP_TOP"
    by (simp add: len HEAP_BASE_def HEAP_TOP_def)
  obtain st' where 2: "fs_make_dirs lit root_dirs ?st1 = Some (Inr st')"
    "\<And>i. i < length root_dirs \<Longrightarrow> node_is st' (of_nat (HEAP_BASE + 328 + 16 + 328 * i))
      (bytes (fst (root_dirs ! i))) (snd (root_dirs ! i)) (fs_root_node ?st1)"
    "\<And>b. unat b < HEAP_BASE + 328 + 16 \<Longrightarrow> fs_mem st' b = fs_mem ?st1 b \<and> fs_nodes st' b = fs_nodes ?st1 b"
    "fs_root_node st' = fs_root_node ?st1" "fd_table st' = fd_table ?st1" "mount_points st' = mount_points ?st1"
    by (rule fs_make_dirs_bump [OF tail1 fits1 lits]) blast
  have "fs_init lit st = Some (Inr st')" using 1(1) 2(1) by (simp add: fs_init_def)
  moreover have "node_is ?st1 0xD0000010 [] 493 0" using 1(3,4) by (simp add: node_is_def)
  then have "node_is st' 0xD0000010 [] 493 0"
    by (rule node_is_keep [where a = "HEAP_BASE + 328 + 16"]) (use 2(3) in \<open>simp_all add: HEAP_BASE_def\<close>)
  moreover have "node_is st' (of_nat (0xD0000158 + 328 * i)) (bytes (fst (root_dirs ! i))) (snd (root_dirs ! i)) 0xD0000010"
    if "i < 15" for i
    using 2(2) [of i] that len by (simp add: HEAP_BASE_def)
  moreover have "open_fds st' = {}" using 2(5) 1(6) by (auto simp: open_fds_def FS_MAX_FDS_def zero_fd_def)
  ultimately show ?thesis using 2(4,6) by (intro exI [of _ st']) (simp add: fs_root_def)
qed

theorem fs_init_tree_witness:
  "\<exists>st'. fs_init (lit_addr ('''' # map fst root_dirs)) (vfs0 (lit_mem ('''' # map fst root_dirs))) = Some (Inr st')
     \<and> open_fds st' = {} \<and> node_is st' 0xD0000158 (bytes ''bin'') 493 0xD0000010"
proof -
  let ?names = "'''' # map fst root_dirs"
  let ?st = "vfs0 (lit_mem ?names)"
  have short: "\<forall>s \<in> set ?names. 0 \<notin> set (bytes s) \<and> length s < 64" "length ?names < 0x1000"
    by (simp_all add: root_dirs_def bytes_def)
  have "\<forall>s \<in> set ?names. name_at (lit_mem ?names) (lit_addr ?names s) (bytes s)"
    using name_at_lit [OF _ short(2)] short(1) by blast
  then have names: "\<forall>s \<in> insert '''' (fst ` set root_dirs). name_at (fs_mem ?st) (lit_addr ?names s) (bytes s)"
    by (simp add: vfs0_def)
  have "heap_tail HEAP_BASE (fs_heap ?st)" by (simp add: vfs0_def heap0_def heap_tail_boot)
  from fs_init_tree [OF this names] show ?thesis by (fastforce simp: root_dirs_def)
qed

text \<open>C35. Opening the root takes the lowest free descriptor, and fails with -1 exactly when all 256
  are in use; closing it frees that descriptor and no other, and closing it a second time fails.\<close>

theorem fs_open_lowest:
  assumes "fs_root_node st \<noteq> 0" and "fs_traverse path st = fs_root_node st"
  shows "if free_fds st = {} then fs_open path fl st = (-1, st)
    else \<exists>st' st''. fs_open path fl st = (int (Min (free_fds st)), st')
      \<and> fd_table st' (Min (free_fds st)) = \<lparr>fd_node = fs_root st, fd_offset = 0, fd_flags = fl\<rparr>
      \<and> open_fds st' = insert (Min (free_fds st)) (open_fds st)
      \<and> fs_close (int (Min (free_fds st))) st' = (0, st'') \<and> open_fds st'' = open_fds st
      \<and> fs_close (int (Min (free_fds st))) st'' = (-1, st'')"
proof (cases "free_fds st = {}")
  case True
  then show ?thesis by (simp add: fs_open_none)
next
  case False
  then obtain k where k: "k = Min (free_fds st)" "k \<in> free_fds st" "k < 256" "fs_open path fl st
      = (int k, upd_fd k (\<lambda>_. \<lparr>fd_node = fs_traverse path st, fd_offset = 0, fd_flags = fl\<rparr>) st)"
    by (rule fs_open_free)
  let ?st' = "upd_fd k (\<lambda>_. \<lparr>fd_node = fs_root_node st, fd_offset = 0, fd_flags = fl\<rparr>) st"
  let ?st'' = "upd_fd k (\<lambda>e. e\<lparr>fd_node := 0\<rparr>) ?st'"
  have o: "open_fds ?st' = insert k (open_fds st)" using k(3) assms(1) by (intro open_fds_upd(1)) simp_all
  then have "fs_close (int k) ?st' = (0, ?st'')" by (intro fs_close_open) simp
  moreover have o2: "open_fds ?st'' = open_fds st"
    using o k(2) by (subst open_fds_upd(2)) (auto simp: open_fds_free)
  moreover have "fs_close (int k) ?st'' = (-1, ?st'')"
    by (rule fs_close_bad) (use o2 k(2) in \<open>simp add: open_fds_free\<close>)
  moreover have "fd_table ?st' k = \<lparr>fd_node = fs_root st, fd_offset = 0, fd_flags = fl\<rparr>"
    by (simp add: fs_root_def)
  ultimately show ?thesis using False k(4) o assms(2) unfolding k(1) [symmetric] by auto
qed

theorem fs_open_lowest_witness:
  "\<forall>m. \<exists>st'. fs_open 0 1 ((vfs0 m)\<lparr>fs_root_node := 0xD0000010\<rparr>) = (0, st') \<and> open_fds st' = {0}"
proof
  fix m
  let ?st = "(vfs0 m)\<lparr>fs_root_node := 0xD0000010\<rparr>"
  have f: "free_fds ?st = {..<256}" "open_fds ?st = {}"
    by (auto simp: free_fds_def open_fds_def vfs0_def zero_fd_def)
  have "Min {..<256 :: nat} = 0" by (rule Min_eqI) auto
  then show "\<exists>st'. fs_open 0 1 ?st = (0, st') \<and> open_fds st' = {0}"
    using fs_open_lowest [of ?st 0 1] f by (auto simp: fs_traverse_def lessThan_empty_iff)
qed

text \<open>Opening any path but the empty one and \<open>/\<close> reports success but takes no descriptor: the
  number returned is the lowest free one, closing it fails, and the next open returns the same
  number again.\<close>

theorem fs_open_missing:
  assumes "path \<noteq> 0" and "fs_mem st path \<noteq> 0" and "\<not> (fs_mem st path = 47 \<and> fs_mem st (path + 1) = 0)"
    and "free_fds st \<noteq> {}"
  shows "\<exists>st'. fs_open path fl st = (int (Min (free_fds st)), st') \<and> open_fds st' = open_fds st
    \<and> fs_close (int (Min (free_fds st))) st' = (-1, st')
    \<and> fst (fs_open path2 fl2 st') = int (Min (free_fds st))"
proof -
  obtain k where k: "k = Min (free_fds st)" "k \<in> free_fds st" "fs_open path fl st
      = (int k, upd_fd k (\<lambda>_. \<lparr>fd_node = fs_traverse path st, fd_offset = 0, fd_flags = fl\<rparr>) st)"
    using assms(4) by (rule fs_open_free)
  let ?st' = "upd_fd k (\<lambda>_. \<lparr>fd_node = fs_traverse path st, fd_offset = 0, fd_flags = fl\<rparr>) st"
  have nz: "\<not> (path = 0 \<or> fs_mem st path = 0)" using assms(1,2) by simp
  have z: "fs_traverse path st = 0" unfolding fs_traverse_def if_not_P [OF nz] if_not_P [OF assms(3)] ..
  have o: "open_fds ?st' = open_fds st"
    using k(2) z by (subst open_fds_upd(2)) (auto simp: open_fds_free)
  moreover have "fs_close (int k) ?st' = (-1, ?st')"
    by (rule fs_close_bad) (use o k(2) in \<open>simp add: open_fds_free\<close>)
  moreover have "free_fds ?st' = free_fds st" using k(2) z by (auto simp: free_fds_def)
  then have "fst (fs_open path2 fl2 ?st') = int k" using assms(4) k(1) by (simp add: fs_open_cases)
  ultimately show ?thesis using k(3) unfolding k(1) [symmetric] by blast
qed

theorem fs_open_missing_witness:
  "\<exists>m st'. fs_open 0x1000 1 (vfs0 m) = (0, st') \<and> open_fds st' = {} \<and> fs_close 0 st' = (-1, st')"
proof -
  let ?st = "vfs0 (\<lambda>a. if a = 0x1000 then 97 else 0)"
  have f: "free_fds ?st = {..<256}" "open_fds ?st = {}"
    by (auto simp: free_fds_def open_fds_def vfs0_def zero_fd_def)
  have min: "Min {..<256 :: nat} = 0" by (rule Min_eqI) auto
  have "fs_mem ?st 0x1000 = 97" by (simp add: vfs0_def)
  with f min have "\<exists>st'. fs_open 0x1000 1 ?st = (0, st') \<and> open_fds st' = {} \<and> fs_close 0 st' = (-1, st')
      \<and> fst (fs_open 0 0 st') = 0"
    using fs_open_missing [of "0x1000" ?st 1 0 0] by (simp add: lessThan_empty_iff)
  then show ?thesis by blast
qed

end
