(* ===== verification/Ramfs.thy ===== *)
theory Ramfs
  imports Vfs
begin

text \<open>
  The RAM file system, \<open>fs/ramfs.c\<close>: a tree of files whose directories hold at most 64
  children in creation order. Files are kept in a typed store over the kernel heap; a file's
  name is its first field, 256 bytes of the flat memory. The abstract view of a directory is an
  association list from names to files, stated as an interface that the code interprets.
\<close>

subsection \<open>State and operations\<close>

definition RAMFS_MAX_FILES :: int where "RAMFS_MAX_FILES = 64"

record ramfs_file =
  rf_data :: ptr
  rf_size :: u32
  rf_capacity :: u32
  rf_type :: u32
  rf_parent :: ptr
  rf_children :: "nat \<Rightarrow> ptr"
  rf_child_count :: int

record ramfs =
  ramfs_root :: ptr
  rf_files :: "ptr \<Rightarrow> ramfs_file"
  rf_heap :: heap
  rf_mem :: mem

definition zero_file :: ramfs_file where
  "zero_file = \<lparr>rf_data = 0, rf_size = 0, rf_capacity = 0, rf_type = 0, rf_parent = 0,
     rf_children = (\<lambda>_. 0), rf_child_count = 0\<rparr>"

text \<open>\<open>sizeof(ramfs_file_t)\<close>: the name, five words, 64 child pointers and the count.\<close>

definition SIZEOF_FILE :: u32 where "SIZEOF_FILE = 536"

definition rf_kmalloc :: "u32 \<Rightarrow> ramfs \<Rightarrow> (ptr \<times> ramfs) panicking option" where
  "rf_kmalloc sz st = map_option (map_sum id (\<lambda>(p, h). (p, st\<lparr>rf_heap := h\<rparr>))) (kmalloc sz (rf_heap st))"

definition upd_file :: "ptr \<Rightarrow> (ramfs_file \<Rightarrow> ramfs_file) \<Rightarrow> ramfs \<Rightarrow> ramfs" where
  "upd_file p f st = st\<lparr>rf_files := (rf_files st)(p := f (rf_files st p))\<rparr>"

definition upd_rf_mem :: "(mem \<Rightarrow> mem) \<Rightarrow> ramfs \<Rightarrow> ramfs" where
  "upd_rf_mem f st = st\<lparr>rf_mem := f (rf_mem st)\<rparr>"

fun ramfs_find_loop :: "ptr \<Rightarrow> ptr \<Rightarrow> nat list \<Rightarrow> ramfs \<Rightarrow> ptr option" where
  "ramfs_find_loop dir name [] st = Some 0"
| "ramfs_find_loop dir name (i # is) st =
     (case strcmp (rf_mem st) (rf_children (rf_files st dir) i) name of
        None \<Rightarrow> None
      | Some c \<Rightarrow> if c = 0 then Some (rf_children (rf_files st dir) i) else ramfs_find_loop dir name is st)"

definition ramfs_find :: "ptr \<Rightarrow> ptr \<Rightarrow> ramfs \<Rightarrow> ptr option" where
  "ramfs_find dir name st = ramfs_find_loop dir name [0..<nat (rf_child_count (rf_files st dir))] st"

text \<open>The memory the new file takes: its name field is cleared, then the name is copied into it.\<close>

definition fill_file :: "ptr \<Rightarrow> ptr \<Rightarrow> u32 \<Rightarrow> ptr \<Rightarrow> ramfs \<Rightarrow> ramfs" where
  "fill_file file name ty parent st =
     (let st1 = upd_rf_mem (\<lambda>m. fst (memset m file 0 FS_NAME_MAX)) (upd_file file (\<lambda>_. zero_file) st);
          st2 = upd_rf_mem (\<lambda>m. fst (strncpy m file name (FS_NAME_MAX - 1))) st1
      in upd_file file (\<lambda>f. f\<lparr>rf_type := ty, rf_parent := parent\<rparr>) st2)"

definition give_data :: "ptr \<Rightarrow> u32 \<Rightarrow> ramfs \<Rightarrow> ramfs panicking option" where
  "give_data file ty st =
     (if ty \<noteq> FS_DIRECTORY
      then pbind (rf_kmalloc PAGE_SIZE st) (\<lambda>(d, st1).
             preturn (upd_file file (\<lambda>f. f\<lparr>rf_data := d, rf_capacity := PAGE_SIZE\<rparr>) st1))
      else preturn st)"

definition add_child :: "ptr \<Rightarrow> ptr \<Rightarrow> ramfs \<Rightarrow> ramfs" where
  "add_child parent file st =
     upd_file parent (\<lambda>f. f\<lparr>rf_children := (rf_children f)(nat (rf_child_count f) := file),
       rf_child_count := rf_child_count f + 1\<rparr>) st"

definition ramfs_create :: "ptr \<Rightarrow> ptr \<Rightarrow> u32 \<Rightarrow> ramfs \<Rightarrow> (ptr \<times> ramfs) panicking option" where
  "ramfs_create parent name ty st =
     (if rf_child_count (rf_files st parent) \<ge> RAMFS_MAX_FILES then preturn (0, st)
      else pbind (rf_kmalloc SIZEOF_FILE st) (\<lambda>(file, st1).
             pbind (give_data file ty (fill_file file name ty parent st1)) (\<lambda>st2.
               preturn (file, add_child parent file st2))))"

definition ramfs_dirs :: "string list" where
  "ramfs_dirs = [''bin'', ''etc'', ''home'', ''tmp'', ''usr'', ''var'', ''dev'', ''proc'', ''lib'']"

fun ramfs_make_dirs :: "ptr \<Rightarrow> ptr list \<Rightarrow> ramfs \<Rightarrow> ramfs panicking option" where
  "ramfs_make_dirs root [] st = preturn st"
| "ramfs_make_dirs root (q # qs) st =
     pbind (ramfs_create root q FS_DIRECTORY st) (\<lambda>(_, st1). ramfs_make_dirs root qs st1)"

text \<open>The outer \<open>None\<close> is a call that does not return, here of \<open>strcpy\<close> from a literal.\<close>

definition ramfs_init :: "(string \<Rightarrow> ptr) \<Rightarrow> ramfs \<Rightarrow> ramfs panicking option" where
  "ramfs_init lit st =
     pbind (rf_kmalloc SIZEOF_FILE st) (\<lambda>(root, st1).
       let st2 = upd_rf_mem (\<lambda>m. fst (memset m root 0 FS_NAME_MAX))
                   (upd_file root (\<lambda>_. zero_file) (st1\<lparr>ramfs_root := root\<rparr>))
       in case strcpy (rf_mem st2) root (lit '''') of
            None \<Rightarrow> None
          | Some (m, _) \<Rightarrow>
              ramfs_make_dirs root (map lit ramfs_dirs)
                (upd_file root (\<lambda>f. f\<lparr>rf_type := FS_DIRECTORY\<rparr>) (st2\<lparr>rf_mem := m\<rparr>)))"

lemma upd_file_simps [simp]:
  "rf_files (upd_file p f st) = (rf_files st)(p := f (rf_files st p))" "rf_heap (upd_file p f st) = rf_heap st"
  "rf_mem (upd_file p f st) = rf_mem st" "ramfs_root (upd_file p f st) = ramfs_root st"
  "rf_files (upd_rf_mem g st) = rf_files st" "rf_heap (upd_rf_mem g st) = rf_heap st"
  "rf_mem (upd_rf_mem g st) = g (rf_mem st)" "ramfs_root (upd_rf_mem g st) = ramfs_root st"
  by (simp_all add: upd_file_def upd_rf_mem_def)

subsection \<open>A directory is a table of names\<close>

text \<open>
  \<open>holds n s es\<close>: the directory of \<open>s\<close> has the entries \<open>es\<close>, oldest first, and room for
  \<open>n\<close> more; \<open>name s q x\<close>: \<open>q\<close> points to the name \<open>x\<close>.
\<close>

locale dir_table =
  fixes find :: "'s \<Rightarrow> ptr \<Rightarrow> ptr option"
    and create :: "ptr \<Rightarrow> 's \<Rightarrow> (ptr \<times> 's) panicking option"
    and name :: "'s \<Rightarrow> ptr \<Rightarrow> u8 list \<Rightarrow> bool"
    and holds :: "nat \<Rightarrow> 's \<Rightarrow> (u8 list \<times> ptr) list \<Rightarrow> bool"
  assumes find_holds: "holds n s es \<Longrightarrow> name s q x \<Longrightarrow>
      find s q = Some (case map_of es x of None \<Rightarrow> 0 | Some p \<Rightarrow> p)"
    and create_holds: "holds (Suc n) s es \<Longrightarrow> name s q x \<Longrightarrow>
      \<exists>p s'. create q s = Some (Inr (p, s')) \<and> holds n s' (es @ [(take 255 x, p)]) \<and> p \<noteq> 0
        \<and> p \<notin> snd ` set es \<and> (\<forall>q x. name s q x \<longrightarrow> name s' q x)"
begin

primrec create_list :: "ptr list \<Rightarrow> 's \<Rightarrow> 's panicking option" where
  "create_list [] s = preturn s"
| "create_list (q # qs) s = pbind (create q s) (\<lambda>(_, s'). create_list qs s')"

lemma create_list_holds:
  assumes "holds (length qs + n) s es" and "list_all2 (name s) qs xs" and "\<forall>x \<in> set xs. length x < 256"
  shows "\<exists>s' ps. create_list qs s = Some (Inr s') \<and> holds n s' (es @ zip xs ps) \<and> length ps = length xs
    \<and> 0 \<notin> set ps \<and> (\<forall>q x. name s q x \<longrightarrow> name s' q x)"
  using assms
proof (induction qs arbitrary: s es xs)
  case Nil
  then show ?case by (auto simp: preturn_def)
next
  case (Cons q qs)
  from Cons.prems(2) obtain x ys where xs: "xs = x # ys" "name s q x" "list_all2 (name s) qs ys"
    by (auto simp: list_all2_Cons1)
  have "holds (Suc (length qs + n)) s es" using Cons.prems(1) by simp
  from create_holds [OF this xs(2)] obtain p s1 where 1: "create q s = Some (Inr (p, s1))"
    "holds (length qs + n) s1 (es @ [(x, p)])" "p \<noteq> 0" "\<forall>q x. name s q x \<longrightarrow> name s1 q x"
    using Cons.prems(3) xs(1) by auto
  have "list_all2 (name s1) qs ys" using xs(3) 1(4) by (auto elim!: list_all2_mono)
  moreover have "\<forall>x \<in> set ys. length x < 256" using Cons.prems(3) xs(1) by simp
  ultimately obtain s' ps where 2: "create_list qs s1 = Some (Inr s')"
    "holds n s' ((es @ [(x, p)]) @ zip ys ps)" "length ps = length ys" "0 \<notin> set ps"
    "\<forall>q x. name s1 q x \<longrightarrow> name s' q x"
    using Cons.IH [OF 1(2)] by metis
  then show ?case using 1 xs(1) by (intro exI [of _ s'] exI [of _ "p # ps"]) auto
qed

text \<open>Names created in an empty directory are found there, and no others.\<close>

lemma create_list_finds:
  assumes "holds (length qs + n) s []" and "list_all2 (name s) qs xs" and "\<forall>x \<in> set xs. length x < 256"
    and "create_list qs s = Some (Inr s')" and "name s q x"
  shows "\<exists>p. find s' q = Some p \<and> (p = 0 \<longleftrightarrow> x \<notin> set xs)"
proof -
  obtain ps where ps: "holds n s' (zip xs ps)" "length ps = length xs" "0 \<notin> set ps" "name s' q x"
    using create_list_holds [OF assms(1-3)] assms(4,5) by auto
  have "\<exists>p. map_of (zip xs ps) x = Some p \<and> p \<noteq> 0" if "x \<in> set xs"
    using that ps(2,3) map_of_SomeD [of "zip xs ps" x] set_zip_rightD [of x _ xs ps]
      map_of_zip_is_Some [of xs ps x] by fastforce
  moreover have "map_of (zip xs ps) x = None" if "x \<notin> set xs" using that ps(2) by simp
  ultimately show ?thesis using find_holds [OF ps(1,4)] by (cases "x \<in> set xs") auto
qed

end

subsection \<open>The code keeps the contract\<close>

definition dir_entries :: "ramfs \<Rightarrow> ptr \<Rightarrow> (u8 list \<times> ptr) list \<Rightarrow> bool" where
  "dir_entries st d es \<longleftrightarrow> rf_child_count (rf_files st d) = int (length es)
     \<and> (\<forall>i < length es. rf_children (rf_files st d) i = snd (es ! i) \<and> cstr (rf_mem st) (snd (es ! i)) (fst (es ! i)))"

text \<open>
  \<open>rf_ok n st d es\<close>: the directory at \<open>d\<close> has the entries \<open>es\<close>, all files lie below the
  free rest of the heap, and there is room for \<open>n\<close> more files, each with a page of data.
\<close>

definition rf_ok :: "ptr \<Rightarrow> nat \<Rightarrow> ramfs \<Rightarrow> (u8 list \<times> ptr) list \<Rightarrow> bool" where
  "rf_ok d n st es \<longleftrightarrow> dir_entries st d es \<and> length es + n \<le> 64
     \<and> (\<exists>a. heap_tail a (rf_heap st) \<and> a + n * 4664 + 24 \<le> HEAP_TOP \<and> unat d < a
          \<and> (\<forall>(x, p) \<in> set es. unat p + length x < a))"

lemma ramfs_find_loop_entries:
  assumes "name_at (rf_mem st) q x"
    and "\<forall>i < length es. rf_children (rf_files st d) i = snd (es ! i) \<and> cstr (rf_mem st) (snd (es ! i)) (fst (es ! i))"
    and "k \<le> length es"
  shows "ramfs_find_loop d q [k..<length es] st
    = Some (case map_of (drop k es) x of None \<Rightarrow> 0 | Some p \<Rightarrow> p)"
  using assms(3)
proof (induction rule: inc_induct)
  case base
  then show ?case by simp
next
  case (step k)
  have q: "cstr (rf_mem st) q x" using assms(1) by (simp add: name_at_def)
  have c: "rf_children (rf_files st d) k = snd (es ! k)" "cstr (rf_mem st) (snd (es ! k)) (fst (es ! k))"
    using assms(2) step.hyps by auto
  have cmp: "strcmp (rf_mem st) (snd (es ! k)) q = Some (strcmp_l (fst (es ! k)) x)"
    "strcmp_l (fst (es ! k)) x = 0 \<longleftrightarrow> fst (es ! k) = x"
    using strcmp_cstr [OF c(2) q] strcmp_l_0_iff cstr_nonzero [OF c(2)] cstr_nonzero [OF q] by auto
  have "[k..<length es] = k # [Suc k..<length es]" "drop k es = es ! k # drop (Suc k) es"
    using step.hyps by (simp_all add: upt_conv_Cons Cons_nth_drop_Suc)
  then show ?case using step.IH c(1) cmp by (cases "es ! k") auto
qed

lemma ramfs_find_entries:
  assumes "dir_entries st d es" and "name_at (rf_mem st) q x"
  shows "ramfs_find d q st = Some (case map_of es x of None \<Rightarrow> 0 | Some p \<Rightarrow> p)"
  using ramfs_find_loop_entries [OF assms(2), of es d 0] assms(1)
  by (simp add: ramfs_find_def dir_entries_def)

lemma give_data_bump:
  assumes tail: "heap_tail a (rf_heap st)" and fits: "a + 4136 \<le> HEAP_TOP"
  obtains b st' where "give_data file ty st = Some (Inr st')" and "heap_tail b (rf_heap st')"
    and "a \<le> b" and "b \<le> a + 4112" and "rf_mem st' = rf_mem st" and "ramfs_root st' = ramfs_root st"
    and "rf_files st' = (rf_files st)(file := if ty = FS_DIRECTORY then rf_files st file
           else (rf_files st file)\<lparr>rf_data := of_nat (a + 16), rf_capacity := PAGE_SIZE\<rparr>)"
proof (cases "ty = FS_DIRECTORY")
  case True
  then show ?thesis using tail by (intro that [of st a]) (simp_all add: give_data_def preturn_def)
next
  case False
  obtain h' where h': "kmalloc_ap (of_nat 4096) False (rf_heap st) = Some (Inr (of_nat (a + 16), None, h'))"
    "heap_tail (a + 16 + 4096) h'"
    by (rule kmalloc_bump [OF tail, of 4096 False]) (use fits in auto)
  let ?st = "upd_file file (\<lambda>f. f\<lparr>rf_data := of_nat (a + 16), rf_capacity := PAGE_SIZE\<rparr>) (st\<lparr>rf_heap := h'\<rparr>)"
  have "give_data file ty st = Some (Inr ?st)"
    using False h'(1) by (simp add: give_data_def rf_kmalloc_def kmalloc_def kmalloc_p_def drop_phys_def
      PAGE_SIZE_def preturn_def)
  then show ?thesis using False h'(2) by (intro that [of ?st "a + 16 + 4096"]) simp_all
qed

lemma ramfs_create_bump:
  assumes ok: "rf_ok d (Suc n) st es" and name: "name_at (rf_mem st) q x"
  obtains p st' where "ramfs_create d q ty st = Some (Inr (p, st'))"
    and "rf_ok d n st' (es @ [(take 255 x, p)])" and "p \<noteq> 0" and "p \<notin> snd ` set es"
    and "\<And>q x. name_at (rf_mem st) q x \<Longrightarrow> name_at (rf_mem st') q x"
    and "rf_type (rf_files st' p) = ty" and "rf_parent (rf_files st' p) = d"
    and "rf_child_count (rf_files st' p) = 0"
    and "ty \<noteq> FS_DIRECTORY \<longrightarrow> rf_data (rf_files st' p) \<noteq> 0 \<and> rf_capacity (rf_files st' p) = PAGE_SIZE"
    and "ramfs_root st' = ramfs_root st"
proof -
  have dir: "dir_entries st d es" "length es < 64" using ok by (auto simp: rf_ok_def)
  obtain a where tail: "heap_tail a (rf_heap st)" and a: "a + Suc n * 4664 + 24 \<le> HEAP_TOP" "unat d < a"
    "\<forall>(x, p) \<in> set es. unat p + length x < a"
    using ok by (auto simp: rf_ok_def)
  have top: "HEAP_TOP < 2 ^ 32" by (simp add: HEAP_TOP_def)
  define p where "p = (of_nat (a + 16) :: ptr)"
  have up: "unat p = a + 16" unfolding p_def using a(1) top by (intro unat_of_nat_u32) simp
  have base: "HEAP_BASE \<le> a" using heap_tail_base [OF tail] .
  obtain h' where h': "kmalloc_ap (of_nat 536) False (rf_heap st) = Some (Inr (p, None, h'))"
    "heap_tail (a + 552) h'" "p \<noteq> 0"
    using kmalloc_bump [OF tail, of 536 False] a(1) by (auto simp: p_def add.commute)
  define st1 where "st1 = fill_file p q ty d (st\<lparr>rf_heap := h'\<rparr>)"
  have 1: "rf_heap st1 = h'" "ramfs_root st1 = ramfs_root st"
    "rf_files st1 = (rf_files st)(p := zero_file\<lparr>rf_type := ty, rf_parent := d\<rparr>)"
    "rf_mem st1 = fst (strncpy (fst (memset (rf_mem st) p 0 FS_NAME_MAX)) p q (FS_NAME_MAX - 1))"
    by (simp_all add: st1_def fill_file_def Let_def)
  have fld: "cstr (rf_mem st1) p (take 255 x)" "\<And>b. b \<notin> region p 256 \<Longrightarrow> rf_mem st1 b = rf_mem st b"
    using name_field [OF name, of p 256 "FS_NAME_MAX - 1" FS_NAME_MAX] base up a(1) top
    by (simp_all add: 1(4) FS_NAME_MAX_def)
  have low: "rf_mem st1 b = rf_mem st b" if "unat b < a" for b
  proof -
    have "a + 16 + 256 \<le> 2 ^ 32" using a(1) top by simp
    then have "b \<notin> region p 256"
      unfolding p_def using region_above [of b "a + 16" 256] that by linarith
    then show ?thesis by (rule fld(2))
  qed
  have fits: "a + 552 + 4136 \<le> HEAP_TOP" using a(1) by simp
  have tail1: "heap_tail (a + 552) (rf_heap st1)" using h'(2) 1(1) by simp
  obtain b st2 where 2: "give_data p ty st1 = Some (Inr st2)" "heap_tail b (rf_heap st2)" "a + 552 \<le> b"
    "b \<le> a + 552 + 4112" "rf_mem st2 = rf_mem st1" "ramfs_root st2 = ramfs_root st1"
    "rf_files st2 = (rf_files st1)(p := if ty = FS_DIRECTORY then rf_files st1 p
       else (rf_files st1 p)\<lparr>rf_data := of_nat (a + 552 + 16), rf_capacity := PAGE_SIZE\<rparr>)"
    by (rule give_data_bump [OF tail1 fits, of p ty]) blast
  let ?st' = "add_child d p st2"
  have dp: "d \<noteq> p" using a(2) up by auto
  have run: "ramfs_create d q ty st = Some (Inr (p, ?st'))"
    using dir h'(1) 2(1) by (simp add: ramfs_create_def RAMFS_MAX_FILES_def dir_entries_def rf_kmalloc_def
      kmalloc_def kmalloc_p_def drop_phys_def SIZEOF_FILE_def st1_def preturn_def)
  have mem: "rf_mem ?st' = rf_mem st1" using 2(5) by (simp add: add_child_def)
  have dfile: "rf_files ?st' d = (rf_files st d)\<lparr>rf_children := (rf_children (rf_files st d))(length es := p),
      rf_child_count := int (length es) + 1\<rparr>"
    using dp dir(1) by (simp add: add_child_def 2(7) 1(3) dir_entries_def)
  have pfile: "rf_files ?st' p = (if ty = FS_DIRECTORY then zero_file\<lparr>rf_type := ty, rf_parent := d\<rparr>
      else zero_file\<lparr>rf_type := ty, rf_parent := d, rf_data := of_nat (a + 552 + 16), rf_capacity := PAGE_SIZE\<rparr>)"
    using dp by (simp add: add_child_def 2(7) 1(3) zero_file_def)
  have "cstr (rf_mem ?st') (snd (es ! i)) (fst (es ! i))" if "i < length es" for i
  proof (rule cstr_below)
    show "cstr (rf_mem st) (snd (es ! i)) (fst (es ! i))" using dir(1) that by (simp add: dir_entries_def)
    have "(fst (es ! i), snd (es ! i)) \<in> set es" using that by simp
    then show "unat (snd (es ! i)) + length (fst (es ! i)) < a" using a(3) by fastforce
    show "a \<le> 2 ^ 32" using a(1) top by linarith
  qed (simp add: mem low)
  then have "dir_entries ?st' d (es @ [(take 255 x, p)])"
    using dir(1) fld(1) by (auto simp: dir_entries_def dfile mem nth_append less_Suc_eq)
  moreover have "heap_tail b (rf_heap ?st')" using 2(2) by (simp add: add_child_def)
  moreover have "b + n * 4664 + 24 \<le> HEAP_TOP" "unat d < b" "unat p + length (take 255 x) < b"
    "\<forall>(x, p) \<in> set es. unat p + length x < b"
    using a 2(3,4) up by auto
  ultimately have "rf_ok d n ?st' (es @ [(take 255 x, p)])" using ok unfolding rf_ok_def by auto
  moreover have "p \<notin> snd ` set es" using a(3) up by auto
  moreover have "name_at (rf_mem ?st') r y" if "name_at (rf_mem st) r y" for r y
    using that by (rule name_at_cong) (simp add: mem low base order.strict_trans2 [OF _ base])
  moreover have "rf_data (rf_files ?st' p) \<noteq> 0" if "ty \<noteq> FS_DIRECTORY"
    using that fits of_nat_u32_inject [of "a + 552 + 16" 0] top by (simp add: pfile)
  ultimately show ?thesis using run h'(3) 1(2) 2(6) pfile
    by (intro that [of p ?st']) (auto simp: zero_file_def add_child_def)
qed

interpretation rdir: dir_table "\<lambda>st q. ramfs_find d q st" "\<lambda>q. ramfs_create d q ty" "\<lambda>st. name_at (rf_mem st)" "rf_ok d"
  for d ty
proof
  fix n st es q x
  assume "rf_ok d n st es" and "name_at (rf_mem st) q x"
  then show "ramfs_find d q st = Some (case map_of es x of None \<Rightarrow> 0 | Some p \<Rightarrow> p)"
    by (auto simp: rf_ok_def ramfs_find_entries)
next
  fix n st es q x
  assume "rf_ok d (Suc n) st es" and "name_at (rf_mem st) q x"
  then show "\<exists>p s'. ramfs_create d q ty st = Some (Inr (p, s')) \<and> rf_ok d n s' (es @ [(take 255 x, p)]) \<and> p \<noteq> 0
      \<and> p \<notin> snd ` set es \<and> (\<forall>q x. name_at (rf_mem st) q x \<longrightarrow> name_at (rf_mem s') q x)"
    by (rule ramfs_create_bump [where ty = ty]) blast
qed

lemma ramfs_make_dirs_list: "ramfs_make_dirs d qs st = rdir.create_list d FS_DIRECTORY qs st"
  by (induction qs arbitrary: st) (simp_all add: pbind_def split: option.split sum.split)

lemma rf_kmalloc_root: "rf_kmalloc sz st = Some (Inr (p, st')) \<Longrightarrow> ramfs_root st' = ramfs_root st"
  unfolding rf_kmalloc_def map_panicking_Inr by auto

lemma ramfs_create_root: "ramfs_create d q ty st = Some (Inr (p, st')) \<Longrightarrow> ramfs_root st' = ramfs_root st"
  by (auto simp: ramfs_create_def pbind_Inr preturn_def give_data_def fill_file_def add_child_def Let_def
    dest!: rf_kmalloc_root split: if_splits)

lemma ramfs_make_dirs_root: "ramfs_make_dirs d qs st = Some (Inr st') \<Longrightarrow> ramfs_root st' = ramfs_root st"
  by (induction qs arbitrary: st) (auto simp: preturn_def pbind_Inr dest: ramfs_create_root)

lemma ramfs_init_start:
  assumes tail: "heap_tail HEAP_BASE (rf_heap st)" and nul: "name_at (rf_mem st) (lit '''') []"
  obtains st1 where "ramfs_init lit st = ramfs_make_dirs 0xD0000010 (map lit ramfs_dirs) st1"
    and "rf_ok 0xD0000010 64 st1 []" and "ramfs_root st1 = 0xD0000010"
    and "\<And>q x. name_at (rf_mem st) q x \<Longrightarrow> name_at (rf_mem st1) q x"
proof -
  let ?p = "0xD0000010 :: ptr"
  obtain h' where h': "kmalloc_ap (of_nat 536) False (rf_heap st) = Some (Inr (?p, None, h'))"
    "heap_tail (HEAP_BASE + 16 + 536) h'"
    by (rule kmalloc_bump [OF tail, of 536 False]) (auto simp: HEAP_BASE_def HEAP_TOP_def)
  let ?st0 = "st\<lparr>rf_heap := h', ramfs_root := ?p\<rparr>"
  let ?st1 = "upd_rf_mem (\<lambda>m. fst (memset m ?p 0 FS_NAME_MAX)) (upd_file ?p (\<lambda>_. zero_file) ?st0)"
  have m1: "rf_mem ?st1 = overlay (rf_mem st) ?p 256 (\<lambda>_. 0)"
    by (simp add: memset_overlay FS_NAME_MAX_def)
  have above: "b \<notin> region ?p n" if "unat b < HEAP_BASE" and "n \<le> 256" for b n
    using region_above [of b "0xD0000010" n] that by (auto simp: HEAP_BASE_def)
  have low1: "rf_mem ?st1 b = rf_mem st b" if "unat b < HEAP_BASE" for b
    unfolding m1 using above [OF that] by (simp add: overlay_miss)
  have nul1: "name_at (rf_mem ?st1) (lit '''') []" using nul low1 by (rule name_at_cong)
  have "b < ?p" if "b \<in> region (lit '''') 1" for b
    using that nul by (auto simp: name_at_def HEAP_BASE_def word_less_nat_alt region_def)
  then have "region ?p 1 \<inter> region (lit '''') 1 = {}" by (auto simp: region_def)
  then have cp: "strcpy (rf_mem ?st1) ?p (lit '''') = Some ((rf_mem ?st1)(?p := 0), ?p)"
    using strcpy_eq_write [of "rf_mem ?st1" "lit ''''" "[]" ?p] nul1 by (simp add: name_at_def)
  let ?st2 = "upd_file ?p (\<lambda>f. f\<lparr>rf_type := FS_DIRECTORY\<rparr>) (?st1\<lparr>rf_mem := (rf_mem ?st1)(?p := 0)\<rparr>)"
  have "ramfs_init lit st = ramfs_make_dirs ?p (map lit ramfs_dirs) ?st2"
    using h'(1) cp by (simp add: ramfs_init_def rf_kmalloc_def kmalloc_def kmalloc_p_def drop_phys_def
      SIZEOF_FILE_def Let_def)
  moreover have "rf_ok ?p 64 ?st2 []"
    unfolding rf_ok_def dir_entries_def using h'(2)
    by (auto simp: upd_file_def upd_rf_mem_def zero_file_def HEAP_BASE_def HEAP_TOP_def)
  moreover have low2: "rf_mem ?st2 b = rf_mem st b" if "unat b < HEAP_BASE" for b
  proof -
    have "b \<noteq> ?p" using that by (auto simp: HEAP_BASE_def)
    then show ?thesis using low1 [OF that] by simp
  qed
  moreover have "name_at (rf_mem ?st2) q x" if "name_at (rf_mem st) q x" for q x
    using that low2 by (rule name_at_cong)
  ultimately show ?thesis by (intro that [of ?st2]) simp_all
qed

subsection \<open>Properties\<close>


definition ramfs0 :: "mem \<Rightarrow> ramfs" where
  "ramfs0 m = \<lparr>ramfs_root = 0, rf_files = (\<lambda>_. zero_file), rf_heap = heap0, rf_mem = m\<rparr>"


text \<open>\<open>ramfs_init\<close> on a heap from which nothing has been allocated builds a root in which
  exactly the nine system directories are found.\<close>

theorem ramfs_init_finds:
  assumes "heap_tail HEAP_BASE (rf_heap st)"
    and "\<forall>s \<in> insert '''' (set ramfs_dirs). name_at (rf_mem st) (lit s) (bytes s)"
    and "name_at (rf_mem st) q x"
  shows "\<exists>st' p. ramfs_init lit st = Some (Inr st') \<and> ramfs_root st' = 0xD0000010
    \<and> ramfs_find (ramfs_root st') q st' = Some p \<and> (p = 0 \<longleftrightarrow> x \<notin> bytes ` set ramfs_dirs)"
proof -
  have nul: "name_at (rf_mem st) (lit '''') []" using assms(2) by (simp add: bytes_def)
  obtain st1 where 1: "ramfs_init lit st = ramfs_make_dirs 0xD0000010 (map lit ramfs_dirs) st1"
    "rf_ok 0xD0000010 64 st1 []" "ramfs_root st1 = 0xD0000010"
    "\<And>q x. name_at (rf_mem st) q x \<Longrightarrow> name_at (rf_mem st1) q x"
    by (rule ramfs_init_start [of st lit, OF assms(1) nul]) blast
  have ok: "rf_ok 0xD0000010 (length (map lit ramfs_dirs) + 55) st1 []" using 1(2) by (simp add: ramfs_dirs_def)
  have names: "list_all2 (name_at (rf_mem st1)) (map lit ramfs_dirs) (map bytes ramfs_dirs)"
    using assms(2) 1(4) by (simp add: list_all2_conv_all_nth)
  have short: "\<forall>x \<in> set (map bytes ramfs_dirs). length x < 256" by (simp add: ramfs_dirs_def bytes_def)
  obtain st' where 2: "rdir.create_list 0xD0000010 FS_DIRECTORY (map lit ramfs_dirs) st1 = Some (Inr st')"
    using rdir.create_list_holds [OF ok names short] by blast
  have run: "ramfs_make_dirs 0xD0000010 (map lit ramfs_dirs) st1 = Some (Inr st')"
    using 2 by (simp add: ramfs_make_dirs_list)
  have "ramfs_root st' = 0xD0000010" using ramfs_make_dirs_root [OF run] 1(3) by simp
  with run 1(1) rdir.create_list_finds [OF ok names short 2 1(4) [OF assms(3)]] show ?thesis by auto
qed

theorem ramfs_init_finds_witness:
  "\<exists>st' p. ramfs_init (lit_addr ('''' # ramfs_dirs)) (ramfs0 (lit_mem ('''' # ramfs_dirs))) = Some (Inr st')
     \<and> ramfs_find (ramfs_root st') (lit_addr ('''' # ramfs_dirs) ''tmp'') st' = Some p \<and> p \<noteq> 0"
proof -
  let ?names = "'''' # ramfs_dirs"
  let ?st = "ramfs0 (lit_mem ?names)"
  have short: "\<forall>s \<in> set ?names. 0 \<notin> set (bytes s) \<and> length s < 64" "length ?names < 0x1000"
    by (simp_all add: ramfs_dirs_def bytes_def)
  have "\<forall>s \<in> set ?names. name_at (lit_mem ?names) (lit_addr ?names s) (bytes s)"
    using name_at_lit [OF _ short(2)] short(1) by blast
  then have names: "\<forall>s \<in> insert '''' (set ramfs_dirs). name_at (rf_mem ?st) (lit_addr ?names s) (bytes s)"
    by (simp add: ramfs0_def)
  have tail: "heap_tail HEAP_BASE (rf_heap ?st)" by (simp add: ramfs0_def heap0_def heap_tail_boot)
  have tmp: "''tmp'' \<in> set ramfs_dirs" by (simp add: ramfs_dirs_def)
  then have "name_at (rf_mem ?st) (lit_addr ?names ''tmp'') (bytes ''tmp'')" using names by blast
  from ramfs_init_finds [OF tail names this] tmp show ?thesis by fastforce
qed

end
