(* ===== verification/Stdlib.thy ===== *)
theory Stdlib
  imports CNumber Allocator
begin

text \<open>
  The rest of \<open>lib/stdlib.c\<close>: the \<open>malloc\<close> family on the kernel heap and the byte
  memory, the pseudo-random numbers, and the character classes. \<open>strtol\<close> is in theory
  \<open>CNumber\<close>.
\<close>

subsection \<open>The malloc family\<close>

record libc =
  lc_heap :: heap
  lc_mem :: mem
  rand_seed :: u32

definition malloc :: "u32 \<Rightarrow> libc \<Rightarrow> (ptr \<times> libc) panicking option" where
  "malloc sz st = map_option (map_sum id (\<lambda>(p, h). (p, st\<lparr>lc_heap := h\<rparr>))) (kmalloc sz (lc_heap st))"

definition free :: "ptr \<Rightarrow> libc \<Rightarrow> libc" where
  "free p st = st\<lparr>lc_heap := kfree p (lc_heap st)\<rparr>"

definition calloc :: "u32 \<Rightarrow> u32 \<Rightarrow> libc \<Rightarrow> (ptr \<times> libc) panicking option" where
  "calloc num sz st =
     pbind (malloc (num * sz) st) (\<lambda>(p, st1).
       preturn (p, if p \<noteq> 0 then st1\<lparr>lc_mem := fst (memset (lc_mem st1) p 0 (num * sz))\<rparr> else st1))"

definition realloc :: "ptr \<Rightarrow> u32 \<Rightarrow> libc \<Rightarrow> (ptr \<times> libc) panicking option" where
  "realloc p sz st =
     (if p = 0 then malloc sz st else if sz = 0 then preturn (0, free p st) else preturn (p, st))"

subsection \<open>Pseudo-random numbers\<close>

definition libc_boot :: "heap \<Rightarrow> mem \<Rightarrow> libc" where
  "libc_boot h m = \<lparr>lc_heap = h, lc_mem = m, rand_seed = 1\<rparr>"

definition rand :: "libc \<Rightarrow> u32 \<times> libc" where
  "rand st =
     (let seed = rand_seed st * 1103515245 + 12345
      in (seed div 65536 mod 32768, st\<lparr>rand_seed := seed\<rparr>))"

definition srand :: "u32 \<Rightarrow> libc \<Rightarrow> libc" where
  "srand seed st = st\<lparr>rand_seed := seed\<rparr>"

subsection \<open>Character classes\<close>

text \<open>A C \<open>int\<close> argument is the integer it stands for.\<close>

definition isspace :: "int \<Rightarrow> bool" where "isspace c \<longleftrightarrow> c = 32 \<or> c = 9 \<or> c = 10 \<or> c = 13 \<or> c = 11 \<or> c = 12"
definition isdigit :: "int \<Rightarrow> bool" where "isdigit c \<longleftrightarrow> c \<ge> 48 \<and> c \<le> 57"
definition isalpha :: "int \<Rightarrow> bool" where "isalpha c \<longleftrightarrow> (c \<ge> 97 \<and> c \<le> 122) \<or> (c \<ge> 65 \<and> c \<le> 90)"
definition isalnum :: "int \<Rightarrow> bool" where "isalnum c \<longleftrightarrow> isalpha c \<or> isdigit c"
definition isupper :: "int \<Rightarrow> bool" where "isupper c \<longleftrightarrow> c \<ge> 65 \<and> c \<le> 90"
definition islower :: "int \<Rightarrow> bool" where "islower c \<longleftrightarrow> c \<ge> 97 \<and> c \<le> 122"
definition toupper :: "int \<Rightarrow> int" where "toupper c = (if islower c then c - 97 + 65 else c)"
definition tolower :: "int \<Rightarrow> int" where "tolower c = (if isupper c then c - 65 + 97 else c)"

lemmas ctype_defs = isspace_def isdigit_def isalpha_def isalnum_def isupper_def islower_def toupper_def tolower_def

lemma case_conversions:
  "isupper c \<Longrightarrow> toupper (tolower c) = c" "islower c \<Longrightarrow> tolower (toupper c) = c"
  "isalpha c \<longleftrightarrow> isupper c \<or> islower c" "tolower (toupper c) = tolower c" "toupper (tolower c) = toupper c"
  by (auto simp: ctype_defs)

lemma rand_range: "unat (fst (rand st)) < 32768"
  using mod_less_divisor [of 32768 "unat (fst (rand st))"]
  by (simp add: rand_def Let_def unat_mod)

subsection \<open>Properties\<close>

text \<open>C39. \<open>calloc\<close> returns a zeroed block of the heap that no allocation held, and changes nothing
  else; its size is the product of the arguments cut to 32 bits, so a product of 2^32 or more
  gets a block smaller than the caller asked for. \<open>realloc\<close> of a live block never moves or grows
  it, whatever the new size.\<close>

theorem calloc_zeroed:
  assumes "heap_rep (lc_heap st) xs" and "coalesced xs"
    and "n = unat num * unat sz mod 2 ^ 32" and "has_room n (lc_heap st)"
  shows "\<exists>p st' k ys. calloc num sz st = Some (Inr (p, st')) \<and> n \<le> k
    \<and> heap_rep (lc_heap st') ys \<and> set (live_l HEAP_BASE ys) = insert (unat p, k) (set (live_l HEAP_BASE xs))
    \<and> (unat p, k) \<notin> set (live_l HEAP_BASE xs)
    \<and> bytes_at (lc_mem st') p n = replicate n 0 \<and> (\<forall>a. a \<notin> region p n \<longrightarrow> lc_mem st' a = lc_mem st a)
    \<and> (\<forall>new. new \<noteq> 0 \<longrightarrow> realloc p new st' = preturn (p, st'))"
proof -
  have n: "num * sz = of_nat n" "n < 2 ^ 32"
    using assms(3) by (simp_all add: word_unat_eq_iff unat_word_ariths unat_of_nat)
  obtain p h' k ys where al: "kmalloc (of_nat n) (lc_heap st) = Some (Inr (of_nat p, h'))" "p < 2 ^ 32"
    and h': "heap_rep h' ys" "n \<le> k" "set (live_l HEAP_BASE ys) = insert (p, k) (set (live_l HEAP_BASE xs))"
      "(p, k) \<notin> set (live_l HEAP_BASE xs)"
    using kmalloc_room [OF assms(1,2,4)] by metis
  have "(p, k) \<in> set (live_l HEAP_BASE ys)" using h'(3) by simp
  from live_l_bounds [OF this] al(2) have nz: "(of_nat p :: u32) \<noteq> 0"
    using of_nat_u32_inject [of p 0] by (simp add: HEAP_BASE_def)
  let ?st = "st\<lparr>lc_heap := h', lc_mem := fst (memset (lc_mem st) (of_nat p) 0 (of_nat n))\<rparr>"
  have run: "calloc num sz st = Some (Inr (of_nat p, ?st))"
    using al(1) nz by (simp add: calloc_def malloc_def n(1) preturn_def)
  have m: "lc_mem ?st = overlay (lc_mem st) (of_nat p) n (\<lambda>_. 0)"
    using n(2) by (simp add: memset_overlay unat_of_nat_u32)
  have "bytes_at (lc_mem ?st) (of_nat p) n = replicate n 0"
    using n(2) unfolding m by (simp add: bytes_at_overlay map_replicate_const)
  moreover have "\<forall>a. a \<notin> region (of_nat p) n \<longrightarrow> lc_mem ?st a = lc_mem st a"
    using n(2) unfolding m by (simp add: overlay_miss)
  moreover have "\<forall>new. new \<noteq> 0 \<longrightarrow> realloc (of_nat p) new ?st = preturn (of_nat p, ?st)"
    using nz by (simp add: realloc_def)
  ultimately show ?thesis
    using run h' al(2) by (intro exI [of _ "of_nat p"] exI [of _ ?st] exI [of _ k] exI [of _ ys])
      (simp add: unat_of_nat_u32)
qed

theorem calloc_zeroed_witness:
  "\<forall>m. \<exists>p st'. calloc 0x10000 0x10001 (libc_boot heap0 m) = Some (Inr (p, st'))
     \<and> bytes_at (lc_mem st') p 0x10000 = replicate 0x10000 0"
proof
  fix m
  let ?st = "libc_boot heap0 m"
  have rep: "heap_rep (lc_heap ?st) fresh_blocks" and room: "has_room 0x10000 (lc_heap ?st)"
    using heap0_rep(1) boot_room [of "0x10000"] by (simp_all add: libc_boot_def heap0_def)
  from calloc_zeroed [OF rep heap0_rep(2) _ room, of "0x10000" "0x10001"]
  show "\<exists>p st'. calloc 0x10000 0x10001 ?st = Some (Inr (p, st'))
     \<and> bytes_at (lc_mem st') p 0x10000 = replicate 0x10000 0"
    by simp blast
qed

end
