(* ===== verification/Syscall.thy ===== *)
theory Syscall
  imports Timer Keyboard Vfs
begin

text \<open>
  System calls, \<open>arch/x86_64/syscall.c\<close>: the calls, their dispatch on the number in \<open>eax\<close>, and
  \<open>syscall_init\<close>. The state is that of the components a call reaches; the file system's heap
  and memory are those of the tasks' memory manager.
\<close>

subsection \<open>State\<close>

definition SYS_EXIT :: u32 where "SYS_EXIT = 1"
definition SYS_FORK :: u32 where "SYS_FORK = 2"
definition SYS_READ :: u32 where "SYS_READ = 3"
definition SYS_WRITE :: u32 where "SYS_WRITE = 4"
definition SYS_OPEN :: u32 where "SYS_OPEN = 5"
definition SYS_CLOSE :: u32 where "SYS_CLOSE = 6"
definition SYS_UNLINK :: u32 where "SYS_UNLINK = 10"
definition SYS_TIME :: u32 where "SYS_TIME = 13"
definition SYS_GETPID :: u32 where "SYS_GETPID = 20"
definition SYS_KILL :: u32 where "SYS_KILL = 37"
definition SYS_MKDIR :: u32 where "SYS_MKDIR = 39"
definition SYS_BRK :: u32 where "SYS_BRK = 45"

lemmas sys_numbers = SYS_EXIT_def SYS_FORK_def SYS_READ_def SYS_WRITE_def SYS_OPEN_def SYS_CLOSE_def
  SYS_UNLINK_def SYS_TIME_def SYS_GETPID_def SYS_KILL_def SYS_MKDIR_def SYS_BRK_def

record 'h sys =
  sy_tasks :: "'h tasks"
  sy_vfs :: vfs
  sy_vga :: vga

definition sys_mem :: "'h sys \<Rightarrow> mem" where
  "sys_mem s = fr_mem (mm_frames (tk_mm (sy_tasks s)))"

text \<open>The file system with the memory and the heap of the whole kernel.\<close>

definition sys_fs :: "'h sys \<Rightarrow> vfs" where
  "sys_fs s = (sy_vfs s)\<lparr>fs_heap := mm_heap (tk_mm (sy_tasks s)), fs_mem := sys_mem s\<rparr>"

subsection \<open>The calls\<close>

fun put_loop :: "mem \<Rightarrow> ptr \<Rightarrow> nat list \<Rightarrow> vga \<Rightarrow> vga" where
  "put_loop m buf [] v = v"
| "put_loop m buf (i # is) v = put_loop m buf is (vga_putchar (m (buf + of_nat i)) v)"

definition sys_write :: "u32 \<Rightarrow> ptr \<Rightarrow> u32 \<Rightarrow> 'h sys \<Rightarrow> u32 \<times> 'h sys" where
  "sys_write fd buf len s =
     (if fd = 1 \<or> fd = 2
      then (len, s\<lparr>sy_vga := put_loop (sys_mem s) buf [0..<nat (sint len)] (sy_vga s)\<rparr>)
      else (fs_write (sint fd) 0 len buf (sys_fs s), s))"

definition sys_read :: "u32 \<Rightarrow> ptr \<Rightarrow> u32 \<Rightarrow> 'h sys \<Rightarrow> u32 \<times> 'h sys" where
  "sys_read fd buf len s = (fs_read (sint fd) 0 len buf (sys_fs s), s)"

definition sys_open :: "ptr \<Rightarrow> u32 \<Rightarrow> 'h sys \<Rightarrow> u32 \<times> 'h sys" where
  "sys_open path fl s =
     (case fs_open path fl (sys_fs s) of (r, st) \<Rightarrow> (of_int r, s\<lparr>sy_vfs := st\<rparr>))"

definition sys_close :: "u32 \<Rightarrow> 'h sys \<Rightarrow> u32 \<times> 'h sys" where
  "sys_close fd s =
     (case fs_close (sint fd) (sys_fs s) of (r, st) \<Rightarrow> (of_int r, s\<lparr>sy_vfs := st\<rparr>))"

definition sys_mkdir :: "ptr \<Rightarrow> u32 \<Rightarrow> 'h sys \<Rightarrow> u32 \<times> 'h sys" where
  "sys_mkdir path mode s = (of_int (fs_mkdir path mode), s)"

definition sys_unlink :: "ptr \<Rightarrow> 'h sys \<Rightarrow> u32 \<times> 'h sys" where
  "sys_unlink path s = (of_int (fs_unlink path), s)"

definition sys_getpid :: "'h sys \<Rightarrow> u32 \<times> 'h sys" where
  "sys_getpid s =
     (let task = task_get_current (sy_tasks s)
      in (if task \<noteq> 0 then t_pid (tk_store (sy_tasks s) task) else 0, s))"

definition sys_brk :: "ptr \<Rightarrow> 'h sys \<Rightarrow> u32 \<times> 'h sys" where
  "sys_brk addr s =
     (let task = task_get_current (sy_tasks s)
      in if task = 0 then (0, s)
         else
           let s1 = (if addr \<noteq> 0 then s\<lparr>sy_tasks := upd_task task (\<lambda>t. t\<lparr>t_brk := addr\<rparr>) (sy_tasks s)\<rparr> else s)
           in (t_brk (tk_store (sy_tasks s1) task), s1))"

definition sys_fork :: "ptr \<Rightarrow> 'h sys \<Rightarrow> (u32 \<times> 'h sys) panicking option" where
  "sys_fork dir0 s =
     pbind (task_fork dir0 (sy_tasks s)) (\<lambda>(child, st).
       preturn (if child \<noteq> 0 then t_pid (tk_store st child) else 0, s\<lparr>sy_tasks := st\<rparr>))"

definition sys_exit :: "u32 \<Rightarrow> 'h sys \<Rightarrow> 'h sys panicking option" where
  "sys_exit code s = pbind (task_exit code (sy_tasks s)) (\<lambda>st. preturn (s\<lparr>sy_tasks := st\<rparr>))"

definition sys_time :: "'h sys \<Rightarrow> u32 \<times> 'h sys" where
  "sys_time s = (0, s)"

definition sys_kill :: "u32 \<Rightarrow> u32 \<Rightarrow> 'h sys \<Rightarrow> u32 \<times> 'h sys" where
  "sys_kill pid sig s = (- 1, s)"

text \<open>\<open>dir0\<close> is the uninitialised pointer of \<open>mm_clone_directory\<close>.\<close>

definition syscall_handler ::
    "ptr \<Rightarrow> u32 \<Rightarrow> u32 \<Rightarrow> u32 \<Rightarrow> u32 \<Rightarrow> u32 \<Rightarrow> u32 \<Rightarrow> 'h sys \<Rightarrow> (u32 \<times> 'h sys) panicking option" where
  "syscall_handler dir0 eax ebx ecx edx esi edi s =
     (if eax = SYS_WRITE then preturn (sys_write ebx ecx edx s)
      else if eax = SYS_READ then preturn (sys_read ebx ecx edx s)
      else if eax = SYS_OPEN then preturn (sys_open ebx ecx s)
      else if eax = SYS_CLOSE then preturn (sys_close ebx s)
      else if eax = SYS_MKDIR then preturn (sys_mkdir ebx ecx s)
      else if eax = SYS_UNLINK then preturn (sys_unlink ebx s)
      else if eax = SYS_GETPID then preturn (sys_getpid s)
      else if eax = SYS_BRK then preturn (sys_brk ebx s)
      else if eax = SYS_FORK then sys_fork dir0 s
      else if eax = SYS_EXIT then pbind (sys_exit ebx s) (\<lambda>s1. preturn (0, s1))
      else if eax = SYS_TIME then preturn (sys_time s)
      else if eax = SYS_KILL then preturn (sys_kill ebx ecx s)
      else preturn (- 1, s))"

text \<open>The numbers the header declares.\<close>

definition declared_syscalls :: "(string \<times> u32) list" where
  "declared_syscalls =
     [(''exit'', 1), (''fork'', 2), (''read'', 3), (''write'', 4), (''open'', 5), (''close'', 6), (''waitpid'', 7),
      (''creat'', 8), (''link'', 9), (''unlink'', 10), (''execve'', 11), (''chdir'', 12), (''time'', 13), (''mknod'', 14),
      (''chmod'', 15), (''lchown'', 16), (''brk'', 45), (''getpid'', 20), (''getuid'', 24), (''geteuid'', 49),
      (''getgid'', 47), (''getegid'', 50), (''kill'', 37), (''rename'', 38), (''mkdir'', 39), (''rmdir'', 40),
      (''dup'', 41), (''pipe'', 42), (''ioctl'', 54), (''fcntl'', 55), (''getdents'', 141), (''stat'', 106), (''lseek'', 19)]"

definition syscall_init :: "'h handlers \<Rightarrow> 'h handlers" where
  "syscall_init H = isr_register_handler 0x80 None H"

subsection \<open>What the calls do\<close>

lemma put_loop_bytes: "put_loop m buf is v = put_bytes (map (\<lambda>i. m (buf + of_nat i)) is) v"
  by (induction "is" arbitrary: v) (simp_all add: put_bytes_def)

lemma fs_write_0: "fs_write fd offset sz buffer st = 0" "fs_read fd offset sz buffer st = 0"
  by (simp_all add: fs_write_def fs_read_def)

lemma sys_fs_simps [simp]: "fs_root_node (sys_fs s) = fs_root_node (sy_vfs s)"
  "fd_table (sys_fs s) = fd_table (sy_vfs s)" "fs_mem (sys_fs s) = sys_mem s"
  by (simp_all add: sys_fs_def)

lemma sys_fs_fds [simp]: "free_fds (sys_fs s) = free_fds (sy_vfs s)" "open_fds (sys_fs s) = open_fds (sy_vfs s)"
  by (simp_all add: free_fds_def open_fds_def)

text \<open>The handlers that boot installs, before \<open>syscall_init\<close> takes the entry of \<open>int 0x80\<close>.\<close>

definition boot_handlers :: "'h \<Rightarrow> 'h \<Rightarrow> 'h handlers \<Rightarrow> 'h handlers" where
  "boot_handlers timer_h kbd_h H =
     syscall_init (keyboard_init kbd_h (irq_install_handler 0 (Some timer_h) (isr_init H)))"

lemma boot_handlers_eq: "boot_handlers t k H = (\<lambda>_. None)(32 := Some t, 33 := Some k)"
  by (auto simp: boot_handlers_def syscall_init_def isr_register_handler_def keyboard_init_def
    irq_install_handler_def isr_init_def)

subsection \<open>Properties\<close>

text \<open>C13. After boot \<open>syscall_handler\<close> cannot be reached: \<open>int 0x80\<close> finds no handler, and because
  the dispatcher takes \<open>edx\<close> for the interrupt number, it runs the timer handler when the caller
  has 32 in \<open>edx\<close>, the keyboard handler when it has 33, reads past the handler table for 256 or
  more, and does nothing otherwise, whatever system call number is in \<open>eax\<close>.\<close>

theorem int80_never_syscall:
  "\<exists>r. registers_of (take 16 (isr128 c st)) = Some r \<and>
    isr_handler r (boot_handlers timer_h kbd_h H) =
      (if c_edx c = 32 then Call timer_h r else if c_edx c = 33 then Call kbd_h r
       else if c_edx c < 256 then Idle else Wild)"
proof -
  have u: "unat (ucast (c_edx c) :: u8) = unat (c_edx c)" if "c_edx c < 256"
    using that by (simp add: word_less_nat_alt unsigned_ucast_eq take_bit_eq_mod)
  have "(ucast (c_edx c) :: u8) = 32 \<longleftrightarrow> c_edx c = 32" "(ucast (c_edx c) :: u8) = 33 \<longleftrightarrow> c_edx c = 33"
    if "c_edx c < 256"
    using u [OF that] by (simp_all add: word_unat_eq_iff)
  then show ?thesis
    by (auto simp: isr128_def common_stub_def push_segments_def pusha_def push_byte_def cpu_pushes_def
      isr_handler_def boot_handlers_eq word_less_nat_alt)
qed

text \<open>\<open>write\<close> to descriptors 1 and 2 puts exactly \<open>len\<close> bytes from memory on the screen (none
  for a negative \<open>len\<close>) and returns \<open>len\<close>; every other descriptor writes and reads nothing and
  returns 0, open or not.\<close>

theorem sys_write_screen:
  "syscall_handler dir0 4 fd buf len esi edi s =
     (if fd = 1 \<or> fd = 2
      then Some (Inr (len, s\<lparr>sy_vga := put_bytes (bytes_at (sys_mem s) buf (nat (sint len))) (sy_vga s)\<rparr>))
      else Some (Inr (0, s)))
   \<and> syscall_handler dir0 3 fd buf len esi edi s = Some (Inr (0, s))"
  by (simp add: syscall_handler_def sys_numbers sys_write_def sys_read_def preturn_def put_loop_bytes
    bytes_at_def fs_write_0)

text \<open>C32. A call changes only what it is for: the screen only \<open>write\<close>, the descriptors only
  \<open>open\<close> and \<open>close\<close>, the tasks only \<open>fork\<close>, \<open>exit\<close> and \<open>brk\<close>; an unknown number returns -1 and
  changes nothing, and no call but \<open>fork\<close> and \<open>exit\<close> can panic or fail to return.\<close>

theorem syscall_frame:
  "(\<forall>r s'. syscall_handler dir0 eax ebx ecx edx esi edi s = Some (Inr (r, s')) \<longrightarrow>
      (sy_vga s' \<noteq> sy_vga s \<longrightarrow> eax = 4 \<and> (ebx = 1 \<or> ebx = 2))
    \<and> (fd_table (sy_vfs s') \<noteq> fd_table (sy_vfs s) \<longrightarrow> eax \<in> {5, 6})
    \<and> (sy_tasks s' \<noteq> sy_tasks s \<longrightarrow> eax \<in> {1, 2, 45}))
   \<and> (eax \<notin> {1, 2, 3, 4, 5, 6, 10, 13, 20, 37, 39, 45} \<longrightarrow>
        syscall_handler dir0 eax ebx ecx edx esi edi s = Some (Inr (- 1, s)))
   \<and> (eax \<notin> {1, 2} \<longrightarrow> (\<exists>r s'. syscall_handler dir0 eax ebx ecx edx esi edi s = Some (Inr (r, s'))))"
proof (intro conjI allI impI)
  fix r s'
  assume run: "syscall_handler dir0 eax ebx ecx edx esi edi s = Some (Inr (r, s'))"
  show "eax = 4" "ebx = 1 \<or> ebx = 2" if "sy_vga s' \<noteq> sy_vga s"
    using run that by (auto simp: syscall_handler_def sys_numbers preturn_def pbind_Inr sys_write_def sys_read_def
      sys_open_def sys_close_def sys_mkdir_def sys_unlink_def sys_getpid_def sys_brk_def sys_fork_def sys_exit_def
      sys_time_def sys_kill_def Let_def split: if_splits prod.splits)
  show "eax \<in> {5, 6}" if "fd_table (sy_vfs s') \<noteq> fd_table (sy_vfs s)"
    using run that by (auto simp: syscall_handler_def sys_numbers preturn_def pbind_Inr sys_write_def sys_read_def
      sys_mkdir_def sys_unlink_def sys_getpid_def sys_brk_def sys_fork_def sys_exit_def
      sys_time_def sys_kill_def Let_def split: if_splits prod.splits)
  show "eax \<in> {1, 2, 45}" if "sy_tasks s' \<noteq> sy_tasks s"
    using run that by (auto simp: syscall_handler_def sys_numbers preturn_def sys_write_def sys_read_def
      sys_open_def sys_close_def sys_mkdir_def sys_unlink_def sys_getpid_def
      sys_time_def sys_kill_def Let_def split: if_splits prod.splits)
qed (auto simp: syscall_handler_def sys_numbers preturn_def)

theorem syscall_frame_witness:
  "\<forall>dir0 (s :: 'h sys). syscall_handler dir0 7 0 0 0 0 0 s = Some (Inr (- 1, s))"
proof (intro allI)
  fix dir0 and s :: "'h sys"
  show "syscall_handler dir0 7 0 0 0 0 0 s = Some (Inr (- 1, s))"
    using syscall_frame [of dir0 7 0 0 0 0 0 s] by simp
qed

text \<open>Of the 33 calls the header declares, 21 are not served: they return -1 and do nothing.\<close>

theorem declared_not_served:
  "list_all (\<lambda>(name, n). syscall_handler dir0 n ebx ecx edx esi edi s = Some (Inr (- 1, s)))
     (filter (\<lambda>(name, n). n \<notin> {1, 2, 3, 4, 5, 6, 10, 13, 20, 37, 39, 45}) declared_syscalls)
   \<and> length (filter (\<lambda>(name, n). n \<notin> {1, 2, 3, 4, 5, 6, 10, 13, 20, 37, 39, 45}) declared_syscalls) = 21"
  by (simp add: declared_syscalls_def syscall_handler_def sys_numbers preturn_def)

end
