(* ===== verification/Ata.thy ===== *)
theory Ata
  imports Ports CString
begin

text \<open>
  The disk driver, \<open>drivers/ata.c\<close>: identification, and reading and writing one sector by
  programmed input and output. The disk is the device of theory \<open>Ports\<close>; every wait of the
  driver is a loop on its status port that may not end, \<open>None\<close>.
\<close>

subsection \<open>Operations\<close>

definition ATA_PRIMARY_DATA :: u16 where "ATA_PRIMARY_DATA = 0x1F0"
definition ATA_PRIMARY_SECTORS :: u16 where "ATA_PRIMARY_SECTORS = 0x1F2"
definition ATA_PRIMARY_LBA_LO :: u16 where "ATA_PRIMARY_LBA_LO = 0x1F3"
definition ATA_PRIMARY_LBA_MID :: u16 where "ATA_PRIMARY_LBA_MID = 0x1F4"
definition ATA_PRIMARY_LBA_HI :: u16 where "ATA_PRIMARY_LBA_HI = 0x1F5"
definition ATA_PRIMARY_DRIVE :: u16 where "ATA_PRIMARY_DRIVE = 0x1F6"
definition ATA_PRIMARY_COMMAND :: u16 where "ATA_PRIMARY_COMMAND = 0x1F7"
definition ATA_PRIMARY_STATUS :: u16 where "ATA_PRIMARY_STATUS = 0x1F7"
definition ATA_CMD_READ :: u8 where "ATA_CMD_READ = 0x20"
definition ATA_CMD_WRITE :: u8 where "ATA_CMD_WRITE = 0x30"
definition ATA_CMD_IDENTIFY :: u8 where "ATA_CMD_IDENTIFY = 0xEC"

lemmas ata_consts = ATA_PRIMARY_DATA_def ATA_PRIMARY_SECTORS_def ATA_PRIMARY_LBA_LO_def
  ATA_PRIMARY_LBA_MID_def ATA_PRIMARY_LBA_HI_def ATA_PRIMARY_DRIVE_def ATA_PRIMARY_COMMAND_def
  ATA_PRIMARY_STATUS_def ATA_CMD_READ_def ATA_CMD_WRITE_def ATA_CMD_IDENTIFY_def

text \<open>The state: \<open>ata_drive_present\<close>, the memory of the caller's buffer, the accesses so far.\<close>

record ata =
  ata_drive_present :: bool
  ata_mem :: mem
  ata_trace :: trace

definition upd_trace :: "(trace \<Rightarrow> trace) \<Rightarrow> ata \<Rightarrow> ata" where
  "upd_trace f st = st\<lparr>ata_trace := f (ata_trace st)\<rparr>"

text \<open>
  The wait while BSY is set, from a status already read. The result says whether it ended with
  the error bit, seen in a status with BSY set.
\<close>

partial_function (option) wait_busy_err :: "device \<Rightarrow> u8 \<Rightarrow> trace \<Rightarrow> (bool \<times> u8 \<times> trace) option" where
  "wait_busy_err dev status tr =
     (if status AND 0x80 \<noteq> 0
      then if status AND 0x01 \<noteq> 0 then Some (True, status, tr)
           else wait_busy_err dev (fst (inb dev ATA_PRIMARY_STATUS tr)) (snd (inb dev ATA_PRIMARY_STATUS tr))
      else Some (False, status, tr))"

partial_function (option) wait_drq :: "device \<Rightarrow> u8 \<Rightarrow> trace \<Rightarrow> trace option" where
  "wait_drq dev status tr =
     (if status AND 0x08 = 0
      then wait_drq dev (fst (inb dev ATA_PRIMARY_STATUS tr)) (snd (inb dev ATA_PRIMARY_STATUS tr))
      else Some tr)"

partial_function (option) wait_ready :: "device \<Rightarrow> trace \<Rightarrow> trace option" where
  "wait_ready dev tr =
     (if fst (inb dev ATA_PRIMARY_STATUS tr) AND 0x80 \<noteq> 0
      then wait_ready dev (snd (inb dev ATA_PRIMARY_STATUS tr))
      else Some (snd (inb dev ATA_PRIMARY_STATUS tr)))"

definition identify :: "trace \<Rightarrow> trace" where
  "identify tr = outb ATA_PRIMARY_COMMAND ATA_CMD_IDENTIFY (outb ATA_PRIMARY_LBA_HI 0
     (outb ATA_PRIMARY_LBA_MID 0 (outb ATA_PRIMARY_LBA_LO 0 (outb ATA_PRIMARY_SECTORS 0
     (outb ATA_PRIMARY_DRIVE 0xA0 tr)))))"

definition ata_init :: "device \<Rightarrow> ata \<Rightarrow> (int \<times> ata) option" where
  "ata_init dev st =
     (case inb dev ATA_PRIMARY_STATUS (identify (ata_trace st)) of (status, tr) \<Rightarrow>
        if status = 0 then Some (-1, st\<lparr>ata_drive_present := False, ata_trace := tr\<rparr>)
        else (case wait_busy_err dev status tr of
                None \<Rightarrow> None
              | Some (err, status1, tr1) \<Rightarrow>
                  if err then Some (-1, st\<lparr>ata_drive_present := False, ata_trace := tr1\<rparr>)
                  else map_option (\<lambda>tr2. (0, st\<lparr>ata_drive_present := True, ata_trace := tr2\<rparr>))
                         (wait_drq dev status1 tr1)))"

text \<open>The address of a sector and the command, as both transfers issue them.\<close>

definition select_sector :: "u32 \<Rightarrow> u8 \<Rightarrow> trace \<Rightarrow> trace" where
  "select_sector lba cmd tr =
     (let tr1 = outb ATA_PRIMARY_DRIVE (ucast (0xE0 OR (drop_bit 24 lba AND 0x0F))) tr;
          tr2 = outb ATA_PRIMARY_SECTORS 1 tr1;
          tr3 = outb ATA_PRIMARY_LBA_LO (ucast (lba AND 0xFF)) tr2;
          tr4 = outb ATA_PRIMARY_LBA_MID (ucast (drop_bit 8 lba AND 0xFF)) tr3;
          tr5 = outb ATA_PRIMARY_LBA_HI (ucast (drop_bit 16 lba AND 0xFF)) tr4
      in outb ATA_PRIMARY_COMMAND cmd tr5)"

definition put_data :: "ptr \<Rightarrow> nat \<Rightarrow> u16 \<Rightarrow> mem \<Rightarrow> mem" where
  "put_data buffer i data m =
     (let m1 = m(buffer + of_nat (i * 2) := ucast (data AND 0xFF))
      in m1(buffer + of_nat (i * 2 + 1) := ucast (drop_bit 8 data AND 0xFF)))"

fun read_words :: "device \<Rightarrow> ptr \<Rightarrow> nat list \<Rightarrow> mem \<times> trace \<Rightarrow> mem \<times> trace" where
  "read_words dev buffer [] (m, tr) = (m, tr)"
| "read_words dev buffer (i # is) (m, tr) =
     (case inw dev ATA_PRIMARY_DATA tr of (data, tr1) \<Rightarrow> read_words dev buffer is (put_data buffer i data m, tr1))"

definition ata_read_sector :: "device \<Rightarrow> u32 \<Rightarrow> ptr \<Rightarrow> ata \<Rightarrow> (int \<times> ata) option" where
  "ata_read_sector dev lba buffer st =
     (if \<not> ata_drive_present st then Some (-1, st)
      else (case wait_ready dev (ata_trace st) of
              None \<Rightarrow> None
            | Some tr \<Rightarrow>
                (case inb dev ATA_PRIMARY_STATUS (select_sector lba ATA_CMD_READ tr) of (status, tr1) \<Rightarrow>
                   (case wait_busy_err dev status tr1 of
                      None \<Rightarrow> None
                    | Some (err, _, tr2) \<Rightarrow>
                        if err then Some (-1, st\<lparr>ata_trace := tr2\<rparr>)
                        else (case read_words dev buffer [0..<256] (ata_mem st, tr2) of (m, tr3) \<Rightarrow>
                                Some (0, st\<lparr>ata_mem := m, ata_trace := tr3\<rparr>))))))"

text \<open>A byte is promoted to \<open>int\<close> before the shift, and the result is cut to 16 bits.\<close>

definition data_word :: "mem \<Rightarrow> ptr \<Rightarrow> nat \<Rightarrow> u16" where
  "data_word m buffer i =
     ucast ((ucast (m (buffer + of_nat (i * 2))) :: u32) OR push_bit 8 (ucast (m (buffer + of_nat (i * 2 + 1)))))"

fun write_words :: "mem \<Rightarrow> ptr \<Rightarrow> nat list \<Rightarrow> trace \<Rightarrow> trace" where
  "write_words m buffer [] tr = tr"
| "write_words m buffer (i # is) tr =
     write_words m buffer is (outw ATA_PRIMARY_DATA (data_word m buffer i) tr)"

definition ata_write_sector :: "device \<Rightarrow> u32 \<Rightarrow> ptr \<Rightarrow> ata \<Rightarrow> (int \<times> ata) option" where
  "ata_write_sector dev lba buffer st =
     (if \<not> ata_drive_present st then Some (-1, st)
      else (case wait_ready dev (ata_trace st) of
              None \<Rightarrow> None
            | Some tr \<Rightarrow>
                (case inb dev ATA_PRIMARY_STATUS
                   (write_words (ata_mem st) buffer [0..<256] (select_sector lba ATA_CMD_WRITE tr)) of (status, tr1) \<Rightarrow>
                   (case wait_busy_err dev status tr1 of
                      None \<Rightarrow> None
                    | Some (err, _, tr2) \<Rightarrow> Some (if err then -1 else 0, st\<lparr>ata_trace := tr2\<rparr>)))))"

definition ata_is_present :: "ata \<Rightarrow> bool" where
  "ata_is_present st = ata_drive_present st"

subsection \<open>What the loops compute\<close>

text \<open>Byte \<open>j\<close> of a sector given as words, low byte first.\<close>

definition sector_byte :: "(nat \<Rightarrow> u16) \<Rightarrow> nat \<Rightarrow> u8" where
  "sector_byte w j = (if even j then ucast (w (j div 2)) else ucast (drop_bit 8 (w (j div 2))))"

lemma byte_of_word: "(ucast (w AND 0xFF :: u16) :: u8) = ucast w"
proof -
  have "(0xFF :: u16) = mask 8" by (simp add: mask_eq_exp_minus_1)
  then show ?thesis unfolding \<open>_ = mask 8\<close> by (intro bit_word_eqI) (auto simp: bit_simps)
qed

lemma data_word_bytes: "(ucast (data_word m b i) :: u8) = m (b + of_nat (i * 2))"
  "(ucast (drop_bit 8 (data_word m b i)) :: u8) = m (b + of_nat (i * 2 + 1))"
  unfolding data_word_def
  by (rule bit_word_eqI; auto simp: bit_simps dest: bit_imp_le_length)+

lemma sector_byte_data: "sector_byte (data_word m b) j = m (b + of_nat j)"
proof (cases "even j")
  case True
  then have "j div 2 * 2 = j" by simp
  then show ?thesis using True data_word_bytes(1) [of m b "j div 2"] by (simp add: sector_byte_def)
next
  case False
  then have "j div 2 * 2 + 1 = j" by presburger
  then show ?thesis using False data_word_bytes(2) [of m b "j div 2"] by (simp only: sector_byte_def if_False)
qed

lemma put_words_overlay:
  "2 * n < 2 ^ 32 \<Longrightarrow> fold (\<lambda>i. put_data b i (w i)) [0..<n] m = overlay m b (2 * n) (sector_byte w)"
proof (induction n)
  case 0
  then show ?case by simp
next
  case (Suc n)
  let ?f = "sector_byte w"
  have f: "?f (2 * n) = ucast (w n)" "?f (Suc (2 * n)) = ucast (drop_bit 8 (w n))"
    by (simp_all add: sector_byte_def)
  have "put_data b n (w n) (overlay m b (2 * n) ?f) = overlay m b (Suc (Suc (2 * n))) ?f"
    using overlay_Suc [of "2 * n" m b ?f] overlay_Suc [of "Suc (2 * n)" m b ?f] Suc.prems
    by (simp only: put_data_def Let_def byte_of_word f mult.commute [of n 2] Suc_eq_plus1 [symmetric]) simp
  with Suc show ?case by simp
qed

text \<open>The device answers the reads of the data port after \<open>tr\<close> with the words \<open>w\<close>.\<close>

definition serves :: "device \<Rightarrow> trace \<Rightarrow> (nat \<Rightarrow> u16) \<Rightarrow> bool" where
  "serves dev tr w \<longleftrightarrow> (\<forall>i < 256. dev (tr @ map (\<lambda>j. In16 ATA_PRIMARY_DATA (w j)) [0..<i]) ATA_PRIMARY_DATA = w i)"

lemma read_words_serves:
  assumes "serves dev tr w" and "k \<le> 256"
  shows "read_words dev b [k..<256] (m, tr @ map (\<lambda>j. In16 ATA_PRIMARY_DATA (w j)) [0..<k])
    = (fold (\<lambda>i. put_data b i (w i)) [k..<256] m, tr @ map (\<lambda>j. In16 ATA_PRIMARY_DATA (w j)) [0..<256])"
  using assms(2)
proof (induction arbitrary: m rule: inc_induct)
  case base
  then show ?case by simp
next
  case (step k)
  have "dev (tr @ map (\<lambda>j. In16 ATA_PRIMARY_DATA (w j)) [0..<k]) ATA_PRIMARY_DATA = w k"
    using assms(1) step.hyps by (simp add: serves_def)
  then show ?case using step.IH [of "put_data b k (w k) m"] step.hyps
    by (simp add: upt_conv_Cons [of k 256] inw_def Let_def)
qed

lemma write_words_eq:
  "write_words m b is tr = tr @ map (\<lambda>i. Out16 ATA_PRIMARY_DATA (data_word m b i)) is"
  by (induction "is" arbitrary: tr) (simp_all add: outw_def)

text \<open>The sector address a device decodes from the last values of its four address registers.\<close>

definition last_out :: "u16 \<Rightarrow> trace \<Rightarrow> u8" where
  "last_out port tr = fold (\<lambda>a r. case a of Out8 p v \<Rightarrow> if p = port then v else r | _ \<Rightarrow> r) tr 0"

definition lba_of :: "trace \<Rightarrow> u32" where
  "lba_of tr = ucast (last_out ATA_PRIMARY_LBA_LO tr) OR push_bit 8 (ucast (last_out ATA_PRIMARY_LBA_MID tr))
     OR push_bit 16 (ucast (last_out ATA_PRIMARY_LBA_HI tr))
     OR push_bit 24 (ucast (last_out ATA_PRIMARY_DRIVE tr) AND 0x0F)"

lemma select_sector_append: "select_sector lba cmd tr = tr @ select_sector lba cmd []"
  by (simp add: select_sector_def outb_def Let_def)

lemma low_bits: "(x AND 0xFF :: u32) = take_bit 8 x" "(x AND 0x0F :: u32) = take_bit 4 x"
  "(x AND 0x0FFFFFFF :: u32) = take_bit 28 x"
proof -
  have "(0xFF :: u32) = mask 8" "(0x0F :: u32) = mask 4" "(0x0FFFFFFF :: u32) = mask 28"
    by (simp_all add: mask_eq_exp_minus_1)
  then show "x AND 0xFF = take_bit 8 x" "x AND 0x0F = take_bit 4 x" "x AND 0x0FFFFFFF = take_bit 28 x"
    by (simp_all add: take_bit_eq_mask)
qed

lemma E0_low: "\<not> bit (0xE0 :: u32) 0" "\<not> bit (0xE0 :: u32) 1" "\<not> bit (0xE0 :: u32) 2" "\<not> bit (0xE0 :: u32) 3"
  by simp_all

lemma less_4_cases: "(n :: nat) < 4 \<Longrightarrow> n = 0 \<or> n = 1 \<or> n = 2 \<or> n = 3"
  by auto

lemma lba_of_select: "lba_of (select_sector lba cmd []) = lba AND 0x0FFFFFFF"
proof -
  have drive: "take_bit 4 (ucast (ucast (0xE0 OR take_bit 4 (drop_bit 24 lba)) :: u8)) = take_bit 4 (drop_bit 24 lba)"
    by (rule bit_word_eqI) (use E0_low in \<open>auto simp: bit_simps dest!: less_4_cases\<close>)
  have "lba_of (select_sector lba cmd []) = ucast (ucast (take_bit 8 lba) :: u8)
      OR push_bit 8 (ucast (ucast (take_bit 8 (drop_bit 8 lba)) :: u8))
      OR push_bit 16 (ucast (ucast (take_bit 8 (drop_bit 16 lba)) :: u8))
      OR push_bit 24 (take_bit 4 (drop_bit 24 lba))"
    by (simp add: lba_of_def last_out_def select_sector_def outb_def ata_consts Let_def low_bits drive)
  also have "\<dots> = take_bit 28 lba"
  proof (rule bit_word_eqI)
    fix n
    assume "n < LENGTH(32)"
    consider "n < 8" | "8 \<le> n" "n < 16" | "16 \<le> n" "n < 24" | "24 \<le> n" by linarith
    then show "bit (ucast (ucast (take_bit 8 lba) :: u8)
        OR push_bit 8 (ucast (ucast (take_bit 8 (drop_bit 8 lba)) :: u8))
        OR push_bit 16 (ucast (ucast (take_bit 8 (drop_bit 16 lba)) :: u8))
        OR push_bit 24 (take_bit 4 (drop_bit 24 lba)) :: u32) n \<longleftrightarrow> bit (take_bit 28 lba) n"
      by cases (auto simp: bit_simps)
  qed
  finally show ?thesis by (simp add: low_bits)
qed

text \<open>Waits append status reads only.\<close>

definition status_reads :: "trace \<Rightarrow> bool" where
  "status_reads tr \<longleftrightarrow> (\<forall>a \<in> set tr. \<exists>v. a = In8 ATA_PRIMARY_STATUS v)"

lemma inb_trace: "snd (inb dev port tr) = tr @ [In8 port (fst (inb dev port tr))]"
  by (simp add: inb_def Let_def)

lemma wait_ready_trace:
  assumes "wait_ready dev tr = Some tr'"
  shows "\<exists>post. tr' = tr @ post \<and> status_reads post"
proof (rule wait_ready.raw_induct [where P = "\<lambda>dev tr tr'. \<exists>post. tr' = tr @ post \<and> status_reads post", OF _ assms])
  fix f dev tr tr'
  assume IH: "\<And>dev tr tr'. f dev tr = Some tr' \<Longrightarrow> \<exists>post. tr' = tr @ post \<and> status_reads post"
    and eq: "(if fst (inb dev ATA_PRIMARY_STATUS tr) AND 0x80 \<noteq> 0 then f dev (snd (inb dev ATA_PRIMARY_STATUS tr))
      else Some (snd (inb dev ATA_PRIMARY_STATUS tr))) = Some tr'"
  show "\<exists>post. tr' = tr @ post \<and> status_reads post"
  proof (cases "fst (inb dev ATA_PRIMARY_STATUS tr) AND 0x80 = 0")
    case True
    then show ?thesis using eq by (auto simp: inb_trace status_reads_def)
  next
    case False
    then have "f dev (snd (inb dev ATA_PRIMARY_STATUS tr)) = Some tr'" using eq by simp
    from IH [OF this] obtain post where "tr' = snd (inb dev ATA_PRIMARY_STATUS tr) @ post" "status_reads post" by blast
    then show ?thesis by (auto simp: inb_trace status_reads_def)
  qed
qed

lemma wait_busy_err_trace:
  assumes "wait_busy_err dev status tr = Some r"
  shows "\<exists>post. snd (snd r) = tr @ post \<and> status_reads post"
proof (rule wait_busy_err.raw_induct [where P = "\<lambda>dev status tr r. \<exists>post. snd (snd r) = tr @ post \<and> status_reads post", OF _ assms])
  fix f dev status tr r
  assume IH: "\<And>dev status tr r. f dev status tr = Some r \<Longrightarrow> \<exists>post. snd (snd r) = tr @ post \<and> status_reads post"
    and eq: "(if status AND 0x80 \<noteq> 0 then if status AND 0x01 \<noteq> 0 then Some (True, status, tr)
        else f dev (fst (inb dev ATA_PRIMARY_STATUS tr)) (snd (inb dev ATA_PRIMARY_STATUS tr))
      else Some (False, status, tr)) = Some r"
  show "\<exists>post. snd (snd r) = tr @ post \<and> status_reads post"
  proof (cases "status AND 0x80 \<noteq> 0 \<and> status AND 0x01 = 0")
    case True
    then have "f dev (fst (inb dev ATA_PRIMARY_STATUS tr)) (snd (inb dev ATA_PRIMARY_STATUS tr)) = Some r"
      using eq by simp
    from IH [OF this] obtain post
      where "snd (snd r) = snd (inb dev ATA_PRIMARY_STATUS tr) @ post" "status_reads post" by blast
    then show ?thesis by (auto simp: inb_trace status_reads_def)
  next
    case False
    then have "snd (snd r) = tr" using eq by (auto split: if_splits)
    then show ?thesis by (simp add: status_reads_def)
  qed
qed

text \<open>A drive that never asks for data keeps the last wait of \<open>ata_init\<close> going for ever.\<close>

lemma wait_drq_never:
  assumes "status AND 0x08 = 0" and "\<And>tr. fst (inb dev ATA_PRIMARY_STATUS tr) AND 0x08 = 0"
  shows "wait_drq dev status tr = None"
proof (cases "wait_drq dev status tr")
  case (Some r)
  have "\<not> (status AND 0x08 = 0 \<and> (\<forall>tr. fst (inb dev ATA_PRIMARY_STATUS tr) AND 0x08 = 0))"
  proof (rule wait_drq.raw_induct [where P = "\<lambda>dev status tr r.
      \<not> (status AND 0x08 = 0 \<and> (\<forall>tr. fst (inb dev ATA_PRIMARY_STATUS tr) AND 0x08 = 0))", OF _ Some])
    fix f dev status tr r
    assume IH: "\<And>dev status tr r. f dev status tr = Some r \<Longrightarrow>
        \<not> (status AND 0x08 = 0 \<and> (\<forall>tr. fst (inb dev ATA_PRIMARY_STATUS tr) AND 0x08 = 0))"
      and eq: "(if status AND 0x08 = 0 then f dev (fst (inb dev ATA_PRIMARY_STATUS tr)) (snd (inb dev ATA_PRIMARY_STATUS tr))
        else Some tr) = Some r"
    show "\<not> (status AND 0x08 = 0 \<and> (\<forall>tr. fst (inb dev ATA_PRIMARY_STATUS tr) AND 0x08 = 0))"
    proof
      assume never: "status AND 0x08 = 0 \<and> (\<forall>tr. fst (inb dev ATA_PRIMARY_STATUS tr) AND 0x08 = 0)"
      then have "f dev (fst (inb dev ATA_PRIMARY_STATUS tr)) (snd (inb dev ATA_PRIMARY_STATUS tr)) = Some r"
        using eq by simp
      from IH [OF this] never show False by blast
    qed
  qed
  with assms show ?thesis by blast
qed simp

lemma wait_ready_now: "fst (inb dev ATA_PRIMARY_STATUS tr) AND 0x80 = 0 \<Longrightarrow>
    wait_ready dev tr = Some (snd (inb dev ATA_PRIMARY_STATUS tr))"
  by (subst wait_ready.simps) simp

lemma wait_busy_now: "status AND 0x80 = 0 \<Longrightarrow> wait_busy_err dev status tr = Some (False, status, tr)"
  by (subst wait_busy_err.simps) simp

lemma ata_write_trace:
  assumes "ata_write_sector dev lba b st = Some (0, st1)"
  obtains pre post where "ata_trace st1 = ata_trace st @ pre @ select_sector lba ATA_CMD_WRITE []
      @ map (\<lambda>i. Out16 ATA_PRIMARY_DATA (data_word (ata_mem st) b i)) [0..<256] @ post"
    and "status_reads pre" and "status_reads post" and "ata_mem st1 = ata_mem st"
proof -
  obtain tr where tr: "wait_ready dev (ata_trace st) = Some tr"
    using assms by (auto simp: ata_write_sector_def split: if_splits option.splits)
  let ?x = "inb dev ATA_PRIMARY_STATUS (write_words (ata_mem st) b [0..<256] (select_sector lba ATA_CMD_WRITE tr))"
  obtain r where r: "wait_busy_err dev (fst ?x) (snd ?x) = Some r" "st1 = st\<lparr>ata_trace := snd (snd r)\<rparr>"
    using assms tr by (auto simp: ata_write_sector_def case_prod_beta split: if_splits option.splits)
  obtain pre where pre: "tr = ata_trace st @ pre" "status_reads pre" using wait_ready_trace [OF tr] by blast
  obtain post where "snd (snd r) = snd ?x @ post" "status_reads post" using wait_busy_err_trace [OF r(1)] by blast
  then show ?thesis using pre r(2) select_sector_append [of lba ATA_CMD_WRITE tr]
    by (intro that [of pre "In8 ATA_PRIMARY_STATUS (fst ?x) # post"])
      (auto simp: inb_trace write_words_eq status_reads_def)
qed

lemma ata_read_data:
  assumes "ata_drive_present st" and "wait_ready dev (ata_trace st) = Some tr"
    and "wait_busy_err dev (fst (inb dev ATA_PRIMARY_STATUS (select_sector lba ATA_CMD_READ tr)))
      (snd (inb dev ATA_PRIMARY_STATUS (select_sector lba ATA_CMD_READ tr))) = Some (False, status, tr1)"
    and "serves dev tr1 w"
  shows "\<exists>st'. ata_read_sector dev lba b st = Some (0, st')
    \<and> ata_mem st' = overlay (ata_mem st) b 512 (sector_byte w)"
  using assms read_words_serves [OF assms(4), of 0 b "ata_mem st"] put_words_overlay [of 256 b w "ata_mem st"]
  by (auto simp: ata_read_sector_def case_prod_beta)

subsection \<open>Properties\<close>

text \<open>C22. A sector survives the disk: a successful write sends the 28-bit sector address and the 512
  bytes of the buffer as 256 words to the data port; a read to which the drive answers with
  those words puts the same 512 bytes into its buffer, in order, and changes no other memory.
  Only 28 bits of the sector number reach the drive.\<close>

theorem ata_sector_roundtrip:
  assumes "ata_write_sector dev lba src st = Some (0, st1)"
    and "ata_drive_present st2" and "wait_ready dev (ata_trace st2) = Some tr"
    and "wait_busy_err dev (fst (inb dev ATA_PRIMARY_STATUS (select_sector lba ATA_CMD_READ tr)))
      (snd (inb dev ATA_PRIMARY_STATUS (select_sector lba ATA_CMD_READ tr))) = Some (False, status, tr1)"
    and "serves dev tr1 w" and "\<forall>i < 256. w i = data_word (ata_mem st) src i"
  shows "(\<exists>pre post. ata_trace st1 = ata_trace st @ pre @ select_sector lba ATA_CMD_WRITE []
        @ map (\<lambda>i. Out16 ATA_PRIMARY_DATA (w i)) [0..<256] @ post \<and> status_reads pre \<and> status_reads post)
    \<and> lba_of (select_sector lba ATA_CMD_WRITE []) = lba AND 0x0FFFFFFF
    \<and> (\<exists>st3. ata_read_sector dev lba dst st2 = Some (0, st3)
         \<and> bytes_at (ata_mem st3) dst 512 = bytes_at (ata_mem st) src 512
         \<and> (\<forall>a. a \<notin> region dst 512 \<longrightarrow> ata_mem st3 a = ata_mem st2 a))"
proof -
  obtain pre post where "ata_trace st1 = ata_trace st @ pre @ select_sector lba ATA_CMD_WRITE []
      @ map (\<lambda>i. Out16 ATA_PRIMARY_DATA (data_word (ata_mem st) src i)) [0..<256] @ post"
    "status_reads pre" "status_reads post"
    using assms(1) by (rule ata_write_trace)
  moreover have "map (\<lambda>i. Out16 ATA_PRIMARY_DATA (data_word (ata_mem st) src i)) [0..<256]
      = map (\<lambda>i. Out16 ATA_PRIMARY_DATA (w i)) [0..<256]"
    using assms(6) by simp
  moreover obtain st3 where 3: "ata_read_sector dev lba dst st2 = Some (0, st3)"
    "ata_mem st3 = overlay (ata_mem st2) dst 512 (sector_byte w)"
    using ata_read_data [OF assms(2-5)] by blast
  have "sector_byte w j = ata_mem st (src + of_nat j)" if "j < 512" for j
  proof -
    have "w (j div 2) = data_word (ata_mem st) src (j div 2)" using assms(6) that by simp
    then have "sector_byte w j = sector_byte (data_word (ata_mem st) src) j" by (simp only: sector_byte_def)
    then show ?thesis by (simp only: sector_byte_data)
  qed
  then have "bytes_at (ata_mem st3) dst 512 = bytes_at (ata_mem st) src 512"
    unfolding 3(2) by (subst bytes_at_overlay) (simp_all add: bytes_at_def)
  ultimately show ?thesis using 3 lba_of_select [of lba ATA_CMD_WRITE]
    by (auto simp: overlay_miss)
qed

text \<open>C36. Errors are missed: a drive that reports neither BSY nor DRQ, with the error bit set or not
  (but a status other than 0), makes \<open>ata_init\<close> wait for ever, while a read from and a write to it,
  if the driver has it down as present, return 0: the error bit is looked at only while BSY is set.\<close>

theorem ata_errors_missed:
  assumes "\<And>tr. fst (inb dev ATA_PRIMARY_STATUS tr) = status" and "status \<noteq> 0"
    and "status AND 0x80 = 0" and "status AND 0x08 = 0"
  shows "ata_init dev st = None
    \<and> (ata_drive_present st \<longrightarrow> (\<exists>st' st''. ata_read_sector dev lba b st = Some (0, st')
         \<and> ata_write_sector dev lba b st = Some (0, st'')))"
proof -
  have "ata_init dev st = None"
    using assms wait_busy_now [OF assms(3), of dev] wait_drq_never [OF assms(4), of dev]
    by (simp add: ata_init_def case_prod_beta)
  moreover have "\<exists>st'. ata_read_sector dev lba b st = Some (0, st')" if "ata_drive_present st"
    using that assms(1,3) wait_ready_now [of dev] wait_busy_now [OF assms(3), of dev]
    by (auto simp: ata_read_sector_def case_prod_beta)
  moreover have "\<exists>st''. ata_write_sector dev lba b st = Some (0, st'')" if "ata_drive_present st"
    using that assms(1,3) wait_ready_now [of dev] wait_busy_now [OF assms(3), of dev]
    by (auto simp: ata_write_sector_def case_prod_beta)
  ultimately show ?thesis by blast
qed

definition ata0 :: "mem \<Rightarrow> ata" where
  "ata0 m = \<lparr>ata_drive_present = True, ata_mem = m, ata_trace = []\<rparr>"

theorem ata_errors_missed_witness:
  "\<forall>m. ata_init (\<lambda>_ _. 1) (ata0 m) = None \<and> (\<exists>st'. ata_read_sector (\<lambda>_ _. 1) 7 0x1000 (ata0 m) = Some (0, st'))"
proof
  fix m
  show "ata_init (\<lambda>_ _. 1) (ata0 m) = None \<and> (\<exists>st'. ata_read_sector (\<lambda>_ _. 1) 7 0x1000 (ata0 m) = Some (0, st'))"
    using ata_errors_missed [of "\<lambda>_ _. 1" 1 "ata0 m" 7 "0x1000"] by (auto simp: inb_def ata0_def)
qed

text \<open>A disk that is always ready and answers with the words of a buffer.\<close>

definition echo_disk :: "mem \<Rightarrow> ptr \<Rightarrow> device" where
  "echo_disk m b tr port = (if port = ATA_PRIMARY_DATA
     then data_word m b (length (filter (\<lambda>a. case a of In16 p v \<Rightarrow> True | _ \<Rightarrow> False) tr)) else 0x50)"

theorem ata_sector_roundtrip_witness:
  "\<forall>m. \<exists>st1 st3. ata_write_sector (echo_disk m 0x1000) 5 0x1000 (ata0 m) = Some (0, st1)
     \<and> ata_read_sector (echo_disk m 0x1000) 5 0x3000 (ata0 m) = Some (0, st3)
     \<and> bytes_at (ata_mem st3) 0x3000 512 = bytes_at m 0x1000 512"
proof
  fix m
  let ?dev = "echo_disk m 0x1000" and ?st = "ata0 m"
  have s: "fst (inb ?dev ATA_PRIMARY_STATUS tr) = 0x50" for tr
    by (simp add: inb_def echo_disk_def ata_consts)
  have nb: "(0x50 :: u8) AND 0x80 = 0" by simp
  let ?tr = "snd (inb ?dev ATA_PRIMARY_STATUS (ata_trace ?st))"
  let ?tr1 = "snd (inb ?dev ATA_PRIMARY_STATUS (select_sector 5 ATA_CMD_READ ?tr))"
  have r: "wait_ready ?dev (ata_trace ?st) = Some ?tr" by (rule wait_ready_now) (simp add: s)
  have "\<exists>st1. ata_write_sector ?dev 5 0x1000 ?st = Some (0, st1)"
    using r wait_busy_now [OF nb, of ?dev] s by (simp add: ata_write_sector_def case_prod_beta ata0_def)
  then obtain st1 where w: "ata_write_sector ?dev 5 0x1000 ?st = Some (0, st1)" ..
  have b: "wait_busy_err ?dev (fst (inb ?dev ATA_PRIMARY_STATUS (select_sector 5 ATA_CMD_READ ?tr))) ?tr1
      = Some (False, 0x50, ?tr1)"
    unfolding s by (rule wait_busy_now [OF nb])
  have "serves ?dev ?tr1 (data_word m 0x1000)"
    by (simp add: serves_def echo_disk_def inb_trace select_sector_def outb_def ata0_def Let_def o_def)
  from ata_sector_roundtrip [OF w _ r b this, of "0x3000"] w
  show "\<exists>st1 st3. ata_write_sector ?dev 5 0x1000 ?st = Some (0, st1)
     \<and> ata_read_sector ?dev 5 0x3000 ?st = Some (0, st3)
     \<and> bytes_at (ata_mem st3) 0x3000 512 = bytes_at m 0x1000 512"
    by (auto simp: ata0_def)
qed

end
