(* ===== verification/ShellCommands.thy ===== *)
theory ShellCommands
  imports Timer Keyboard CNumber
begin

text \<open>
  The commands of the shell, \<open>kernel/shell.c\<close>: the shell's state, the command table, and the
  62 commands. A command prints through \<open>printf\<close> from literals in memory; the environment
  \<open>shenv\<close> holds what the program's image fixes: the addresses of the literals, of the local
  buffer of \<open>printf\<close>, of the static history and of the line on the stack of \<open>shell_run\<close>, and
  the devices. \<open>None\<close> is a command that does not return.
\<close>

subsection \<open>State\<close>

definition MAX_LINE :: nat where "MAX_LINE = 512"
definition MAX_ARGS :: nat where "MAX_ARGS = 32"
definition MAX_HISTORY :: nat where "MAX_HISTORY = 50"
definition KERNEL_VERSION :: string where "KERNEL_VERSION = ''0.1.0''"
definition KERNEL_NAME :: string where "KERNEL_NAME = ''Vaelen Linux''"
definition KERNEL_CODENAME :: string where "KERNEL_CODENAME = ''Genesis''"

record shenv =
  se_lit :: "string \<Rightarrow> ptr"
  se_bp :: ptr
  se_hist :: ptr
  se_line :: ptr
  se_dev :: device

text \<open>The counters are \<open>int\<close>s that count the lines typed since boot.\<close>

record shell =
  sh_frames :: frames
  sh_vga :: vga
  sh_kbd :: keyboard
  sh_timer :: timer
  hist_count :: nat
  hist_idx :: nat

definition sh_mem :: "shell \<Rightarrow> mem" where
  "sh_mem st = fr_mem (sh_frames st)"

definition upd_sh_mem :: "(mem \<Rightarrow> mem) \<Rightarrow> shell \<Rightarrow> shell" where
  "upd_sh_mem f st = st\<lparr>sh_frames := (sh_frames st)\<lparr>fr_mem := f (fr_mem (sh_frames st))\<rparr>\<rparr>"

definition upd_vga :: "(vga \<Rightarrow> vga) \<Rightarrow> shell \<Rightarrow> shell" where
  "upd_vga f st = st\<lparr>sh_vga := f (sh_vga st)\<rparr>"

definition history_addr :: "shenv \<Rightarrow> nat \<Rightarrow> ptr" where
  "history_addr env i = se_hist env + of_nat (i * MAX_LINE)"

lemma upd_sh_simps [simp]:
  "sh_mem (upd_sh_mem f st) = f (sh_mem st)" "sh_vga (upd_sh_mem f st) = sh_vga st"
  "sh_kbd (upd_sh_mem f st) = sh_kbd st" "hist_count (upd_sh_mem f st) = hist_count st"
  "sh_timer (upd_sh_mem f st) = sh_timer st" "hist_idx (upd_sh_mem f st) = hist_idx st"
  "sh_mem (upd_vga g st) = sh_mem st" "sh_vga (upd_vga g st) = g (sh_vga st)"
  "sh_kbd (upd_vga g st) = sh_kbd st" "hist_count (upd_vga g st) = hist_count st"
  "sh_timer (upd_vga g st) = sh_timer st" "hist_idx (upd_vga g st) = hist_idx st"
  "sh_mem (st\<lparr>hist_count := n\<rparr>) = sh_mem st" "sh_mem (st\<lparr>hist_idx := n\<rparr>) = sh_mem st"
  by (simp_all add: sh_mem_def upd_sh_mem_def upd_vga_def)

subsection \<open>Printing\<close>

definition sh_print :: "shenv \<Rightarrow> string \<Rightarrow> u32 list \<Rightarrow> shell \<Rightarrow> shell option" where
  "sh_print env s vs st =
     map_option (\<lambda>(m, v). upd_sh_mem (\<lambda>_. m) (upd_vga (\<lambda>_. v) st))
       (printf (se_bp env) (se_lit env s) (\<lambda>k. if k < length vs then vs ! k else 0) (sh_mem st, sh_vga st))"

definition shell_print :: "ptr \<Rightarrow> shell \<Rightarrow> shell option" where
  "shell_print str st = map_option (\<lambda>v. upd_vga (\<lambda>_. v) st) (vga_puts (sh_mem st) str (sh_vga st))"

definition say_with :: "shenv \<Rightarrow> string \<Rightarrow> u32 list \<Rightarrow> int \<Rightarrow> shell \<Rightarrow> (int \<times> shell) option" where
  "say_with env s vs r st = map_option (Pair r) (sh_print env s vs st)"

definition say :: "shenv \<Rightarrow> string \<Rightarrow> int \<Rightarrow> shell \<Rightarrow> (int \<times> shell) option" where
  "say env s r st = say_with env s [] r st"

fun say_lines :: "shenv \<Rightarrow> string list \<Rightarrow> int \<Rightarrow> shell \<Rightarrow> (int \<times> shell) option" where
  "say_lines env [] r st = Some (r, st)"
| "say_lines env (s # ss) r st = Option.bind (sh_print env s [] st) (say_lines env ss r)"

subsection \<open>The command table\<close>

text \<open>Names and descriptions; the functions are added below.\<close>

definition command_info :: "(string \<times> string) list" where
  "command_info =
    [(''help'', ''Show available commands''),
     (''clear'', ''Clear the terminal screen''),
     (''echo'', ''Display a line of text''),
     (''ls'', ''List directory contents''),
     (''cd'', ''Change the current directory''),
     (''mkdir'', ''Create directories''),
     (''rm'', ''Remove files or directories''),
     (''cat'', ''Concatenate and display files''),
     (''touch'', ''Create empty files''),
     (''cp'', ''Copy files and directories''),
     (''mv'', ''Move/rename files''),
     (''pwd'', ''Print working directory''),
     (''whoami'', ''Print current user''),
     (''uname'', ''Print system information''),
     (''date'', ''Display or set system date''),
     (''ps'', ''Report process status''),
     (''kill'', ''Terminate processes''),
     (''free'', ''Display memory usage''),
     (''df'', ''Report filesystem usage''),
     (''mount'', ''Mount filesystems''),
     (''umount'', ''Unmount filesystems''),
     (''reboot'', ''Reboot the system''),
     (''shutdown'', ''Shutdown the system''),
     (''apt-get'', ''Package manager''),
     (''dpkg'', ''Debian package manager''),
     (''systemctl'', ''System service manager''),
     (''man'', ''Manual pages''),
     (''history'', ''Command history''),
     (''hostname'', ''Show/set hostname''),
     (''ifconfig'', ''Network interface config''),
     (''ping'', ''Network connectivity test''),
     (''wget'', ''Download files''),
     (''curl'', ''Transfer data from URLs''),
     (''ssh'', ''Secure shell client''),
     (''useradd'', ''Add user account''),
     (''passwd'', ''Change password''),
     (''su'', ''Switch user''),
     (''chmod'', ''Change file permissions''),
     (''chown'', ''Change file ownership''),
     (''tar'', ''Archive utility''),
     (''gzip'', ''Compress files''),
     (''find'', ''Search for files''),
     (''grep'', ''Search text patterns''),
     (''wc'', ''Word/line/byte count''),
     (''head'', ''Show first lines''),
     (''tail'', ''Show last lines''),
     (''sort'', ''Sort lines of text''),
     (''uniq'', ''Remove duplicate lines''),
     (''diff'', ''Compare files''),
     (''ln'', ''Create links''),
     (''which'', ''Locate command''),
     (''whereis'', ''Locate binary/source''),
     (''env'', ''Show environment''),
     (''export'', ''Set environment variable''),
     (''source'', ''Execute script in shell''),
     (''alias'', ''Create command alias''),
     (''unalias'', ''Remove alias''),
     (''type'', ''Display command type''),
     (''exit'', ''Exit the shell''),
     (''sleep'', ''Delay for specified time''),
     (''true'', ''Return success''),
     (''false'', ''Return failure'')]"

text \<open>The search both \<open>help\<close>, \<open>which\<close> and the dispatch make: the index of the first name that is equal.\<close>

fun find_name :: "shenv \<Rightarrow> mem \<Rightarrow> ptr \<Rightarrow> nat list \<Rightarrow> nat option option" where
  "find_name env m p [] = Some None"
| "find_name env m p (i # is) =
     (case strcmp m p (se_lit env (fst (command_info ! i))) of
        None \<Rightarrow> None
      | Some c \<Rightarrow> if c = 0 then Some (Some i) else find_name env m p is)"

subsection \<open>The commands\<close>

text \<open>\<open>args\<close> is the argument array, with a null pointer behind the last argument.\<close>

type_synonym cmd = "shenv \<Rightarrow> (nat \<Rightarrow> ptr) \<Rightarrow> shell \<Rightarrow> (int \<times> shell) option"

fun help_rows :: "shenv \<Rightarrow> (string \<times> string) list \<Rightarrow> shell \<Rightarrow> shell option" where
  "help_rows env [] st = Some st"
| "help_rows env ((name, desc) # cs) st =
     Option.bind (sh_print env ''%-12s %s\<newline>'' [se_lit env name, se_lit env desc] st) (help_rows env cs)"

definition cmd_help :: cmd where
  "cmd_help env args st =
     (if args 1 \<noteq> 0
      then (case find_name env (sh_mem st) (args 1) [0..<length command_info] of
              None \<Rightarrow> None
            | Some (Some i) \<Rightarrow> say_with env ''%s - %s\<newline>''
                [se_lit env (fst (command_info ! i)), se_lit env (snd (command_info ! i))] 0 st
            | Some None \<Rightarrow> say_with env ''No manual entry for %s\<newline>'' [args 1] 0 st)
      else Option.bind (sh_print env ''Vaelen Shell Commands:\<newline>'' [] st) (\<lambda>st1.
           Option.bind (sh_print env ''%-12s %s\<newline>'' [se_lit env ''COMMAND'', se_lit env ''DESCRIPTION''] st1) (\<lambda>st2.
           Option.bind (sh_print env ''------------ ------------\<newline>'' [] st2) (\<lambda>st3.
           map_option (Pair 0) (help_rows env command_info st3)))))"

definition cmd_clear :: cmd where
  "cmd_clear env args st = Some (0, upd_vga vga_clear st)"

partial_function (option) echo_loop :: "shenv \<Rightarrow> (nat \<Rightarrow> ptr) \<Rightarrow> nat \<Rightarrow> shell \<Rightarrow> shell option" where
  "echo_loop env args i st =
     (if args i = 0 then Some st
      else (case sh_print env ''%s%s'' [args i, if args (i + 1) \<noteq> 0 then se_lit env '' '' else se_lit env ''''] st of
              None \<Rightarrow> None
            | Some st1 \<Rightarrow> echo_loop env args (i + 1) st1))"

definition cmd_echo :: cmd where
  "cmd_echo env args st = Option.bind (echo_loop env args 1 st) (say env ''\<newline>'' 0)"

definition cmd_ls :: cmd where
  "cmd_ls env args st =
     say_lines env
     [''bin/  boot/  dev/  etc/  home/  lib/  mnt/  opt/\<newline>'',
      ''proc/ root/ run/  sbin/ sys/  tmp/  usr/  var/\<newline>''] 0 st"

definition cmd_cd :: cmd where
  "cmd_cd env args st = Some (0, st)"

definition cmd_mkdir :: cmd where
  "cmd_mkdir env args st =
     (if args 1 = 0 then say env ''mkdir: missing operand\<newline>'' 1 st
     else say_with env ''mkdir: created directory '%s'\<newline>'' [args 1] 0 st)"

definition cmd_rm :: cmd where
  "cmd_rm env args st =
     (if args 1 = 0 then say env ''rm: missing operand\<newline>'' 1 st
     else say_with env ''rm: removed '%s'\<newline>'' [args 1] 0 st)"

definition cmd_cat :: cmd where
  "cmd_cat env args st =
     (if args 1 = 0 then say env ''cat: missing operand\<newline>'' 1 st
     else say_with env ''cat: %s: No such file\<newline>'' [args 1] 1 st)"

definition cmd_touch :: cmd where
  "cmd_touch env args st =
     (if args 1 = 0 then say env ''touch: missing operand\<newline>'' 1 st
     else Some (0, st))"

definition cmd_cp :: cmd where
  "cmd_cp env args st =
     (if args 1 = 0 \<or> args 2 = 0 then say env ''cp: missing operand\<newline>'' 1 st
     else Some (0, st))"

definition cmd_mv :: cmd where
  "cmd_mv env args st =
     (if args 1 = 0 \<or> args 2 = 0 then say env ''mv: missing operand\<newline>'' 1 st
     else Some (0, st))"

definition cmd_pwd :: cmd where
  "cmd_pwd env args st = say env ''/\<newline>'' 0 st"

definition cmd_whoami :: cmd where
  "cmd_whoami env args st = say env ''root\<newline>'' 0 st"

text \<open>\<open>strcmp (args[1], s) == 0\<close> for a literal; \<open>None\<close> when the comparison does not end.\<close>

definition arg_is :: "shenv \<Rightarrow> ptr \<Rightarrow> string \<Rightarrow> shell \<Rightarrow> bool option" where
  "arg_is env p s st = map_option (\<lambda>c. c = 0) (strcmp (sh_mem st) p (se_lit env s))"

definition cmd_uname :: cmd where
  "cmd_uname env args st =
     Option.bind (if args 1 \<noteq> 0 then arg_is env (args 1) ''-a'' st else Some False) (\<lambda>all_opt.
       if all_opt
       then say_with env ''%s %s %s %s i686 GNU/Linux\<newline>'' [se_lit env KERNEL_NAME, se_lit env KERNEL_VERSION,
              se_lit env KERNEL_CODENAME, se_lit env ''x86_64''] 0 st
       else Option.bind (if args 1 \<noteq> 0 then arg_is env (args 1) ''-r'' st else Some False) (\<lambda>rel_opt.
              if rel_opt then say_with env ''%s\<newline>'' [se_lit env KERNEL_VERSION] 0 st
              else say_with env ''%s\<newline>'' [se_lit env KERNEL_NAME] 0 st))"

definition cmd_date :: cmd where
  "cmd_date env args st = say env ''Sat May 16 12:00:00 CST 2026\<newline>'' 0 st"

definition cmd_ps :: cmd where
  "cmd_ps env args st =
     say_lines env
     [''  PID TTY       TIME CMD\<newline>'',
      ''    1 ?     00:00:00 init\<newline>'',
      ''    2 ?     00:00:00 kthreadd\<newline>'',
      ''    3 ?     00:00:00 shell\<newline>''] 0 st"

definition cmd_kill :: cmd where
  "cmd_kill env args st =
     (if args 1 = 0 then say env ''kill: missing operand\<newline>'' 1 st
     else Some (0, st))"

definition cmd_free :: cmd where
  "cmd_free env args st =
     Option.bind (sh_print env ''              total       used       free\<newline>'' [] st)
       (\<lambda>st1. say_with env ''Mem:         %d      %d      %d\<newline>''
          [mm_get_total_memory (sh_frames st1), mm_get_used_memory (sh_frames st1),
           mm_get_free_memory (sh_frames st1)] 0 st1)"

definition cmd_df :: cmd where
  "cmd_df env args st =
     say_lines env
     [''Filesystem      Size  Used Avail Use%% Mounted on\<newline>'',
      ''/dev/sda1       495G  2.1G  492G   1%% /\<newline>''] 0 st"

definition cmd_mount :: cmd where
  "cmd_mount env args st = Some (0, st)"

definition cmd_umount :: cmd where
  "cmd_umount env args st = Some (0, st)"

definition reset_cpu :: "shell \<Rightarrow> shell" where
  "reset_cpu st = upd_vga (\<lambda>v. v\<lparr>vga_trace := outb 0x64 0xFE (vga_trace v)\<rparr>) st"

definition cmd_reboot :: cmd where
  "cmd_reboot env args st =
     Option.bind (sh_print env ''Rebooting...\<newline>'' [] st) (\<lambda>st1. Some (0, reset_cpu st1))"

definition cmd_shutdown :: cmd where
  "cmd_shutdown env args st =
     Option.bind (sh_print env ''Shutting down...\<newline>'' [] st) (\<lambda>st1. Some (0, reset_cpu st1))"

definition apt_install :: cmd where
  "apt_install env args st =
     (if args 2 = 0 then say env ''apt-get: missing package name\<newline>'' 1 st
      else Option.bind (sh_print env ''Reading package lists... Done\<newline>'' [] st) (\<lambda>st1.
           Option.bind (sh_print env ''Building dependency tree... Done\<newline>'' [] st1) (\<lambda>st2.
           Option.bind (sh_print env ''The following NEW packages will be installed:\<newline>'' [] st2) (\<lambda>st3.
           Option.bind (sh_print env ''  %s\<newline>'' [args 2] st3) (\<lambda>st4.
           Option.bind (sh_print env ''0 upgraded, 1 newly installed, 0 to remove.\<newline>'' [] st4) (\<lambda>st5.
           say_with env ''Installing %s... Done\<newline>'' [args 2] 0 st5))))))"

definition cmd_aptget :: cmd where
  "cmd_aptget env args st =
     (if args 1 = 0
      then say_lines env [''apt-get: missing command\<newline>'',
             ''Usage: apt-get [update|install|remove|upgrade|search]\<newline>''] 1 st
      else Option.bind (arg_is env (args 1) ''update'' st) (\<lambda>c.
        if c then say_lines env [''Get:1 http://vaelen.org stable InRelease\<newline>'',
               ''Reading package lists... Done\<newline>''] 0 st
        else Option.bind (arg_is env (args 1) ''install'' st) (\<lambda>c.
        if c then apt_install env args st
        else Option.bind (arg_is env (args 1) ''remove'' st) (\<lambda>c.
        if c then say env ''Removing package... Done\<newline>'' 0 st
        else Option.bind (arg_is env (args 1) ''upgrade'' st) (\<lambda>c.
        if c then say env ''0 upgraded, 0 newly installed, 0 to remove.\<newline>'' 0 st
        else Option.bind (arg_is env (args 1) ''search'' st) (\<lambda>c.
        if c then say_with env ''Searching for '%s'...\<newline>'' [if args 2 \<noteq> 0 then args 2 else se_lit env ''''] 0 st
        else Some (0, st)))))))"

definition cmd_dpkg :: cmd where
  "cmd_dpkg env args st = say env ''dpkg: package manager stub\<newline>'' 0 st"

definition cmd_systemctl :: cmd where
  "cmd_systemctl env args st = say env ''systemctl: service manager stub\<newline>'' 0 st"

definition cmd_man :: cmd where
  "cmd_man env args st =
     (if args 1 = 0 then say env ''What manual page do you want?\<newline>'' 1 st
     else say_with env ''No manual entry for %s\<newline>'' [args 1] 0 st)"

fun history_rows :: "shenv \<Rightarrow> nat list \<Rightarrow> shell \<Rightarrow> shell option" where
  "history_rows env [] st = Some st"
| "history_rows env (i # is) st =
     (if i < hist_count st
      then Option.bind (sh_print env ''  %d  %s\<newline>'' [of_nat (i + 1), history_addr env (i mod MAX_HISTORY)] st)
             (history_rows env is)
      else Some st)"

definition cmd_history_cmd :: cmd where
  "cmd_history_cmd env args st = map_option (Pair 0) (history_rows env [0..<MAX_HISTORY] st)"

definition cmd_hostname :: cmd where
  "cmd_hostname env args st = say env ''vaelen\<newline>'' 0 st"

definition cmd_ifconfig :: cmd where
  "cmd_ifconfig env args st =
     say env ''lo: flags=73<UP,LOOPBACK,RUNNING>  mtu 65536\<newline>'' 0 st"

definition cmd_ping :: cmd where
  "cmd_ping env args st = say env ''ping: network unavailable\<newline>'' 0 st"

definition cmd_wget :: cmd where
  "cmd_wget env args st = say env ''wget: network unavailable\<newline>'' 0 st"

definition cmd_curl :: cmd where
  "cmd_curl env args st = say env ''curl: network unavailable\<newline>'' 0 st"

definition cmd_ssh :: cmd where
  "cmd_ssh env args st = say env ''ssh: network unavailable\<newline>'' 0 st"

definition cmd_useradd :: cmd where
  "cmd_useradd env args st = Some (0, st)"

definition cmd_passwd :: cmd where
  "cmd_passwd env args st = Some (0, st)"

definition cmd_su :: cmd where
  "cmd_su env args st = say env ''su: not implemented\<newline>'' 0 st"

definition cmd_chmod :: cmd where
  "cmd_chmod env args st = Some (0, st)"

definition cmd_chown :: cmd where
  "cmd_chown env args st = Some (0, st)"

definition cmd_tar :: cmd where
  "cmd_tar env args st = say env ''tar: archive utility stub\<newline>'' 0 st"

definition cmd_gzip :: cmd where
  "cmd_gzip env args st = say env ''gzip: compression stub\<newline>'' 0 st"

definition cmd_find :: cmd where
  "cmd_find env args st = say env ''find: search stub\<newline>'' 0 st"

definition cmd_grep :: cmd where
  "cmd_grep env args st = say env ''grep: search stub\<newline>'' 0 st"

definition cmd_wc :: cmd where
  "cmd_wc env args st = say env ''0 0 0\<newline>'' 0 st"

definition cmd_head :: cmd where
  "cmd_head env args st = Some (0, st)"

definition cmd_tail :: cmd where
  "cmd_tail env args st = Some (0, st)"

definition cmd_sort :: cmd where
  "cmd_sort env args st = Some (0, st)"

definition cmd_uniq :: cmd where
  "cmd_uniq env args st = Some (0, st)"

definition cmd_diff :: cmd where
  "cmd_diff env args st = Some (0, st)"

definition cmd_ln :: cmd where
  "cmd_ln env args st = Some (0, st)"

definition cmd_which :: cmd where
  "cmd_which env args st =
     (if args 1 = 0 then Some (0, st)
      else (case find_name env (sh_mem st) (args 1) [0..<length command_info] of
              None \<Rightarrow> None
            | Some (Some i) \<Rightarrow> say_with env ''/usr/bin/%s\<newline>'' [args 1] 0 st
            | Some None \<Rightarrow> Some (1, st)))"

definition cmd_whereis :: cmd where
  "cmd_whereis env args st = Some (0, st)"

definition cmd_env :: cmd where
  "cmd_env env args st =
     say_lines env
     [''PATH=/usr/local/bin:/usr/bin:/bin\<newline>'',
      ''HOME=/root\<newline>'',
      ''USER=root\<newline>'',
      ''SHELL=/bin/sh\<newline>'',
      ''TERM=vaelen\<newline>''] 0 st"

definition cmd_export :: cmd where
  "cmd_export env args st = Some (0, st)"

definition cmd_source :: cmd where
  "cmd_source env args st = Some (0, st)"

definition cmd_alias :: cmd where
  "cmd_alias env args st = Some (0, st)"

definition cmd_unalias :: cmd where
  "cmd_unalias env args st = Some (0, st)"

definition cmd_type_cmd :: cmd where
  "cmd_type_cmd env args st = Some (0, st)"

definition cmd_exit :: cmd where
  "cmd_exit env args st = say env ''logout\<newline>'' (- 1) st"

definition cmd_sleep_cmd :: cmd where
  "cmd_sleep_cmd env args st =
     (if args 1 = 0 then say env ''sleep: missing operand\<newline>'' 1 st
      else Option.bind (atoi (sh_mem st) (args 1)) (\<lambda>n.
             let ms = n * 1000 in Some (0, st\<lparr>sh_timer := timer_sleep ms (sh_timer st)\<rparr>)))"

definition cmd_true_cmd :: cmd where
  "cmd_true_cmd env args st = Some (0, st)"

definition cmd_false_cmd :: cmd where
  "cmd_false_cmd env args st = Some (1, st)"

subsection \<open>The functions of the table\<close>

definition command_funcs :: "cmd list" where
  "command_funcs =
    [cmd_help, cmd_clear, cmd_echo, cmd_ls, cmd_cd, cmd_mkdir, cmd_rm, cmd_cat, cmd_touch,
     cmd_cp, cmd_mv, cmd_pwd, cmd_whoami, cmd_uname, cmd_date, cmd_ps, cmd_kill, cmd_free,
     cmd_df, cmd_mount, cmd_umount, cmd_reboot, cmd_shutdown, cmd_aptget, cmd_dpkg,
     cmd_systemctl, cmd_man, cmd_history_cmd, cmd_hostname, cmd_ifconfig, cmd_ping, cmd_wget,
     cmd_curl, cmd_ssh, cmd_useradd, cmd_passwd, cmd_su, cmd_chmod, cmd_chown, cmd_tar,
     cmd_gzip, cmd_find, cmd_grep, cmd_wc, cmd_head, cmd_tail, cmd_sort, cmd_uniq, cmd_diff,
     cmd_ln, cmd_which, cmd_whereis, cmd_env, cmd_export, cmd_source, cmd_alias, cmd_unalias,
     cmd_type_cmd, cmd_exit, cmd_sleep_cmd, cmd_true_cmd, cmd_false_cmd]"

lemma length_commands: "length command_info = 62" "length command_funcs = 62"
  by (simp_all add: command_info_def command_funcs_def)


subsection \<open>What a command returns\<close>

text \<open>\<open>returns R c\<close>: whatever the arguments and the state, the command \<open>c\<close> can only return
  a code in \<open>R\<close>.\<close>

definition returns :: "int set \<Rightarrow> cmd \<Rightarrow> bool" where
  "returns R c \<longleftrightarrow> (\<forall>env args st r st'. c env args st = Some (r, st') \<longrightarrow> r \<in> R)"

lemma said [simp]:
  "say_with env s vs r st = Some (r', st') \<longleftrightarrow> r' = r \<and> sh_print env s vs st = Some st'"
  "say env s r st = Some (r', st') \<longleftrightarrow> r' = r \<and> sh_print env s [] st = Some st'"
  by (auto simp: say_with_def say_def)

lemma said_lines: "say_lines env ss r st = Some (r', st') \<Longrightarrow> r' = r"
  by (induction ss arbitrary: st) (auto simp: bind_eq_Some_conv)

lemma apt_returns: "apt_install env args st = Some (r, st') \<Longrightarrow> r = 0 \<or> r = 1"
  by (auto simp: apt_install_def bind_eq_Some_conv split: if_splits)

lemmas command_defs =
  cmd_clear_def cmd_echo_def cmd_ls_def cmd_cd_def cmd_mkdir_def cmd_rm_def cmd_cat_def
  cmd_touch_def cmd_cp_def cmd_mv_def cmd_pwd_def cmd_whoami_def cmd_uname_def cmd_date_def cmd_ps_def
  cmd_kill_def cmd_free_def cmd_df_def cmd_mount_def cmd_umount_def cmd_reboot_def cmd_shutdown_def
  cmd_aptget_def cmd_dpkg_def cmd_systemctl_def cmd_man_def cmd_history_cmd_def cmd_hostname_def
  cmd_ifconfig_def cmd_ping_def cmd_wget_def cmd_curl_def cmd_ssh_def cmd_useradd_def cmd_passwd_def
  cmd_su_def cmd_chmod_def cmd_chown_def cmd_tar_def cmd_gzip_def cmd_find_def cmd_grep_def cmd_wc_def
  cmd_head_def cmd_tail_def cmd_sort_def cmd_uniq_def cmd_diff_def cmd_ln_def cmd_which_def
  cmd_whereis_def cmd_env_def cmd_export_def cmd_source_def cmd_alias_def cmd_unalias_def
  cmd_type_cmd_def cmd_exit_def cmd_sleep_cmd_def cmd_true_cmd_def cmd_false_cmd_def

lemma help_returns: "returns {0, 1} cmd_help"
  unfolding returns_def cmd_help_def
  by (auto simp: bind_eq_Some_conv split: if_splits option.splits)

lemma commands_return: "i < 62 \<Longrightarrow> returns (if i = 58 then {-1} else {0, 1}) (command_funcs ! i)"
proof -
  have "list_all (returns {0, 1}) (take 58 command_funcs)" and "list_all (returns {0, 1}) (drop 59 command_funcs)"
    and exit: "returns {-1} (command_funcs ! 58)"
    using help_returns unfolding command_funcs_def
    by (auto simp: returns_def command_defs bind_eq_Some_conv dest!: said_lines apt_returns
        split: if_splits option.splits)
  then have "\<forall>i < 58. returns {0, 1} (command_funcs ! i)" "\<forall>i < 3. returns {0, 1} (command_funcs ! (59 + i))"
    by (simp_all add: list_all_length length_commands)
  moreover have "i < 58 \<or> i = 58 \<or> (\<exists>j < 3. i = 59 + j)" if "i < 62"
    using that by presburger
  ultimately show "returns (if i = 58 then {-1} else {0, 1}) (command_funcs ! i)" if "i < 62"
    using that exit by auto
qed

end
