(* ===== verification/LineEditor.thy ===== *)
theory LineEditor
  imports ShellCommands
begin

text \<open>
  The line editor of the shell, \<open>shell_getline\<close> of \<open>kernel/shell.c\<close>, with the history it files lines
  in. The properties relate it to a function on the keys typed.
\<close>

subsection \<open>The line editor\<close>

text \<open>
  One line: \<open>i\<close> is the number of characters in the buffer. \<open>None\<close> is a wait for a key that
  never comes.
\<close>

definition sh_getchar :: "shenv \<Rightarrow> shell \<Rightarrow> (u8 \<times> shell) option" where
  "sh_getchar env st =
     map_option (\<lambda>(c, kb, tr). (c, upd_vga (\<lambda>v. v\<lparr>vga_trace := tr\<rparr>) (st\<lparr>sh_kbd := kb\<rparr>)))
       (keyboard_getchar (se_dev env) (sh_kbd st, vga_trace (sh_vga st)))"

definition put_nul :: "ptr \<Rightarrow> shell \<Rightarrow> shell" where
  "put_nul p st = upd_sh_mem (\<lambda>m. m(p := 0)) st"

definition remember_line :: "shenv \<Rightarrow> ptr \<Rightarrow> shell \<Rightarrow> shell" where
  "remember_line env buf st =
     (let st1 = upd_sh_mem (\<lambda>m. fst (strncpy m (history_addr env (hist_count st mod MAX_HISTORY)) buf (of_nat (MAX_LINE - 1)))) st;
          st2 = st1\<lparr>hist_count := hist_count st1 + 1\<rparr>
      in st2\<lparr>hist_idx := hist_count st2\<rparr>)"

definition end_line :: "shenv \<Rightarrow> ptr \<Rightarrow> nat \<Rightarrow> shell \<Rightarrow> shell" where
  "end_line env buf i st =
     (let st1 = upd_vga (vga_putchar 10) (put_nul (buf + of_nat i) st)
      in if i > 0 then remember_line env buf st1 else st1)"

partial_function (option) getline_loop :: "shenv \<Rightarrow> ptr \<Rightarrow> nat \<Rightarrow> nat \<Rightarrow> shell \<Rightarrow> shell option" where
  "getline_loop env buf maxlen i st =
     (if i < maxlen - 1
      then (case sh_getchar env st of
              None \<Rightarrow> None
            | Some (c, st1) \<Rightarrow>
                if c = 10 then Some (end_line env buf i st1)
                else if c = 8
                then if i > 0 then getline_loop env buf maxlen (i - 1) (upd_vga (vga_putchar 8) st1)
                     else getline_loop env buf maxlen i st1
                else if 32 \<le> sint c \<and> sint c \<le> 126
                then getline_loop env buf maxlen (i + 1)
                       (upd_vga (vga_putchar c) (upd_sh_mem (\<lambda>m. m(buf + of_nat i := c)) st1))
                else getline_loop env buf maxlen i st1)
      else Some (put_nul (buf + of_nat i) st))"

definition shell_getline :: "shenv \<Rightarrow> ptr \<Rightarrow> nat \<Rightarrow> shell \<Rightarrow> shell option" where
  "shell_getline env buf maxlen st = getline_loop env buf maxlen 0 (put_nul buf st)"

subsection \<open>Editing a line\<close>

definition printable :: "u8 \<Rightarrow> bool" where
  "printable c \<longleftrightarrow> 32 \<le> sint c \<and> sint c \<le> 126"

text \<open>The reference: the line after the keys \<open>cs\<close>, and what the screen is sent meanwhile.\<close>

fun edit :: "u8 list \<Rightarrow> u8 list \<Rightarrow> u8 list" where
  "edit acc [] = acc"
| "edit acc (c # cs) = (if c = 8 then edit (butlast acc) cs
     else if printable c then edit (acc @ [c]) cs else edit acc cs)"

fun echo :: "u8 list \<Rightarrow> u8 list \<Rightarrow> u8 list" where
  "echo acc [] = []"
| "echo acc (c # cs) = (if c = 8 then (if acc = [] then [] else [8]) @ echo (butlast acc) cs
     else if printable c then c # echo (acc @ [c]) cs else echo acc cs)"

lemma edit_length: "length (edit acc cs) \<le> length acc + length cs"
proof (induction acc cs rule: edit.induct)
  case (1 acc)
  show ?case by simp
next
  case (2 acc c cs)
  show ?case
  proof (cases "c = 8")
    case True
    with 2(1) show ?thesis by simp
  next
    case False
    with 2(2,3) show ?thesis by (cases "printable c") simp_all
  qed
qed

lemma edit_printable: "\<forall>c \<in> set acc. printable c \<Longrightarrow> \<forall>c \<in> set (edit acc cs). printable c"
proof (induction acc cs rule: edit.induct)
  case (1 acc)
  then show ?case by simp
next
  case (2 acc c cs)
  have b: "\<forall>c \<in> set (butlast acc). printable c" using "2.prems" by (meson in_set_butlastD)
  show ?case
  proof (cases "c = 8")
    case True
    with 2(1) [OF True b] show ?thesis by (simp only: edit.simps if_True simp_thms)
  next
    case False
    show ?thesis
    proof (cases "printable c")
      case True
      with "2.prems" have "\<forall>b \<in> set (acc @ [c]). printable b" by auto
      from 2(2) [OF False True this] show ?thesis using False True by (simp only: edit.simps if_True if_False simp_thms)
    next
      case no: False
      from 2(3) [OF False no "2.prems"] show ?thesis using False no by (simp only: edit.simps if_False simp_thms)
    qed
  qed
qed

lemma sh_getchar_ready:
  assumes "kb_ok (sh_kbd st)" and "kb_content (sh_kbd st) = c # cs"
  obtains st1 where "sh_getchar env st = Some (c, st1)" and "kb_ok (sh_kbd st1)" and "kb_content (sh_kbd st1) = cs"
    and "sh_mem st1 = sh_mem st" and "sh_vga st1 = sh_vga st" and "hist_count st1 = hist_count st"
    and "sh_timer st1 = sh_timer st"
proof -
  have ne: "kb_content (sh_kbd st) \<noteq> []" using assms(2) by simp
  let ?st = "st\<lparr>sh_kbd := snd (kb_take (sh_kbd st))\<rparr>"
  have "sh_getchar env st = Some (fst (kb_take (sh_kbd st)), ?st)"
    by (simp add: sh_getchar_def upd_vga_def getchar_ready [OF ne])
  moreover have "fst (kb_take (sh_kbd st)) = c" "kb_content (sh_kbd ?st) = cs"
    using kbq.get_content [OF assms(1) ne] assms(2) by simp_all
  moreover have "kb_ok (sh_kbd ?st)" using kbq.get_ok [OF assms(1) ne] by simp
  ultimately show ?thesis by (intro that [of ?st]) (simp_all add: sh_mem_def)
qed

lemma bytes_at_butlast:
  assumes "bytes_at m p (length acc) = acc"
  shows "bytes_at m p (length (butlast acc)) = butlast acc"
proof (rule nth_equalityI)
  fix i assume "i < length (bytes_at m p (length (butlast acc)))"
  then have i: "i < length (butlast acc)" "i < length acc" by simp_all
  then have "bytes_at m p (length acc) ! i = m (p + of_nat i)" by (intro nth_bytes_at)
  then show "bytes_at m p (length (butlast acc)) ! i = butlast acc ! i"
    using i assms by (simp only: nth_bytes_at nth_butlast)
qed simp

lemma bytes_at_snoc:
  assumes "bytes_at m p (length acc) = acc" and "length acc < 2 ^ 32"
  shows "bytes_at (m(p + of_nat (length acc) := c)) p (length (acc @ [c])) = acc @ [c]"
proof -
  have "bytes_at (m(p + of_nat (length acc) := c)) p (length acc) = bytes_at m p (length acc)"
  proof (rule bytes_at_eqI)
    fix i assume "i < length acc"
    then have "p + of_nat i \<noteq> p + of_nat (length acc)" using assms(2) by (simp add: of_nat_u32_inject)
    then show "(m(p + of_nat (length acc) := c)) (p + of_nat i) = m (p + of_nat i)" by simp
  qed
  moreover have "bytes_at m' p (length (acc @ [c])) = bytes_at m' p (length acc) @ [m' (p + of_nat (length acc))]" for m'
    by (simp add: bytes_at_def)
  ultimately show ?thesis using assms(1) by (simp only: fun_upd_same)
qed

lemma put_bytes_Cons: "put_bytes (c # cs) v = put_bytes cs (vga_putchar c v)"
  by (simp add: put_bytes_def)

lemma put_bytes_append: "put_bytes (xs @ ys) v = put_bytes ys (put_bytes xs v)"
  by (simp add: put_bytes_def)

lemma getline_loop_edit:
  assumes "kb_ok (sh_kbd st)" and "kb_content (sh_kbd st) = cs @ 10 # rest" and "10 \<notin> set cs"
    and "length acc + length cs < maxlen - 1" and "maxlen < 2 ^ 32"
    and "bytes_at (sh_mem st) buf (length acc) = acc"
  shows "\<exists>st'. getline_loop env buf maxlen (length acc) st = Some (end_line env buf (length (edit acc cs)) st')
    \<and> bytes_at (sh_mem st') buf (length (edit acc cs)) = edit acc cs
    \<and> (\<forall>a. a \<notin> region buf (maxlen - 1) \<longrightarrow> sh_mem st' a = sh_mem st a)
    \<and> kb_ok (sh_kbd st') \<and> kb_content (sh_kbd st') = rest
    \<and> sh_vga st' = put_bytes (echo acc cs) (sh_vga st) \<and> hist_count st' = hist_count st
    \<and> sh_timer st' = sh_timer st"
  using assms
proof (induction cs arbitrary: acc st)
  case Nil
  have key: "kb_content (sh_kbd st) = 10 # rest" using Nil.prems(2) by simp
  obtain st1 where "sh_getchar env st = Some (10, st1)" "kb_ok (sh_kbd st1)" "kb_content (sh_kbd st1) = rest"
    "sh_mem st1 = sh_mem st" "sh_vga st1 = sh_vga st" "hist_count st1 = hist_count st" "sh_timer st1 = sh_timer st"
    by (rule sh_getchar_ready [OF Nil.prems(1) key, of env])
  then show ?case using Nil.prems(4,6)
    by (intro exI [of _ st1]) (subst getline_loop.simps, simp add: put_bytes_def)
next
  case (Cons c cs)
  have key: "kb_content (sh_kbd st) = c # cs @ 10 # rest" using Cons.prems(2) by simp
  obtain st1 where 1: "sh_getchar env st = Some (c, st1)" "kb_ok (sh_kbd st1)" "kb_content (sh_kbd st1) = cs @ 10 # rest"
    and same: "sh_mem st1 = sh_mem st" "sh_vga st1 = sh_vga st" "hist_count st1 = hist_count st" "sh_timer st1 = sh_timer st"
    by (rule sh_getchar_ready [OF Cons.prems(1) key, of env])
  have c: "c \<noteq> 10" "10 \<notin> set cs" using Cons.prems(3) by auto
  have i: "length acc < maxlen - 1" using Cons.prems(4) by simp
  note step = getline_loop.simps [of env buf maxlen "length acc" st]
  consider (rub) "c = 8" "acc \<noteq> []" | (none) "c = 8 \<and> acc = [] \<or> c \<noteq> 8 \<and> \<not> printable c"
    | (char) "c \<noteq> 8" "printable c" by blast
  then show ?case
  proof cases
    case rub
    let ?st = "upd_vga (vga_putchar 8) st1"
    have b: "length (butlast acc) = length acc - 1" "length (butlast acc) < length acc" using rub(2) by (cases acc; simp)+
    have "bytes_at (sh_mem ?st) buf (length (butlast acc)) = butlast acc"
      using bytes_at_butlast [OF Cons.prems(6)] same(1) by simp
    then have "\<exists>st'. getline_loop env buf maxlen (length (butlast acc)) ?st
        = Some (end_line env buf (length (edit (butlast acc) cs)) st')
      \<and> bytes_at (sh_mem st') buf (length (edit (butlast acc) cs)) = edit (butlast acc) cs
      \<and> (\<forall>a. a \<notin> region buf (maxlen - 1) \<longrightarrow> sh_mem st' a = sh_mem ?st a)
      \<and> kb_ok (sh_kbd st') \<and> kb_content (sh_kbd st') = rest
      \<and> sh_vga st' = put_bytes (echo (butlast acc) cs) (sh_vga ?st) \<and> hist_count st' = hist_count ?st
      \<and> sh_timer st' = sh_timer ?st"
      using 1(2,3) c(2) Cons.prems(4,5) b by (intro Cons.IH) simp_all
    then show ?thesis using rub c 1(1) i b(1) same by (subst step) (simp add: put_bytes_Cons)
  next
    case none
    then have "\<exists>st'. getline_loop env buf maxlen (length acc) st1 = Some (end_line env buf (length (edit acc cs)) st')
      \<and> bytes_at (sh_mem st') buf (length (edit acc cs)) = edit acc cs
      \<and> (\<forall>a. a \<notin> region buf (maxlen - 1) \<longrightarrow> sh_mem st' a = sh_mem st1 a)
      \<and> kb_ok (sh_kbd st') \<and> kb_content (sh_kbd st') = rest
      \<and> sh_vga st' = put_bytes (echo acc cs) (sh_vga st1) \<and> hist_count st' = hist_count st1
      \<and> sh_timer st' = sh_timer st1"
      using 1(2,3) c(2) Cons.prems(4-6) same by (intro Cons.IH) simp_all
    then show ?thesis using none c 1(1) i same by (subst step) (auto simp: printable_def)
  next
    case char
    let ?st = "upd_vga (vga_putchar c) (upd_sh_mem (\<lambda>m. m(buf + of_nat (length acc) := c)) st1)"
    have "bytes_at (sh_mem ?st) buf (length (acc @ [c])) = acc @ [c]"
      unfolding upd_sh_simps same(1) using Cons.prems(4,5) by (intro bytes_at_snoc [OF Cons.prems(6)]) simp
    then have "\<exists>st'. getline_loop env buf maxlen (length (acc @ [c])) ?st
        = Some (end_line env buf (length (edit (acc @ [c]) cs)) st')
      \<and> bytes_at (sh_mem st') buf (length (edit (acc @ [c]) cs)) = edit (acc @ [c]) cs
      \<and> (\<forall>a. a \<notin> region buf (maxlen - 1) \<longrightarrow> sh_mem st' a = sh_mem ?st a)
      \<and> kb_ok (sh_kbd st') \<and> kb_content (sh_kbd st') = rest
      \<and> sh_vga st' = put_bytes (echo (acc @ [c]) cs) (sh_vga ?st) \<and> hist_count st' = hist_count ?st
      \<and> sh_timer st' = sh_timer ?st"
      using 1(2,3) c(2) Cons.prems(4,5) by (intro Cons.IH) simp_all
    then show ?thesis using char c 1(1) i same region_memI [OF i, of buf]
      by (subst step) (auto simp: printable_def put_bytes_Cons)
  qed
qed

lemma edit_nonzero: "0 \<notin> set (edit [] cs)"
  using edit_printable [of "[]" cs] by (auto simp: printable_def)

abbreviation history_slot :: "shenv \<Rightarrow> shell \<Rightarrow> ptr set" where
  "history_slot env st \<equiv> region (history_addr env (hist_count st mod MAX_HISTORY)) MAX_LINE"

lemma end_line_ends:
  assumes "bytes_at (sh_mem st) buf (length t) = t" and "0 \<notin> set t" and "length t < MAX_LINE - 1"
    and "history_slot env st \<inter> region buf (Suc (length t)) = {}"
  shows "cstr (sh_mem (end_line env buf (length t) st)) buf t"
    and "t \<noteq> [] \<Longrightarrow> cstr (sh_mem (end_line env buf (length t) st)) (history_addr env (hist_count st mod MAX_HISTORY)) t"
    and "a \<notin> region buf (Suc (length t)) \<Longrightarrow> t = [] \<or> a \<notin> history_slot env st \<Longrightarrow>
      sh_mem (end_line env buf (length t) st) a = sh_mem st a"
proof -
  let ?m = "(sh_mem st)(buf + of_nat (length t) := 0)" and ?d = "history_addr env (hist_count st mod MAX_HISTORY)"
  let ?n = "of_nat (MAX_LINE - 1) :: u32"
  have un: "unat ?n = 511" by (simp add: MAX_LINE_def)
  have c: "cstr ?m buf t"
  proof (rule cstrI [OF assms(2)])
    fix i assume i: "i < length t"
    then have "buf + of_nat i \<noteq> buf + of_nat (length t)" using assms(3) by (simp add: of_nat_u32_inject MAX_LINE_def)
    moreover have "bytes_at (sh_mem st) buf (length t) ! i = t ! i" using assms(1) by simp
    ultimately show "?m (buf + of_nat i) = t ! i" using i by simp
  qed simp
  have apart: "region ?d (unat ?n) \<inter> region buf (Suc (length t)) = {}"
    using assms(4) region_mono [of "unat ?n" MAX_LINE ?d] unfolding un by (auto simp: MAX_LINE_def)
  let ?f = "\<lambda>i. if i < length t then t ! i else 0"
  have cp: "fst (strncpy ?m ?d buf ?n) = overlay ?m ?d 511 ?f" using strncpy_overlay [OF c apart] unfolding un .
  have mem: "sh_mem (end_line env buf (length t) st) = (if t = [] then ?m else overlay ?m ?d 511 ?f)"
    using cp by (simp add: end_line_def remember_line_def Let_def put_nul_def del: fun_upd_apply)
  have miss: "overlay ?m ?d 511 ?f a = ?m a" if "a \<notin> region ?d 511" for a
    using that by (intro overlay_miss) auto
  have hit: "overlay ?m ?d 511 ?f (?d + of_nat i) = ?f i" if "i < 511" for i
    using that by (intro overlay_hit) auto
  have "cstr (overlay ?m ?d 511 ?f) buf t = cstr ?m buf t"
    by (rule cstr_cong, rule miss) (use apart un in auto)
  then show "cstr (sh_mem (end_line env buf (length t) st)) buf t" using c mem by simp
  show "cstr (sh_mem (end_line env buf (length t) st)) ?d t" if "t \<noteq> []"
    using that mem hit assms(2,3) by (auto intro!: cstrI simp: MAX_LINE_def)
  show "sh_mem (end_line env buf (length t) st) a = sh_mem st a"
    if "a \<notin> region buf (Suc (length t))" "t = [] \<or> a \<notin> history_slot env st"
  proof -
    have "a \<noteq> buf + of_nat (length t)" using that(1) by auto
    moreover have "a \<notin> region ?d 511" if "t \<noteq> []"
      using \<open>t = [] \<or> _\<close> that region_mono [of 511 MAX_LINE ?d] by (auto simp: MAX_LINE_def)
    ultimately show ?thesis using mem miss by (cases "t = []") auto
  qed
qed

lemma end_line_rest:
  "sh_vga (end_line env buf i st) = vga_putchar 10 (sh_vga st)" "sh_kbd (end_line env buf i st) = sh_kbd st"
  "hist_count (end_line env buf i st) = hist_count st + (if i > 0 then 1 else 0)"
  by (simp_all add: end_line_def remember_line_def Let_def put_nul_def sh_mem_def upd_sh_mem_def upd_vga_def)

lemma getline_line:
  assumes "kb_ok (sh_kbd st)" and "kb_content (sh_kbd st) = cs @ 10 # rest" and "10 \<notin> set cs"
    and "length cs < maxlen - 1" and "maxlen \<le> MAX_LINE"
    and "history_slot env st \<inter> region buf maxlen = {}"
  shows "\<exists>st'. shell_getline env buf maxlen st = Some st' \<and> cstr (sh_mem st') buf (edit [] cs)
    \<and> sh_vga st' = put_bytes (echo [] cs @ [10]) (sh_vga st) \<and> kb_ok (sh_kbd st') \<and> kb_content (sh_kbd st') = rest
    \<and> hist_count st' = hist_count st + (if edit [] cs = [] then 0 else 1)
    \<and> (edit [] cs \<noteq> [] \<longrightarrow> cstr (sh_mem st') (history_addr env (hist_count st mod MAX_HISTORY)) (edit [] cs))
    \<and> (\<forall>a. a \<notin> region buf maxlen \<union> (if edit [] cs = [] then {} else history_slot env st) \<longrightarrow> sh_mem st' a = sh_mem st a)"
proof -
  let ?t = "edit [] cs" and ?st = "put_nul buf st"
  have ml: "maxlen < 2 ^ 32" "length cs < MAX_LINE - 1" using assms(4,5) by (simp_all add: MAX_LINE_def)
  have "kb_ok (sh_kbd ?st)" "kb_content (sh_kbd ?st) = cs @ 10 # rest" "bytes_at (sh_mem ?st) buf (length []) = []"
    using assms(1,2) by (simp_all add: put_nul_def bytes_at_def)
  from getline_loop_edit [OF this(1,2) assms(3) _ ml(1) this(3), of env] assms(4) obtain st1 where
    1: "getline_loop env buf maxlen 0 ?st = Some (end_line env buf (length ?t) st1)"
      "bytes_at (sh_mem st1) buf (length ?t) = ?t" "\<forall>a. a \<notin> region buf (maxlen - 1) \<longrightarrow> sh_mem st1 a = sh_mem ?st a"
      "kb_content (sh_kbd st1) = rest" "kb_ok (sh_kbd st1)" "sh_vga st1 = put_bytes (echo [] cs) (sh_vga ?st)" "hist_count st1 = hist_count ?st"
    by auto
  have lt: "length ?t < maxlen - 1" "length ?t < MAX_LINE - 1" using edit_length [of "[]" cs] assms(4) ml(2) by simp_all
  then have sub: "region buf (Suc (length ?t)) \<subseteq> region buf maxlen" "region buf (maxlen - 1) \<subseteq> region buf maxlen"
    by (simp_all add: region_mono)
  have slot: "history_slot env st1 = history_slot env st" using 1(7) by (simp add: put_nul_def)
  then have "history_slot env st1 \<inter> region buf (Suc (length ?t)) = {}" using assms(6) sub(1) by auto
  note e = end_line_ends [OF 1(2) edit_nonzero lt(2) this]
  have "sh_mem (end_line env buf (length ?t) st1) a = sh_mem st a" if "a \<notin> region buf maxlen \<union> (if ?t = [] then {} else history_slot env st)" for a
  proof -
    have "buf \<in> region buf maxlen" using region_memI [of 0 maxlen buf] assms(4) by simp
    then have "a \<noteq> buf" "a \<notin> region buf (Suc (length ?t))" "a \<notin> region buf (maxlen - 1)" using that sub by blast+
    then show ?thesis using e(3) [of a] 1(3) that unfolding slot by (simp add: put_nul_def split: if_splits)
  qed
  moreover have "shell_getline env buf maxlen st = Some (end_line env buf (length ?t) st1)"
    using 1(1) by (simp add: shell_getline_def)
  moreover have "vga_putchar 10 (put_bytes (echo [] cs) v) = put_bytes (echo [] cs @ [10]) v" for v
    by (simp add: put_bytes_def)
  ultimately show ?thesis using 1(4-7) e(1,2)
    by (intro exI [of _ "end_line env buf (length ?t) st1"]) (simp add: end_line_rest put_nul_def)
qed

text \<open>Reading a line: from the keys \<open>cs\<close> and return, waiting in the keyboard's buffer, the
  line editor leaves in the buffer the string that editing gives (the printable characters, a
  backspace taking back the last), shows the keys that had an effect and a newline, files a
  line that is not empty in the next history slot, and writes nowhere else.\<close>

theorem getline_edits:
  assumes "kb_ok (sh_kbd st)" and "kb_content (sh_kbd st) = cs @ 10 # rest" and "10 \<notin> set cs"
    and "length cs < maxlen - 1" and "maxlen \<le> MAX_LINE"
    and "history_slot env st \<inter> region buf maxlen = {}"
  shows "\<exists>st'. shell_getline env buf maxlen st = Some st' \<and> cstr (sh_mem st') buf (edit [] cs)
    \<and> sh_vga st' = put_bytes (echo [] cs @ [10]) (sh_vga st) \<and> kb_content (sh_kbd st') = rest
    \<and> hist_count st' = hist_count st + (if edit [] cs = [] then 0 else 1)
    \<and> (edit [] cs \<noteq> [] \<longrightarrow> cstr (sh_mem st') (history_addr env (hist_count st mod MAX_HISTORY)) (edit [] cs))
    \<and> (\<forall>a. a \<notin> region buf maxlen \<union> history_slot env st \<longrightarrow> sh_mem st' a = sh_mem st a)"
proof -
  have "a \<notin> region buf maxlen \<union> (if edit [] cs = [] then {} else history_slot env st)"
    if "a \<notin> region buf maxlen \<union> history_slot env st" for a using that by simp
  then show ?thesis using getline_line [OF assms] by blast
qed

text \<open>Typing \<open>lx\<close>, backspace, \<open>s\<close>, return.\<close>

theorem getline_edits_witness:
  "\<forall>(env :: shenv) (st :: shell). \<exists>st'. shell_getline (env\<lparr>se_hist := 0x2000\<rparr>) 0x1000 512
      (st\<lparr>sh_kbd := fold kb_put [108, 120, 8, 115, 10] keyboard_boot, hist_count := 50\<rparr>) = Some st'
    \<and> cstr (sh_mem st') 0x1000 [108, 115] \<and> cstr (sh_mem st') 0x2000 [108, 115] \<and> hist_count st' = 51"
proof (intro allI)
  fix env :: shenv and st :: shell
  let ?env = "env\<lparr>se_hist := 0x2000\<rparr>"
  let ?st = "st\<lparr>sh_kbd := fold kb_put [108, 120, 8, 115, 10] keyboard_boot, hist_count := 50\<rparr>"
  have boot: "kb_ok keyboard_boot" "kb_content keyboard_boot = []"
    by (simp_all add: kb_ok_def kb_content_def keyboard_boot_def)
  from kbq.puts_content [OF boot(1), of "[108, 120, 8, 115, 10]"] boot(2)
  have "kb_ok (fold kb_put [108, 120, 8, 115, 10] keyboard_boot)
    \<and> kb_content (fold kb_put [108, 120, 8, 115, 10] keyboard_boot) = take 256 ([] @ [108, 120, 8, 115, 10])"
    by fastforce
  then
  have k: "kb_ok (sh_kbd ?st)" "kb_content (sh_kbd ?st) = [108, 120, 8, 115] @ 10 # []"
    by simp_all
  have h: "history_addr ?env (hist_count ?st mod MAX_HISTORY) = 0x2000"
    by (simp add: history_addr_def MAX_HISTORY_def)
  have "history_slot ?env ?st \<inter> region 0x1000 512 = {}"
    using region_apart [of "0x1000" 512 "0x2000" 512] unfolding h by (auto simp: MAX_LINE_def)
  moreover have "edit [] [108, 120, 8, 115] = [108, 115]" by (simp add: printable_def)
  ultimately show "\<exists>st'. shell_getline ?env 0x1000 512 ?st = Some st'
    \<and> cstr (sh_mem st') 0x1000 [108, 115] \<and> cstr (sh_mem st') 0x2000 [108, 115] \<and> hist_count st' = 51"
    using getline_edits [OF k _ _ _ \<open>history_slot ?env ?st \<inter> _ = {}\<close>] h
    by (auto simp: MAX_LINE_def)
qed


subsection \<open>The history ring\<close>

text \<open>
  The ring represents the list of all lines filed since boot when it holds the last 50 of them,
  each in the slot of its number.
\<close>

definition hist_holds :: "shenv \<Rightarrow> shell \<Rightarrow> u8 list list \<Rightarrow> bool" where
  "hist_holds env st hs \<longleftrightarrow> hist_count st = length hs
     \<and> (\<forall>i < length hs. length hs \<le> i + MAX_HISTORY \<longrightarrow>
          length (hs ! i) < MAX_LINE - 1 \<and> cstr (sh_mem st) (history_addr env (i mod MAX_HISTORY)) (hs ! i))"

abbreviation history_region :: "shenv \<Rightarrow> ptr set" where
  "history_region env \<equiv> region (se_hist env) (MAX_HISTORY * MAX_LINE)"

definition history_fits :: "shenv \<Rightarrow> bool" where
  "history_fits env \<longleftrightarrow> unat (se_hist env) + MAX_HISTORY * MAX_LINE \<le> 2 ^ 32"

lemma unat_history_addr:
  assumes "history_fits env" and "i < MAX_HISTORY"
  shows "unat (history_addr env i) = unat (se_hist env) + i * MAX_LINE"
proof -
  have "i * MAX_LINE < MAX_HISTORY * MAX_LINE" using assms(2) by (simp add: MAX_LINE_def)
  then have "unat (se_hist env) + i * MAX_LINE < 2 ^ 32" using assms(1) unfolding history_fits_def by linarith
  then show ?thesis unfolding history_addr_def by (rule unat_plus_of_nat)
qed

lemma history_slot_sub:
  assumes "history_fits env" and "i < MAX_HISTORY"
  shows "region (history_addr env i) MAX_LINE \<subseteq> history_region env"
proof
  have "(i + 1) * MAX_LINE \<le> MAX_HISTORY * MAX_LINE" using assms(2) by (intro mult_right_mono) auto
  then have i: "i * MAX_LINE + MAX_LINE \<le> MAX_HISTORY * MAX_LINE" by simp
  fix a assume "a \<in> region (history_addr env i) MAX_LINE"
  then show "a \<in> history_region env"
    using i region_iff [of "history_addr env i" MAX_LINE a] region_iff [of "se_hist env" "MAX_HISTORY * MAX_LINE" a]
      unat_history_addr [OF assms] assms(1) unfolding history_fits_def by linarith
qed

lemma history_slots_apart:
  assumes "history_fits env" and "i < MAX_HISTORY" and "j < MAX_HISTORY" and "i \<noteq> j"
  shows "region (history_addr env i) MAX_LINE \<inter> region (history_addr env j) MAX_LINE = {}"
proof -
  have *: "region (history_addr env i) MAX_LINE \<inter> region (history_addr env j) MAX_LINE = {}"
    if "i < j" "j < MAX_HISTORY" for i j
  proof (rule region_apart)
    have "(i + 1) * MAX_LINE \<le> j * MAX_LINE" "(j + 1) * MAX_LINE \<le> MAX_HISTORY * MAX_LINE"
      using that by (intro mult_right_mono; simp)+
    then have ij: "i * MAX_LINE + MAX_LINE \<le> j * MAX_LINE" "j * MAX_LINE + MAX_LINE \<le> MAX_HISTORY * MAX_LINE" by simp_all
    have "i < MAX_HISTORY" using that by simp
    note u = unat_history_addr [OF assms(1) this] unat_history_addr [OF assms(1) that(2)]
    show "unat (history_addr env i) + MAX_LINE \<le> unat (history_addr env j)" using ij u by simp
    show "unat (history_addr env j) + MAX_LINE \<le> 2 ^ 32" using ij u assms(1) unfolding history_fits_def by linarith
  qed
  show ?thesis using *[of i j] *[of j i] assms(2-4) by (cases "i < j") auto
qed

text \<open>Memory changes outside the slots keep the ring, as does filing a line in the next slot.\<close>

lemma hist_holds_kept:
  assumes "hist_holds env st hs" and "history_fits env" and "hist_count st' = hist_count st"
    and "\<And>a. a \<in> history_region env \<Longrightarrow> sh_mem st' a = sh_mem st a"
  shows "hist_holds env st' hs"
proof -
  have "cstr (sh_mem st') (history_addr env (i mod MAX_HISTORY)) s"
    if "cstr (sh_mem st) (history_addr env (i mod MAX_HISTORY)) s" "length s < MAX_LINE - 1" for i s
  proof -
    have m: "i mod MAX_HISTORY < MAX_HISTORY" by (simp add: MAX_HISTORY_def)
    have "region (history_addr env (i mod MAX_HISTORY)) (Suc (length s)) \<subseteq> history_region env"
      using region_mono [of "Suc (length s)" MAX_LINE] history_slot_sub [OF assms(2) m] that(2) by fastforce
    then have "cstr (sh_mem st') (history_addr env (i mod MAX_HISTORY)) s = cstr (sh_mem st) (history_addr env (i mod MAX_HISTORY)) s"
      using assms(4) by (intro cstr_cong) blast
    then show ?thesis using that(1) by simp
  qed
  then show ?thesis using assms(1,3) by (simp add: hist_holds_def)
qed

lemma hist_holds_snoc:
  assumes "hist_holds env st hs" and "history_fits env" and "hist_count st' = hist_count st + 1"
    and "length t < MAX_LINE - 1" and "cstr (sh_mem st') (history_addr env (hist_count st mod MAX_HISTORY)) t"
    and "\<And>a. a \<in> history_region env - history_slot env st \<Longrightarrow> sh_mem st' a = sh_mem st a"
  shows "hist_holds env st' (hs @ [t])"
  unfolding hist_holds_def
proof (intro conjI allI impI)
  have n: "hist_count st = length hs" using assms(1) by (simp add: hist_holds_def)
  then show "hist_count st' = length (hs @ [t])" using assms(3) by simp
  fix i assume i: "i < length (hs @ [t])" "length (hs @ [t]) \<le> i + MAX_HISTORY"
  have "length ((hs @ [t]) ! i) < MAX_LINE - 1 \<and> cstr (sh_mem st') (history_addr env (i mod MAX_HISTORY)) ((hs @ [t]) ! i)"
  proof (cases "i = length hs")
    case True
    then show ?thesis using assms(4,5) n by simp
  next
    case False
    with i have il: "i < length hs" "length hs \<le> i + MAX_HISTORY" by simp_all
    with assms(1) have old: "length (hs ! i) < MAX_LINE - 1" "cstr (sh_mem st) (history_addr env (i mod MAX_HISTORY)) (hs ! i)"
      by (auto simp: hist_holds_def)
    have m: "i mod MAX_HISTORY < MAX_HISTORY" "length hs mod MAX_HISTORY < MAX_HISTORY" by (simp_all add: MAX_HISTORY_def)
    have "i mod MAX_HISTORY \<noteq> length hs mod MAX_HISTORY"
    proof
      assume "i mod MAX_HISTORY = length hs mod MAX_HISTORY"
      then have "MAX_HISTORY dvd length hs - i" using il(1) by (metis mod_eq_dvd_iff_nat less_imp_le)
      then show False using il i(2) by (auto dest: dvd_imp_le)
    qed
    from history_slots_apart [OF assms(2) m this] history_slot_sub [OF assms(2) m(1)]
    have "region (history_addr env (i mod MAX_HISTORY)) MAX_LINE \<subseteq> history_region env - history_slot env st"
      unfolding n by blast
    moreover have "Suc (length (hs ! i)) \<le> MAX_LINE" using old(1) by simp
    ultimately have "region (history_addr env (i mod MAX_HISTORY)) (Suc (length (hs ! i))) \<subseteq> history_region env - history_slot env st"
      using region_mono [of "Suc (length (hs ! i))" MAX_LINE "history_addr env (i mod MAX_HISTORY)"]
      by blast
    then have "cstr (sh_mem st') (history_addr env (i mod MAX_HISTORY)) (hs ! i)
        = cstr (sh_mem st) (history_addr env (i mod MAX_HISTORY)) (hs ! i)"
      using assms(6) by (intro cstr_cong) blast
    then show ?thesis using old il by (simp add: nth_append)
  qed
  then show "length ((hs @ [t]) ! i) < MAX_LINE - 1" "cstr (sh_mem st') (history_addr env (i mod MAX_HISTORY)) ((hs @ [t]) ! i)"
    by simp_all
qed

definition filed :: "u8 list list \<Rightarrow> u8 list \<Rightarrow> u8 list list" where
  "filed hs t = (if t = [] then hs else hs @ [t])"

lemma getline_files:
  assumes "kb_ok (sh_kbd st)" and "kb_content (sh_kbd st) = cs @ 10 # rest" and "10 \<notin> set cs"
    and "length cs < maxlen - 1" and "maxlen \<le> MAX_LINE" and "history_fits env"
    and "history_region env \<inter> region buf maxlen = {}" and "hist_holds env st hs"
  shows "\<exists>st'. shell_getline env buf maxlen st = Some st' \<and> cstr (sh_mem st') buf (edit [] cs)
    \<and> sh_vga st' = put_bytes (echo [] cs @ [10]) (sh_vga st) \<and> kb_ok (sh_kbd st') \<and> kb_content (sh_kbd st') = rest
    \<and> hist_holds env st' (filed hs (edit [] cs))
    \<and> (\<forall>a. a \<notin> region buf maxlen \<union> history_region env \<longrightarrow> sh_mem st' a = sh_mem st a)"
proof -
  let ?t = "edit [] cs"
  have m: "hist_count st mod MAX_HISTORY < MAX_HISTORY" by (simp add: MAX_HISTORY_def)
  note sub = history_slot_sub [OF assms(6) m]
  with assms(7) have apart: "history_slot env st \<inter> region buf maxlen = {}" by blast
  obtain st' where 1: "shell_getline env buf maxlen st = Some st'" "cstr (sh_mem st') buf ?t"
    "sh_vga st' = put_bytes (echo [] cs @ [10]) (sh_vga st)" "kb_ok (sh_kbd st')" "kb_content (sh_kbd st') = rest"
    "hist_count st' = hist_count st + (if ?t = [] then 0 else 1)"
    "?t \<noteq> [] \<longrightarrow> cstr (sh_mem st') (history_addr env (hist_count st mod MAX_HISTORY)) ?t"
    "\<forall>a. a \<notin> region buf maxlen \<union> (if ?t = [] then {} else history_slot env st) \<longrightarrow> sh_mem st' a = sh_mem st a"
    using getline_line [OF assms(1-5) apart] by blast
  have hist: "hist_holds env st' (filed hs ?t)"
  proof (cases "?t = []")
    case True
    then show ?thesis using 1(6,8) assms(7) by (auto simp: filed_def intro!: hist_holds_kept [OF assms(8,6)])
  next
    case False
    have "length ?t < MAX_LINE - 1" using edit_length [of "[]" cs] assms(4,5) by simp
    then show ?thesis using False 1(6-8) assms(7)
      by (auto simp: filed_def intro!: hist_holds_snoc [OF assms(8,6)])
  qed
  have "\<forall>a. a \<notin> region buf maxlen \<union> history_region env \<longrightarrow> sh_mem st' a = sh_mem st a"
    using 1(8) sub by (auto split: if_splits)
  with 1(1-5) hist show ?thesis by blast
qed

end
