(* ===== verification/Shell.thy ===== *)
theory Shell
  imports LineEditor
begin

text \<open>
  The shell proper, \<open>kernel/shell.c\<close>: the splitting of a line into arguments, the dispatch on the
  command table, and the loop of \<open>shell_run\<close>. The properties relate them to the words of a line.
\<close>

subsection \<open>Arguments\<close>

definition blank_char :: "u8 \<Rightarrow> bool" where
  "blank_char c \<longleftrightarrow> c = 32 \<or> c = 9"

partial_function (option) skip_blanks :: "mem \<Rightarrow> ptr \<Rightarrow> ptr option" where
  "skip_blanks m p = (if blank_char (m p) then skip_blanks m (p + 1) else Some p)"

partial_function (option) skip_word :: "mem \<Rightarrow> ptr \<Rightarrow> ptr option" where
  "skip_word m p = (if m p \<noteq> 0 \<and> \<not> blank_char (m p) then skip_word m (p + 1) else Some p)"

text \<open>The result: the memory, the number of arguments and the array.\<close>

partial_function (option) split_args ::
    "mem \<Rightarrow> ptr \<Rightarrow> nat \<Rightarrow> (nat \<Rightarrow> ptr) \<Rightarrow> (mem \<times> nat \<times> (nat \<Rightarrow> ptr)) option" where
  "split_args m p argc args =
     (if m p \<noteq> 0 \<and> argc < MAX_ARGS - 1
      then (case skip_blanks m p of
              None \<Rightarrow> None
            | Some p1 \<Rightarrow>
                if m p1 = 0 then Some (m, argc, args)
                else (case skip_word m p1 of
                        None \<Rightarrow> None
                      | Some p2 \<Rightarrow>
                          if m p2 \<noteq> 0 then split_args (m(p2 := 0)) (p2 + 1) (argc + 1) (args(argc := p1))
                          else split_args m p2 (argc + 1) (args(argc := p1))))
      else Some (m, argc, args))"

subsection \<open>Executing a line\<close>

text \<open>\<open>args0\<close> is what the array holds before.\<close>

definition shell_execute :: "shenv \<Rightarrow> (nat \<Rightarrow> ptr) \<Rightarrow> ptr \<Rightarrow> shell \<Rightarrow> (int \<times> shell) option" where
  "shell_execute env args0 line st =
     (case split_args (sh_mem st) line 0 args0 of
        None \<Rightarrow> None
      | Some (m, argc, args1) \<Rightarrow>
          let st1 = upd_sh_mem (\<lambda>_. m) st;
              args = args1(argc := 0)
          in if argc = 0 then Some (0, st1)
             else (case find_name env m (args 0) [0..<length command_info] of
                     None \<Rightarrow> None
                   | Some (Some i) \<Rightarrow> (command_funcs ! i) env args st1
                   | Some None \<Rightarrow> say_with env ''%s: command not found\<newline>'' [args 0] 1 st1))"

definition banner :: string where
  "banner = ''\<newline>'' @ ''  '' @ [CHR 0x5C] @ ''  /  _  | |    ___  _ __  \<newline>''
     @ ''   '' @ [CHR 0x5C] @ ''/  /_'' @ [CHR 0x5C] @ '' | |   / _ '' @ [CHR 0x5C] @ ''| '' @ [CHR 0x27] @ ''_ '' @ [CHR 0x5C] @ '' \<newline>''
     @ ''   /  / _ '' @ [CHR 0x5C] @ ''| |__|  __/| | | |\<newline>''
     @ ''  /  /_/ '' @ [CHR 0x5C] @ ''_'' @ [CHR 0x5C] @ ''____'' @ [CHR 0x5C] @ ''___||_| |_|\<newline>'' @ ''\<newline>''"

partial_function (option) shell_loop :: "shenv \<Rightarrow> (nat \<Rightarrow> ptr) \<Rightarrow> shell \<Rightarrow> shell option" where
  "shell_loop env args0 st =
     (case sh_print env ''root@vaelen:~# '' [] st of
        None \<Rightarrow> None
      | Some st1 \<Rightarrow>
          (case shell_getline env (se_line env) MAX_LINE st1 of
             None \<Rightarrow> None
           | Some st2 \<Rightarrow>
               if sh_mem st2 (se_line env) = 0 then shell_loop env args0 st2
               else (case shell_execute env args0 (se_line env) st2 of
                       None \<Rightarrow> None
                     | Some (r, st3) \<Rightarrow>
                         if r < 0 then sh_print env ''\<newline>Vaelen Linux shell terminated.\<newline>'' [] st3
                         else shell_loop env args0 st3)))"

definition shell_run :: "shenv \<Rightarrow> (nat \<Rightarrow> ptr) \<Rightarrow> shell \<Rightarrow> shell option" where
  "shell_run env args0 st =
     Option.bind (sh_print env ''%s'' [se_lit env banner] (upd_vga (vga_setcolor 7) st)) (\<lambda>st1.
     Option.bind (sh_print env ''%s v%s (%s) - Kernel built for physical hardware\<newline>''
       [se_lit env KERNEL_NAME, se_lit env KERNEL_VERSION, se_lit env KERNEL_CODENAME] st1) (\<lambda>st2.
     Option.bind (sh_print env ''Type 'help' for a list of available commands.\<newline>\<newline>'' [] st2)
       (shell_loop env args0)))"

subsection \<open>The words of a line\<close>

text \<open>The reference: the maximal runs of characters that are not blank.\<close>

function line_words :: "u8 list \<Rightarrow> u8 list list" where
  "line_words s =
     (let t = dropWhile blank_char s
      in if t = [] then [] else takeWhile (\<lambda>c. \<not> blank_char c) t # line_words (dropWhile (\<lambda>c. \<not> blank_char c) t))"
  by pat_completeness auto
termination
proof (relation "measure length")
  fix s t
  assume "t = dropWhile blank_char s" and "t \<noteq> []"
  then have "\<not> blank_char (hd t)" using hd_dropWhile by blast
  then have "dropWhile (\<lambda>c. \<not> blank_char c) t = dropWhile (\<lambda>c. \<not> blank_char c) (tl t)"
    using \<open>t \<noteq> []\<close> by (cases t) auto
  then have "length (dropWhile (\<lambda>c. \<not> blank_char c) t) \<le> length (tl t)"
    using length_dropWhile_le [of "\<lambda>c. \<not> blank_char c" "tl t"] by (simp only:)
  also have "\<dots> < length t" using \<open>t \<noteq> []\<close> by (cases t) auto
  also have "\<dots> \<le> length s" using \<open>t = _\<close> by (simp add: length_dropWhile_le)
  finally show "(dropWhile (\<lambda>c. \<not> blank_char c) t, s) \<in> measure length" by simp
qed simp

declare line_words.simps [simp del]

lemma line_words_simps:
  "line_words [] = []" "blank_char b \<Longrightarrow> line_words (b # s) = line_words s"
  using line_words.simps [of "[]"] line_words.simps [of "b # s"] line_words.simps [of s]
  by (simp_all add: Let_def)

subsection \<open>Splitting a line\<close>

lemma skip_blanks_cstr:
  "cstr m p s \<Longrightarrow> skip_blanks m p = Some (p + of_nat (length (takeWhile blank_char s)))"
proof (induction s arbitrary: p)
  case Nil
  then show ?case by (subst skip_blanks.simps) (simp add: blank_char_def)
next
  case (Cons c s)
  then show ?case by (subst skip_blanks.simps) (auto simp: add.assoc)
qed

lemma skip_word_cstr:
  "cstr m p s \<Longrightarrow> skip_word m p = Some (p + of_nat (length (takeWhile (\<lambda>c. \<not> blank_char c) s)))"
proof (induction s arbitrary: p)
  case Nil
  then show ?case by (subst skip_word.simps) simp
next
  case (Cons c s)
  then show ?case by (subst skip_word.simps) (auto simp: add.assoc)
qed

text \<open>One round of the loop: the first word of a line that has one, and what follows it.\<close>

lemma first_word:
  assumes "cstr m p s" and "unat p + length s < 2 ^ 32" and "line_words s \<noteq> []"
  obtains p1 w u where "skip_blanks m p = Some p1" and "cstr m p1 (w @ u)" and "w \<noteq> []"
    and "skip_word m p1 = Some (p1 + of_nat (length w))" and "line_words s = w # line_words u"
    and "unat p \<le> unat p1" and "unat p1 + length w + length u = unat p + length s"
    and "u = [] \<or> blank_char (hd u)"
proof -
  let ?t = "dropWhile blank_char s" and ?k = "length (takeWhile blank_char s)"
  let ?w = "takeWhile (\<lambda>c. \<not> blank_char c) ?t" and ?u = "dropWhile (\<lambda>c. \<not> blank_char c) ?t"
  have t: "?t \<noteq> []" "line_words s = ?w # line_words ?u"
    using assms(3) line_words.simps [of s] by (auto simp: Let_def split: if_splits)
  have k: "?k \<le> length s" "drop ?k s = ?t" by (simp_all add: length_takeWhile_le dropWhile_eq_drop)
  have c: "cstr m (p + of_nat ?k) ?t" using cstr_drop [OF assms(1) k(1)] k(2) by simp
  have len: "?k + length ?t = length s" using takeWhile_dropWhile_id [of blank_char s] by (metis length_append)
  have up: "unat (p + of_nat ?k) = unat p + ?k" using assms(2) k(1) by (intro unat_plus_of_nat) simp
  have "\<not> blank_char (hd ?t)" using t(1) by (rule hd_dropWhile)
  then have w: "?w \<noteq> []" using t(1) by (cases ?t) auto
  have "length ?w + length ?u = length ?t"
    using takeWhile_dropWhile_id [of "\<lambda>c. \<not> blank_char c" ?t] by (metis length_append)
  then show ?thesis
    using that [of "p + of_nat ?k" ?w ?u] skip_blanks_cstr [OF assms(1)] skip_word_cstr [OF c] c t(2) w up len
      hd_dropWhile [of "\<lambda>c. \<not> blank_char c" ?t] by auto
qed

lemma no_words: "line_words s = [] \<Longrightarrow> cstr m p s \<Longrightarrow> \<exists>p1. skip_blanks m p = Some p1 \<and> m p1 = 0"
proof -
  assume none: "line_words s = []" and c: "cstr m p s"
  then have "dropWhile blank_char s = []"
    using line_words.simps [of s] by (auto simp: Let_def split: if_splits)
  then have all: "takeWhile blank_char s = s" using takeWhile_dropWhile_id [of blank_char s] by simp
  show ?thesis using skip_blanks_cstr [OF c] cstr_end [OF c] unfolding all by blast
qed

definition within :: "ptr \<Rightarrow> nat \<Rightarrow> ptr \<Rightarrow> u8 list \<Rightarrow> bool" where
  "within p n q w \<longleftrightarrow> unat p \<le> unat q \<and> unat q + length w \<le> unat p + n"

lemma split_args_words:
  assumes "cstr m p s" and "unat p + length s < 2 ^ 32" and "argc \<le> 31"
  shows "\<exists>m' args'. split_args m p argc args = Some (m', min 31 (argc + length (line_words s)), args')
    \<and> (\<forall>i < argc. args' i = args i)
    \<and> (\<forall>i < length (line_words s). argc + i < 31 \<longrightarrow>
         within p (length s) (args' (argc + i)) (line_words s ! i) \<and> cstr m' (args' (argc + i)) (line_words s ! i))
    \<and> (\<forall>a. a \<notin> region p (length s) \<longrightarrow> m' a = m a)"
  using assms
proof (induction "length s" arbitrary: m p s argc args rule: less_induct)
  case less
  note c = less.prems(1) and fits = less.prems(2)
  show ?case
  proof (cases "m p \<noteq> 0 \<and> argc < 31")
    case False
    then have "s = [] \<or> argc = 31" using c less.prems(3) by (cases s) auto
    moreover have "split_args m p argc args = Some (m, argc, args)"
      using False by (subst split_args.simps) (auto simp: MAX_ARGS_def)
    ultimately show ?thesis using less.prems(3)
      by (intro exI [of _ m] exI [of _ args]) (auto simp: line_words_simps)
  next
    case True
    note step = split_args.simps [of m p argc args]
    show ?thesis
    proof (cases "line_words s = []")
      case none: True
      from no_words [OF none c] obtain p1 where "skip_blanks m p = Some p1" "m p1 = 0" by blast
      then have "split_args m p argc args = Some (m, argc, args)"
        using True by (subst step) (simp add: MAX_ARGS_def)
      then show ?thesis using none True by (intro exI [of _ m] exI [of _ args]) simp
    next
      case False
      obtain p1 w u where w: "skip_blanks m p = Some p1" "cstr m p1 (w @ u)" "w \<noteq> []"
        "skip_word m p1 = Some (p1 + of_nat (length w))" "line_words s = w # line_words u"
        "unat p \<le> unat p1" "unat p1 + length w + length u = unat p + length s"
        "u = [] \<or> blank_char (hd u)"
        using first_word [OF c fits False] .
      let ?p2 = "p1 + of_nat (length w)"
      have up2: "unat ?p2 = unat p1 + length w" using w(7) fits by (intro unat_plus_of_nat) simp
      have mp1: "m p1 \<noteq> 0" using w(2,3) by (cases w) auto
      have cu: "cstr m ?p2 u" using cstr_drop [OF w(2), of "length w"] by simp
      have inr: "within p (length s) p1 w" using w(6,7) by (simp add: within_def)
      have wz: "0 \<notin> set w" using cstr_nonzero [OF w(2)] by simp
      have wat: "m (p1 + of_nat i) = w ! i" if "i < length w" for i
        using cstr_nth [OF w(2), of i] that by (simp add: nth_append)
      show ?thesis
      proof (cases u)
        case Nil
        then have stop: "m ?p2 = 0" using cu by simp
        have "split_args m ?p2 (argc + 1) (args(argc := p1)) = Some (m, argc + 1, args(argc := p1))"
          using stop by (subst split_args.simps) simp
        then have "split_args m p argc args = Some (m, argc + 1, args(argc := p1))"
          using True w(1,4) mp1 stop by (subst step) (simp add: MAX_ARGS_def)
        moreover have "cstr m p1 w" using w(2) Nil by simp
        ultimately show ?thesis using True w(5) Nil inr
          by (intro exI [of _ m] exI [of _ "args(argc := p1)"]) (simp add: line_words_simps)
      next
        case (Cons b v)
        let ?m = "m(?p2 := 0)" and ?args = "args(argc := p1)"
        have lens: "length v < length s" "unat (?p2 + 1) = unat p1 + length w + 1"
          "unat (?p2 + 1) + length v = unat p + length s"
          using w(6,7) Cons fits up2 unat_plus_of_nat [of ?p2 1] by auto
        have out: "?p2 \<notin> region (?p2 + 1) (Suc (length v))"
          using lens fits by (intro notin_region_tail) simp
        have "cstr ?m (?p2 + 1) v = cstr m (?p2 + 1) v"
          by (rule cstr_cong) (use out in auto)
        then have cv: "cstr ?m (?p2 + 1) v" using cu Cons by simp
        have fv: "unat (?p2 + 1) + length v < 2 ^ 32" using lens(3) fits by simp
        have a31: "argc + 1 \<le> 31" using True by simp
        from less.hyps [OF lens(1) cv fv a31, of ?args] obtain m' args' where IH:
          "split_args ?m (?p2 + 1) (argc + 1) ?args = Some (m', min 31 (argc + 1 + length (line_words v)), args')"
          "\<forall>i < argc + 1. args' i = ?args i"
          "\<forall>i < length (line_words v). argc + 1 + i < 31 \<longrightarrow> within (?p2 + 1) (length v) (args' (argc + 1 + i)) (line_words v ! i)
             \<and> cstr m' (args' (argc + 1 + i)) (line_words v ! i)"
          "\<forall>a. a \<notin> region (?p2 + 1) (length v) \<longrightarrow> m' a = ?m a"
          by blast
        have words: "line_words s = w # line_words v" using w(5,8) Cons by (simp add: line_words_simps)
        have mb: "m ?p2 \<noteq> 0" using cu Cons by simp
        have run: "split_args m p argc args = Some (m', min 31 (argc + length (line_words s)), args')"
          using True w(1,4) mp1 mb IH(1) words by (subst step) (simp add: MAX_ARGS_def)
        have low: "m' a = ?m a" if "unat a < unat p1 + length w + 1" for a
        proof -
          have "a \<notin> region (?p2 + 1) (length v)"
            using that lens(2,3) fits region_iff [of "?p2 + 1" "length v" a] by auto
          then show ?thesis using IH(4) by blast
        qed
        have "cstr m' p1 w"
        proof (rule cstrI [OF wz])
          fix i assume i: "i < length w"
          have ui: "unat (p1 + of_nat i) = unat p1 + i" using i w(7) fits by (intro unat_plus_of_nat) simp
          then have "p1 + of_nat i \<noteq> ?p2" using up2 i by (metis add_left_cancel less_irrefl)
          then show "m' (p1 + of_nat i) = w ! i" using low [of "p1 + of_nat i"] ui i wat by simp
        next
          show "m' ?p2 = 0" using low [of ?p2] up2 by simp
        qed
        moreover have keep: "m' a = m a" if "a \<notin> region p (length s)" for a
        proof -
          have "\<not> (unat p \<le> unat a \<and> unat a < unat p + length s)"
            using that region_iff [of p "length s" a] fits by simp
          then have "a \<notin> region (?p2 + 1) (length v)" "a \<noteq> ?p2"
            using region_iff [of "?p2 + 1" "length v" a] lens fits w(6) up2 by auto
          then show ?thesis using IH(4) by simp
        qed
        moreover have "within p (length s) a x" if "within (?p2 + 1) (length v) a x" for a x
          using that lens w(6) unfolding within_def by linarith
        moreover have old: "args' argc = p1" "\<forall>i < argc. args' i = args i" using IH(2) by auto
        ultimately have "within p (length s) (args' (argc + i)) (line_words s ! i) \<and> cstr m' (args' (argc + i)) (line_words s ! i)"
          if "i < length (line_words s)" "argc + i < 31" for i
          using that IH(3) words inr by (cases i) auto
        then show ?thesis using run old(2) keep by blast
      qed
    qed
  qed
qed

subsection \<open>Dispatch\<close>

text \<open>What the search finds, by name; and the table as a map.\<close>

definition command_name :: "nat \<Rightarrow> u8 list" where
  "command_name i = bytes (fst (command_info ! i))"

definition command_at :: "u8 list \<Rightarrow> nat option" where
  "command_at w = find (\<lambda>i. command_name i = w) [0..<62]"

definition names_in :: "shenv \<Rightarrow> mem \<Rightarrow> bool" where
  "names_in env m \<longleftrightarrow> (\<forall>i < 62. cstr m (se_lit env (fst (command_info ! i))) (command_name i))"

lemma find_name_find:
  assumes "cstr m p w" and "\<And>i. i \<in> set js \<Longrightarrow> cstr m (se_lit env (fst (command_info ! i))) (command_name i)"
  shows "find_name env m p js = Some (find (\<lambda>i. command_name i = w) js)"
  using assms(2)
proof (induction js)
  case (Cons i js)
  have c: "cstr m (se_lit env (fst (command_info ! i))) (command_name i)" using Cons.prems by simp
  then have "strcmp m p (se_lit env (fst (command_info ! i))) = Some (strcmp_l w (command_name i))"
    using assms(1) by (intro strcmp_cstr)
  moreover have "strcmp_l w (command_name i) = 0 \<longleftrightarrow> command_name i = w"
    using strcmp_l_0_iff [OF cstr_nonzero [OF assms(1)] cstr_nonzero [OF c]] by auto
  ultimately show ?case using Cons by auto
qed simp

lemma find_name_command: "cstr m p w \<Longrightarrow> names_in env m \<Longrightarrow>
    find_name env m p [0..<length command_info] = Some (command_at w)"
  unfolding command_at_def length_commands by (rule find_name_find) (auto simp: names_in_def)

lemma command_at_Some: "command_at w = Some i \<Longrightarrow> i < 62 \<and> command_name i = w"
  by (auto simp: command_at_def find_Some_iff)

definition names_apart :: "shenv \<Rightarrow> ptr \<Rightarrow> nat \<Rightarrow> bool" where
  "names_apart env p n \<longleftrightarrow>
     (\<forall>i < 62. region (se_lit env (fst (command_info ! i))) (Suc (length (command_name i))) \<inter> region p n = {})"

lemma names_in_kept:
  assumes "names_in env m" and "names_apart env p n" and "\<And>a. a \<notin> region p n \<Longrightarrow> m' a = m a"
  shows "names_in env m'"
  unfolding names_in_def
proof (intro allI impI)
  fix i :: nat assume i: "i < 62"
  have "cstr m' (se_lit env (fst (command_info ! i))) (command_name i)
      = cstr m (se_lit env (fst (command_info ! i))) (command_name i)"
    by (rule cstr_cong, rule assms(3)) (use assms(2) i in \<open>auto simp: names_apart_def\<close>)
  then show "cstr m' (se_lit env (fst (command_info ! i))) (command_name i)"
    using assms(1) i by (simp add: names_in_def)
qed

text \<open>The contract of \<open>shell_execute\<close>: what runs, by the words of the line.\<close>

definition run_words :: "shenv \<Rightarrow> (nat \<Rightarrow> ptr) \<Rightarrow> u8 list list \<Rightarrow> shell \<Rightarrow> (int \<times> shell) option" where
  "run_words env args ws st =
     (if ws = [] then Some (0, st)
      else (case command_at (hd ws) of
              Some i \<Rightarrow> (command_funcs ! i) env args st
            | None \<Rightarrow> say_with env ''%s: command not found\<newline>'' [args 0] 1 st))"

lemma shell_execute_words:
  assumes "cstr (sh_mem st) line s" and "unat line + length s < 2 ^ 32"
    and "names_in env (sh_mem st)" and "names_apart env line (length s)"
  obtains m args where "shell_execute env args0 line st = run_words env args (line_words s) (upd_sh_mem (\<lambda>_. m) st)"
    and "\<And>i. i < min 31 (length (line_words s)) \<Longrightarrow> cstr m (args i) (line_words s ! i)"
    and "\<And>i. i < min 31 (length (line_words s)) \<Longrightarrow> within line (length s) (args i) (line_words s ! i)"
    and "args (min 31 (length (line_words s))) = 0"
    and "\<And>a. a \<notin> region line (length s) \<Longrightarrow> m a = sh_mem st a"
proof -
  let ?n = "min 31 (length (line_words s))"
  from split_args_words [OF assms(1,2), of 0 args0] obtain m args1 where
    1: "split_args (sh_mem st) line 0 args0 = Some (m, ?n, args1)"
      "\<forall>i < length (line_words s). i < 31 \<longrightarrow> within line (length s) (args1 i) (line_words s ! i) \<and> cstr m (args1 i) (line_words s ! i)"
      "\<forall>a. a \<notin> region line (length s) \<longrightarrow> m a = sh_mem st a"
    by auto
  let ?args = "args1(?n := 0)"
  have names: "names_in env m" using names_in_kept [OF assms(3,4)] 1(3) by blast
  have "shell_execute env args0 line st = run_words env ?args (line_words s) (upd_sh_mem (\<lambda>_. m) st)"
  proof (cases "line_words s")
    case Nil
    then show ?thesis using 1(1) by (simp add: shell_execute_def run_words_def Let_def)
  next
    case (Cons w ws)
    then have "cstr m (?args 0) w" using 1(2) by auto
    then have "find_name env m (?args 0) [0..<length command_info] = Some (command_at w)"
      using names by (rule find_name_command)
    then show ?thesis using 1(1) Cons by (simp add: shell_execute_def run_words_def Let_def split: option.split)
  qed
  moreover have "cstr m (?args i) (line_words s ! i)" "within line (length s) (?args i) (line_words s ! i)" if "i < ?n" for i
    using that 1(2) by (simp_all del: min_less_iff_conj)
  ultimately show ?thesis using that [of ?args m] 1(3) by auto
qed


text \<open>C17. Executing a line runs the command its first word names, with the words of the line (31 at
  most, each a string of its own in the line, then a null pointer) as arguments; a blank line
  runs nothing and returns 0, an unknown name prints an error and returns 1. Only the line is
  written before the command runs.\<close>

theorem shell_execute_dispatch:
  assumes "cstr (sh_mem st) line s" and "unat line + length s < 2 ^ 32"
    and "names_in env (sh_mem st)" and "names_apart env line (length s)"
  shows "\<exists>m args. shell_execute env args0 line st = run_words env args (line_words s) (upd_sh_mem (\<lambda>_. m) st)
    \<and> (\<forall>i < min 31 (length (line_words s)). cstr m (args i) (line_words s ! i))
    \<and> args (min 31 (length (line_words s))) = 0
    \<and> (\<forall>a. a \<notin> region line (length s) \<longrightarrow> m a = sh_mem st a)"
  by (rule shell_execute_words [OF assms, of args0]) blast

lemma command_at_name:
  assumes "i < 62"
  shows "command_at (bytes (fst (command_info ! i))) = Some i"
proof -
  have "distinct (map fst command_info)" by (simp add: command_info_def)
  then have "fst (command_info ! j) \<noteq> fst (command_info ! i)" if "j < i" for j
    using that assms nth_eq_iff_index_eq [of "map fst command_info" j i] by (simp add: length_commands)
  then show ?thesis using assms by (auto simp: command_at_def command_name_def find_Some_iff)
qed

lemma exit_command: "command_at w = Some 58 \<longleftrightarrow> w = bytes ''exit''"
proof -
  have name: "command_name 58 = bytes ''exit''" by (simp add: command_name_def command_info_def)
  have "command_at (bytes ''exit'') = Some 58"
    using command_at_name [of 58] by (simp add: command_info_def)
  then show ?thesis using command_at_Some [of w 58] name by auto
qed

lemma run_words_codes:
  assumes "run_words env args ws st = Some (r, st')"
  shows "r \<in> {-1, 0, 1} \<and> (r = -1 \<longleftrightarrow> ws \<noteq> [] \<and> hd ws = bytes ''exit'')"
proof (cases "ws = []")
  case True
  then show ?thesis using assms by (simp add: run_words_def)
next
  case False
  show ?thesis
  proof (cases "command_at (hd ws)")
    case None
    then show ?thesis using assms False exit_command [of "hd ws"] by (simp add: run_words_def)
  next
    case (Some i)
    then have "(command_funcs ! i) env args st = Some (r, st')" using assms False by (simp add: run_words_def)
    with commands_return [of i] command_at_Some [OF Some] have "r \<in> (if i = 58 then {-1} else {0, 1})"
      unfolding returns_def by blast
    then show ?thesis using exit_command [of "hd ws"] Some False by (auto split: if_splits)
  qed
qed

text \<open>C31. A line returns \<open>-1\<close> exactly when its first word is \<open>exit\<close>, and otherwise 0 or 1.\<close>

theorem shell_execute_codes:
  assumes "cstr (sh_mem st) line s" and "unat line + length s < 2 ^ 32"
    and "names_in env (sh_mem st)" and "names_apart env line (length s)"
    and "shell_execute env args0 line st = Some (r, st')"
  shows "r \<in> {-1, 0, 1} \<and> (r = -1 \<longleftrightarrow> line_words s \<noteq> [] \<and> hd (line_words s) = bytes ''exit'')"
proof -
  obtain m args where run: "run_words env args (line_words s) (upd_sh_mem (\<lambda>_. m) st) = Some (r, st')"
    using shell_execute_words [OF assms(1-4), of args0] assms(5) by metis
  show ?thesis by (rule run_words_codes [OF run])
qed


text \<open>A memory with the names of the commands and two lines.\<close>

abbreviation demo_lits :: "string list" where
  "demo_lits \<equiv> map fst command_info @ [''cd  /tmp'', '' exit now'']"

lemma demo_names: "names_in (env\<lparr>se_lit := lit_addr demo_lits\<rparr>) (lit_mem demo_lits)"
  unfolding names_in_def
proof (intro allI impI)
  fix i :: nat assume "i < 62"
  then have m: "fst (command_info ! i) \<in> set (map fst command_info)" by (simp add: length_commands)
  have "list_all (\<lambda>s. length s < 64 \<and> 0 \<notin> set (bytes s)) (map fst command_info)" by code_simp
  then have "length (fst (command_info ! i)) < 64" "0 \<notin> set (bytes (fst (command_info ! i)))"
    using m by (auto simp: list_all_iff)
  then show "cstr (lit_mem demo_lits) (se_lit (env\<lparr>se_lit := lit_addr demo_lits\<rparr>) (fst (command_info ! i))) (command_name i)"
    using m cstr_lit_mem [of "fst (command_info ! i)" demo_lits] by (simp add: command_name_def length_commands)
qed

lemma demo_apart:
  assumes "s \<in> {''cd  /tmp'', '' exit now''}"
  shows "names_apart (env\<lparr>se_lit := lit_addr demo_lits\<rparr>) (lit_addr demo_lits s) (length (bytes s))"
  unfolding names_apart_def
proof (intro allI impI)
  fix i :: nat assume i: "i < 62"
  let ?n = "fst (command_info ! i)"
  have n: "?n \<in> set demo_lits" "length demo_lits < 0x1000" "s \<in> set demo_lits"
    using i assms by (auto simp: length_commands)
  have "list_all (\<lambda>n. length n < 64 \<and> lit_index demo_lits n < 62) (map fst command_info)" by code_simp
  then have "length ?n < 64" "lit_index demo_lits ?n < 62"
    using i by (simp_all add: list_all_length length_commands)
  moreover have "list_all (\<lambda>s. length s < 64 \<and> 62 \<le> lit_index demo_lits s \<and> lit_index demo_lits s < 64) [''cd  /tmp'', '' exit now'']" by code_simp
  then have "length s < 64" "62 \<le> lit_index demo_lits s" "lit_index demo_lits s < 64" using assms by auto
  ultimately have "region (lit_addr demo_lits ?n) (Suc (length (bytes ?n))) \<inter> region (lit_addr demo_lits s) (length (bytes s)) = {}"
    using unat_lit_addr [OF n(1,2), of 0] unat_lit_addr [OF n(3,2), of 0]
    by (intro region_apart) (simp_all add: bytes_def)
  then show "region (se_lit (env\<lparr>se_lit := lit_addr demo_lits\<rparr>) ?n) (Suc (length (command_name i)))
      \<inter> region (lit_addr demo_lits s) (length (bytes s)) = {}"
    by (simp add: command_name_def)
qed


lemma demo_line:
  "s \<in> {''cd  /tmp'', '' exit now''} \<Longrightarrow> cstr (lit_mem demo_lits) (lit_addr demo_lits s) (bytes s)
    \<and> unat (lit_addr demo_lits s) + length (bytes s) < 2 ^ 32"
proof -
  assume s: "s \<in> {''cd  /tmp'', '' exit now''}"
  then have s2: "s \<in> set demo_lits" "length s < 64" "0 \<notin> set (bytes s)" by (auto simp: bytes_def)
  have "length demo_lits < 0x1000" by (simp add: length_commands)
  then show ?thesis using cstr_lit_mem [OF s2(1) _ s2(2,3)] lit_addr_less [OF s2(1) _ s2(2)]
    by (simp add: bytes_def)
qed

lemma demo_words: "line_words (bytes ''cd  /tmp'') = [bytes ''cd'', bytes ''/tmp'']"
  by code_simp

lemma demo_cd: "run_words env args (bytes ''cd'' # ws) st = Some (0, st)"
proof -
  have "command_at (bytes ''cd'') = Some 4" by code_simp
  moreover have "command_funcs ! 4 = cmd_cd" by (simp add: command_funcs_def)
  ultimately show ?thesis by (simp add: run_words_def cmd_cd_def)
qed

lemma demo_ok:
  fixes st :: shell
  defines "st' \<equiv> upd_sh_mem (\<lambda>_. lit_mem demo_lits) st"
  shows "cstr (sh_mem st') (lit_addr demo_lits ''cd  /tmp'') (bytes ''cd  /tmp'')"
    "unat (lit_addr demo_lits ''cd  /tmp'') + length (bytes ''cd  /tmp'') < 2 ^ 32"
    "names_in (env\<lparr>se_lit := lit_addr demo_lits\<rparr>) (sh_mem st')"
    "names_apart (env\<lparr>se_lit := lit_addr demo_lits\<rparr>) (lit_addr demo_lits ''cd  /tmp'') (length (bytes ''cd  /tmp''))"
proof -
  have mem: "sh_mem st' = lit_mem demo_lits" by (simp add: st'_def)
  have cd: "''cd  /tmp'' \<in> {''cd  /tmp'', '' exit now''}" by simp
  note all = demo_line [OF cd] demo_names demo_apart [OF cd]
  show "cstr (sh_mem st') (lit_addr demo_lits ''cd  /tmp'') (bytes ''cd  /tmp'')"
    "unat (lit_addr demo_lits ''cd  /tmp'') + length (bytes ''cd  /tmp'') < 2 ^ 32"
    "names_in (env\<lparr>se_lit := lit_addr demo_lits\<rparr>) (sh_mem st')"
    "names_apart (env\<lparr>se_lit := lit_addr demo_lits\<rparr>) (lit_addr demo_lits ''cd  /tmp'') (length (bytes ''cd  /tmp''))"
    unfolding mem using all by blast+
qed

theorem shell_execute_dispatch_witness:
  "\<forall>env st args0. \<exists>m (args :: nat \<Rightarrow> ptr). shell_execute (env\<lparr>se_lit := lit_addr demo_lits\<rparr>) args0 (lit_addr demo_lits ''cd  /tmp'')
        (upd_sh_mem (\<lambda>_. lit_mem demo_lits) st) = Some (0, upd_sh_mem (\<lambda>_. m) st)
      \<and> cstr m (args 0) (bytes ''cd'') \<and> cstr m (args 1) (bytes ''/tmp'') \<and> args 2 = 0"
proof (intro allI)
  fix env :: shenv and st args0
  let ?env = "env\<lparr>se_lit := lit_addr demo_lits\<rparr>" and ?st = "upd_sh_mem (\<lambda>_. lit_mem demo_lits) st"
  have "upd_sh_mem (\<lambda>_. m) ?st = upd_sh_mem (\<lambda>_. m) st" for m by (simp add: upd_sh_mem_def)
  moreover obtain m args where "shell_execute ?env args0 (lit_addr demo_lits ''cd  /tmp'') ?st = Some (0, upd_sh_mem (\<lambda>_. m) ?st)"
    "\<forall>i < min 31 (length [bytes ''cd'', bytes ''/tmp'']). cstr m (args i) ([bytes ''cd'', bytes ''/tmp''] ! i)"
    "args (min 31 (length [bytes ''cd'', bytes ''/tmp''])) = 0"
    using shell_execute_dispatch [OF demo_ok, of env args0 st] unfolding demo_words demo_cd by blast
  ultimately show "\<exists>m (args :: nat \<Rightarrow> ptr). shell_execute ?env args0 (lit_addr demo_lits ''cd  /tmp'') ?st
        = Some (0, upd_sh_mem (\<lambda>_. m) st)
      \<and> cstr m (args 0) (bytes ''cd'') \<and> cstr m (args 1) (bytes ''/tmp'') \<and> args 2 = 0"
    by (intro exI [of _ m] exI [of _ args]) (auto simp: numeral_2_eq_2)
qed

text \<open>A line that does not name \<open>exit\<close> does not end the shell.\<close>

theorem shell_execute_codes_witness:
  "\<forall>env st args0. \<exists>m. shell_execute (env\<lparr>se_lit := lit_addr demo_lits\<rparr>) args0 (lit_addr demo_lits ''cd  /tmp'')
        (upd_sh_mem (\<lambda>_. lit_mem demo_lits) st) = Some (0, upd_sh_mem (\<lambda>_. m) st)
      \<and> \<not> (line_words (bytes ''cd  /tmp'') \<noteq> [] \<and> hd (line_words (bytes ''cd  /tmp'')) = bytes ''exit'')"
proof (intro allI)
  fix env :: shenv and st args0
  let ?env = "env\<lparr>se_lit := lit_addr demo_lits\<rparr>" and ?st = "upd_sh_mem (\<lambda>_. lit_mem demo_lits) st"
  from shell_execute_words [OF demo_ok, of env args0 st] obtain m where
    "shell_execute ?env args0 (lit_addr demo_lits ''cd  /tmp'') ?st = Some (0, upd_sh_mem (\<lambda>_. m) ?st)"
    unfolding demo_words demo_cd by metis
  moreover from shell_execute_codes [OF demo_ok this]
  have "\<not> (line_words (bytes ''cd  /tmp'') \<noteq> [] \<and> hd (line_words (bytes ''cd  /tmp'')) = bytes ''exit'')" by simp
  moreover have "upd_sh_mem (\<lambda>_. m) ?st = upd_sh_mem (\<lambda>_. m) st" by (simp add: upd_sh_mem_def)
  ultimately show "\<exists>m. shell_execute ?env args0 (lit_addr demo_lits ''cd  /tmp'') ?st = Some (0, upd_sh_mem (\<lambda>_. m) st)
      \<and> \<not> (line_words (bytes ''cd  /tmp'') \<noteq> [] \<and> hd (line_words (bytes ''cd  /tmp'')) = bytes ''exit'')" by metis
qed

end
