(* ===== verification/Controllers.thy ===== *)
theory Controllers
  imports Timer Ata
begin

text \<open>
  The chips behind the ports that the boot programs: two 8259A interrupt controllers and channel 0
  of the 8254 timer, as far as their data sheets say what a write to their registers does. They are
  not part of the source; folding them over a trace tells what the writes of \<open>irq_init\<close> and
  \<open>timer_init\<close> set up. The second half shows which drivers leave them alone.
\<close>

subsection \<open>The interrupt controller\<close>

text \<open>
  A first command word (bit 4 set) clears the mask and starts the initialisation; then the data
  port takes the vector base, the cascade word unless the chip is single (bit 1), and the mode
  unless it is not asked for (bit 0). Afterwards it takes the mask.
\<close>

datatype pic_phase = Base | Cascade | Mode | Ready

record pic =
  pic_phase :: pic_phase
  pic_single :: bool
  pic_asks_mode :: bool
  pic_base :: u8
  pic_cascade :: u8
  pic_8086 :: bool
  pic_mask :: u8

definition pic_command :: "u8 \<Rightarrow> pic \<Rightarrow> pic" where
  "pic_command v p = (if bit v 4
     then p\<lparr>pic_phase := Base, pic_single := bit v 1, pic_asks_mode := bit v 0, pic_8086 := False, pic_mask := 0\<rparr>
     else p)"

definition pic_data :: "u8 \<Rightarrow> pic \<Rightarrow> pic" where
  "pic_data v p = (let rest = (if pic_asks_mode p then Mode else Ready) in
     case pic_phase p of
       Base \<Rightarrow> p\<lparr>pic_base := v AND 0xF8, pic_phase := if pic_single p then rest else Cascade\<rparr>
     | Cascade \<Rightarrow> p\<lparr>pic_cascade := v, pic_phase := rest\<rparr>
     | Mode \<Rightarrow> p\<lparr>pic_8086 := bit v 0, pic_phase := Ready\<rparr>
     | Ready \<Rightarrow> p\<lparr>pic_mask := v\<rparr>)"

subsection \<open>The timer chip\<close>

text \<open>
  A control word for channel 0 gives the access (bits 4 and 5) and the mode (bits 1 to 3); with
  access 3 the data port takes the low and then the high byte of the count. A count of 0 is
  65536. The chip counts down 1193182 times a second.
\<close>

record pit =
  pit_access :: u8
  pit_mode :: u8
  pit_low :: "u8 option"
  pit_count :: u16

definition pit_control :: "u8 \<Rightarrow> pit \<Rightarrow> pit" where
  "pit_control v t = (if drop_bit 6 v = 0 \<and> drop_bit 4 v AND 3 \<noteq> 0
     then t\<lparr>pit_access := drop_bit 4 v AND 3, pit_mode := drop_bit 1 v AND 7, pit_low := None\<rparr> else t)"

definition pit_data :: "u8 \<Rightarrow> pit \<Rightarrow> pit" where
  "pit_data v t =
     (if pit_access t = 3
      then (case pit_low t of None \<Rightarrow> t\<lparr>pit_low := Some v\<rparr>
            | Some l \<Rightarrow> t\<lparr>pit_low := None, pit_count := ucast l OR push_bit 8 (ucast v)\<rparr>)
      else t\<lparr>pit_count := if pit_access t = 1 then ucast v else push_bit 8 (ucast v)\<rparr>)"

definition pit_hz :: "pit \<Rightarrow> nat" where
  "pit_hz t = 1193182 div (if pit_count t = 0 then 65536 else unat (pit_count t))"

subsection \<open>The ports\<close>

record chips =
  ch_master :: pic
  ch_slave :: pic
  ch_timer :: pit

definition chip_write :: "u16 \<Rightarrow> u8 \<Rightarrow> chips \<Rightarrow> chips" where
  "chip_write p v c =
     (if p = 0x20 then c\<lparr>ch_master := pic_command v (ch_master c)\<rparr>
      else if p = 0x21 then c\<lparr>ch_master := pic_data v (ch_master c)\<rparr>
      else if p = 0xA0 then c\<lparr>ch_slave := pic_command v (ch_slave c)\<rparr>
      else if p = 0xA1 then c\<lparr>ch_slave := pic_data v (ch_slave c)\<rparr>
      else if p = 0x43 then c\<lparr>ch_timer := pit_control v (ch_timer c)\<rparr>
      else if p = 0x40 then c\<lparr>ch_timer := pit_data v (ch_timer c)\<rparr>
      else c)"

fun chip_access :: "access \<Rightarrow> chips \<Rightarrow> chips" where
  "chip_access (Out8 p v) c = chip_write p v c"
| "chip_access _ c = c"

definition programmed :: "trace \<Rightarrow> chips \<Rightarrow> chips" where
  "programmed tr c = fold chip_access tr c"

text \<open>
  What the two controllers make of a request line: its vector, if it gets through. The slave sits
  on the line of the master that both cascade words name.
\<close>

definition request_vector :: "chips \<Rightarrow> nat \<Rightarrow> u8 option" where
  "request_vector c i =
     (let m = ch_master c; s = ch_slave c; line = unat (pic_cascade s AND 7)
      in if pic_phase m \<noteq> Ready \<or> \<not> pic_8086 m then None
         else if i < 8 then (if bit (pic_mask m) i \<or> bit (pic_cascade m) i then None else Some (pic_base m + of_nat i))
         else if i < 16 \<and> pic_phase s = Ready \<and> pic_8086 s \<and> bit (pic_cascade m) line \<and> \<not> bit (pic_mask m) line
           \<and> \<not> bit (pic_mask s) (i - 8)
         then Some (pic_base s + of_nat (i - 8)) else None)"

subsection \<open>Who programs the chips\<close>

definition to_chips :: "access \<Rightarrow> bool" where
  "to_chips a = (case a of Out8 p _ \<Rightarrow> p \<in> {0x20, 0x21, 0xA0, 0xA1, 0x43, 0x40} | _ \<Rightarrow> False)"

text \<open>The writes of a trace that concern the chips.\<close>

definition chip_part :: "trace \<Rightarrow> trace" where
  "chip_part tr = filter to_chips tr"

lemma chip_part_simps [simp]: "chip_part [] = []" "chip_part (tr @ us) = chip_part tr @ chip_part us"
  "chip_part (Out8 p v # tr) = (if p \<in> {0x20, 0x21, 0xA0, 0xA1, 0x43, 0x40} then Out8 p v # chip_part tr else chip_part tr)"
  "chip_part (In8 p v # tr) = chip_part tr"
  by (simp_all add: chip_part_def to_chips_def)

lemma chip_access_other: "\<not> to_chips a \<Longrightarrow> chip_access a c = c"
  by (cases a) (simp_all add: to_chips_def chip_write_def)

lemma programmed_part: "programmed (chip_part tr) c = programmed tr c"
  unfolding programmed_def chip_part_def by (induction tr arbitrary: c) (simp_all add: chip_access_other)

lemma programmed_append: "programmed (tr @ us) c = programmed us (programmed tr c)"
  by (simp add: programmed_def)

text \<open>The screen writes only to its own ports.\<close>

definition vga_chips :: "vga \<Rightarrow> trace" where
  "vga_chips v = chip_part (vga_trace v)"

lemma vga_chips_fold: "(\<And>x v. vga_trace (f x v) = vga_trace v) \<Longrightarrow> vga_trace (fold f xs v) = vga_trace v"
  by (induction xs arbitrary: v) simp_all

lemma vga_chips_buffer: "vga_trace (vga_scroll v) = vga_trace v" "vga_trace (put_glyph c v) = vga_trace v"
  by (simp_all add: vga_scroll_def Let_def vga_chips_fold copy_cell_def blank_cell_def put_glyph_def)

lemma vga_chips_move [simp]: "vga_chips (vga_move_cursor x y v) = vga_chips v"
  by (simp add: vga_chips_def vga_move_cursor_def Let_def outb_def)

lemma vga_chips_putchar [simp]: "vga_chips (vga_putchar c v) = vga_chips v"
  unfolding vga_putchar_def Let_def vga_chips_move by (simp add: vga_chips_def vga_chips_buffer)

lemma vga_chips_repeat: "vga_chips (fold (\<lambda>_. vga_putchar c) xs v) = vga_chips v"
  by (induction xs arbitrary: v) simp_all

lemma vga_chips_put [simp]: "vga_chips (put_bytes s v) = vga_chips v" "vga_chips (put_pad c l w v) = vga_chips v"
  "vga_chips (put_literal t v) = vga_chips v"
proof -
  show "vga_chips (put_bytes s v) = vga_chips v" for s by (induction s arbitrary: v) simp_all
  then show "vga_chips (put_literal t v) = vga_chips v" by (simp add: put_literal_def)
qed (simp add: put_pad_def vga_chips_repeat)

lemma vga_chips_init [simp]: "vga_chips (vga_init v) = vga_chips v" "vga_chips (vga_setcolor c v) = vga_chips v"
  unfolding vga_init_def vga_clear_def Let_def vga_chips_move
  by (simp_all add: vga_chips_def vga_chips_fold blank_cell_def vga_setcolor_def)

lemma vga_chips_puts: "vga_puts m p v = Some v' \<Longrightarrow> vga_chips v' = vga_chips v"
proof (rule vga_puts.raw_induct [where P = "\<lambda>m p v v'. vga_chips v' = vga_chips v"], assumption?)
  fix f m p v v'
  assume IH: "\<And>m p v v'. f m p v = Some v' \<Longrightarrow> vga_chips v' = vga_chips v"
    and "(if m p \<noteq> 0 then f m (p + 1) (vga_putchar (m p) v) else Some v) = Some v'"
  then show "vga_chips v' = vga_chips v" by (auto split: if_splits dest: IH)
qed

text \<open>So does \<open>printf\<close>, whatever it is given.\<close>

lemma printf_number_chips: "printf_number bp n b w z st = Some st' \<Longrightarrow> vga_chips (snd st') = vga_chips (snd st)"
  by (auto simp: printf_number_def split: prod.splits option.splits dest!: vga_chips_puts)

lemma printf_signed_chips: "printf_signed bp n w z st = Some st' \<Longrightarrow> vga_chips (snd st') = vga_chips (snd st)"
  by (auto simp: printf_signed_def split: if_splits prod.splits dest!: printf_number_chips)

lemma printf_string_chips: "printf_string p w st = Some st' \<Longrightarrow> vga_chips (snd st') = vga_chips (snd st)"
  by (auto simp: printf_string_def split: if_splits prod.splits option.splits dest!: vga_chips_puts)

lemma printf_directive_chips:
  "printf_directive bp c w z args k st = Some (k', st') \<Longrightarrow> vga_chips (snd st') = vga_chips (snd st)"
  by (cases st) (auto simp: printf_directive_def split: if_splits
      dest!: printf_number_chips printf_signed_chips printf_string_chips)

lemma printf_chips: "printf bp fmt args st = Some st' \<Longrightarrow> vga_chips (snd st') = vga_chips (snd st)"
  unfolding printf_def
proof (erule printf_loop.raw_induct [where P = "\<lambda>bp args fmt k st st'. vga_chips (snd st') = vga_chips (snd st)", rotated])
  fix f bp args fmt k and st :: pf and st'
  assume IH: "\<And>bp args fmt k st st'. f bp args fmt k st = Some st' \<Longrightarrow> vga_chips (snd st') = vga_chips (snd st)"
    and eq: "(case st of (m, v) \<Rightarrow>
        if m fmt = 0 then Some st
        else if m fmt \<noteq> 37 then f bp args (fmt + 1) k (m, vga_putchar (m fmt) v)
        else
          let fmt1 = fmt + 1; pad_zero = (m fmt1 = 48); fmt2 = (if pad_zero then fmt1 + 1 else fmt1)
          in (case parse_width m fmt2 0 of None \<Rightarrow> None
              | Some (width, fmt3) \<Rightarrow> (case printf_directive bp (m fmt3) width pad_zero args k st of None \<Rightarrow> None
                   | Some (k', st') \<Rightarrow> f bp args (fmt3 + 1) k' st'))) = Some st'"
  show "vga_chips (snd st') = vga_chips (snd st)"
  proof (cases st)
    case (Pair m v)
    then show ?thesis using eq
      by (auto simp: Let_def split: if_splits option.splits prod.splits dest!: IH printf_directive_chips)
  qed
qed

text \<open>The disk driver has ports of its own.\<close>

lemma status_reads_chips: "status_reads tr \<Longrightarrow> chip_part tr = []"
  by (auto simp: status_reads_def chip_part_def to_chips_def filter_empty_conv)

lemma wait_drq_chips: "wait_drq dev st tr = Some tr' \<Longrightarrow> chip_part tr' = chip_part tr"
proof (erule wait_drq.raw_induct [where P = "\<lambda>dev st tr tr'. chip_part tr' = chip_part tr", rotated])
  fix f dev st tr tr'
  assume IH: "\<And>dev st tr tr'. f dev st tr = Some tr' \<Longrightarrow> chip_part tr' = chip_part tr"
    and "(if st AND 0x08 = 0 then f dev (fst (inb dev ATA_PRIMARY_STATUS tr)) (snd (inb dev ATA_PRIMARY_STATUS tr))
      else Some tr) = Some tr'"
  then show "chip_part tr' = chip_part tr" by (auto simp: inb_trace split: if_splits dest: IH)
qed

lemma identify_chips: "chip_part (identify tr) = chip_part tr"
  by (simp add: identify_def outb_def ATA_PRIMARY_COMMAND_def ATA_PRIMARY_LBA_HI_def ATA_PRIMARY_LBA_MID_def
      ATA_PRIMARY_LBA_LO_def ATA_PRIMARY_SECTORS_def ATA_PRIMARY_DRIVE_def)

lemma ata_init_chips: "ata_init dev st = Some (r, st') \<Longrightarrow> chip_part (ata_trace st') = chip_part (ata_trace st)"
proof -
  assume run: "ata_init dev st = Some (r, st')"
  obtain status tr where s: "inb dev ATA_PRIMARY_STATUS (identify (ata_trace st)) = (status, tr)" by fastforce
  then have tr: "chip_part tr = chip_part (ata_trace st)"
    using inb_trace [of dev ATA_PRIMARY_STATUS "identify (ata_trace st)"] by (simp add: identify_chips)
  have busy: "chip_part tr1 = chip_part tr" if "wait_busy_err dev status tr = Some (e, s1, tr1)" for e s1 tr1
    using wait_busy_err_trace [OF that] status_reads_chips by fastforce
  show ?thesis
    using run tr by (auto simp: ata_init_def s split: if_splits option.splits dest!: busy wait_drq_chips)
qed

subsection \<open>What the boot programs\<close>

definition irq_writes :: trace where
  "irq_writes = irq_init []"

definition timer_writes :: "u32 \<Rightarrow> trace" where
  "timer_writes freq = (let d = 1193180 div freq
     in [Out8 0x43 0x36, Out8 0x40 (ucast (d AND 0xFF)), Out8 0x40 (ucast (drop_bit 8 d AND 0xFF))])"

lemma irq_init_chips: "chip_part (irq_init tr) = chip_part tr @ irq_writes"
  by (simp add: irq_writes_def irq_init_def outb_def)

lemma timer_init_chips:
  "timer_init freq h tm H tr = Some (tm', H', tr') \<Longrightarrow> chip_part tr' = chip_part tr @ timer_writes freq"
  by (auto simp: timer_init_def timer_writes_def outb_def Let_def split: if_splits)

lemma pit_hundred: "pit_hz (ch_timer (programmed (timer_writes 100) c)) = 100"
  "pit_mode (ch_timer (programmed (timer_writes 100) c)) = 3" "pit_count (ch_timer (programmed (timer_writes 100) c)) = 11931"
  by (simp_all add: programmed_def timer_writes_def chip_write_def pit_control_def pit_data_def pit_hz_def Let_def)

lemma requests_remapped:
  "list_all (\<lambda>i. request_vector (programmed (irq_writes @ timer_writes freq) c) i
     = (if i = 2 then None else Some (of_nat (32 + i)))) [0..<16]"
proof -
  have m: "ch_master (programmed (irq_writes @ timer_writes freq) c)
      = \<lparr>pic_phase = Ready, pic_single = False, pic_asks_mode = True, pic_base = 32, pic_cascade = 4, pic_8086 = True, pic_mask = 0\<rparr>"
    "ch_slave (programmed (irq_writes @ timer_writes freq) c)
      = \<lparr>pic_phase = Ready, pic_single = False, pic_asks_mode = True, pic_base = 40, pic_cascade = 2, pic_8086 = True, pic_mask = 0\<rparr>"
    by (simp_all add: programmed_def irq_writes_def irq_init_def outb_def timer_writes_def chip_write_def
        pic_command_def pic_data_def Let_def)
  show ?thesis by (simp add: upt_conv_Cons request_vector_def m)
qed

end
