(* ===== verification/Kernel.thy ===== *)
theory Kernel
  imports Descriptors Controllers Syscall Shell
begin

text \<open>
  The kernel as a whole, \<open>kernel/kernel.c\<close>: the state of all components and \<open>kernel_main\<close>, the
  boot sequence that initialises them in order, mounts the file system and runs the shell.
\<close>

subsection \<open>State\<close>

datatype handler = Timer_Handler | Keyboard_Handler

record kernel =
  kn_sys :: "handler sys"
  kn_gdt :: gdt_state
  kn_idt :: idt_state
  kn_timer :: timer
  kn_kbd :: keyboard
  kn_drive :: bool
  kn_hist_count :: nat
  kn_hist_idx :: nat

text \<open>
  What the image and the processor fix: the environment of the shell (with the addresses of the
  literals and the devices), the addresses of the descriptor tables and of the interrupt stubs,
  and the values of two locals before they are written.
\<close>

record kenv =
  ke_sh :: shenv
  ke_gdt :: u32
  ke_idt :: u32
  ke_stub :: "nat \<Rightarrow> u32"
  ke_tmp :: u32
  ke_args :: "nat \<Rightarrow> ptr"

definition kn_mem :: "kernel \<Rightarrow> mem" where
  "kn_mem k = sys_mem (kn_sys k)"

definition kn_mm :: "kernel \<Rightarrow> handler mm" where
  "kn_mm k = tk_mm (sy_tasks (kn_sys k))"

definition upd_kn_tasks :: "(handler tasks \<Rightarrow> handler tasks) \<Rightarrow> kernel \<Rightarrow> kernel" where
  "upd_kn_tasks f k = k\<lparr>kn_sys := (kn_sys k)\<lparr>sy_tasks := f (sy_tasks (kn_sys k))\<rparr>\<rparr>"

definition upd_kn_mm :: "(handler mm \<Rightarrow> handler mm) \<Rightarrow> kernel \<Rightarrow> kernel" where
  "upd_kn_mm f = upd_kn_tasks (\<lambda>t. t\<lparr>tk_mm := f (tk_mm t)\<rparr>)"

definition upd_kn_mem :: "(mem \<Rightarrow> mem) \<Rightarrow> kernel \<Rightarrow> kernel" where
  "upd_kn_mem f = upd_kn_mm (\<lambda>M. M\<lparr>mm_frames := (mm_frames M)\<lparr>fr_mem := f (fr_mem (mm_frames M))\<rparr>\<rparr>)"

definition upd_kn_handlers :: "(handler handlers \<Rightarrow> handler handlers) \<Rightarrow> kernel \<Rightarrow> kernel" where
  "upd_kn_handlers f = upd_kn_mm (\<lambda>M. M\<lparr>mm_handlers := f (mm_handlers M)\<rparr>)"

definition upd_kn_vga :: "(vga \<Rightarrow> vga) \<Rightarrow> kernel \<Rightarrow> kernel" where
  "upd_kn_vga f k = k\<lparr>kn_sys := (kn_sys k)\<lparr>sy_vga := f (sy_vga (kn_sys k))\<rparr>\<rparr>"

definition kn_trace :: "kernel \<Rightarrow> trace" where
  "kn_trace k = vga_trace (sy_vga (kn_sys k))"

definition upd_kn_trace :: "(trace \<Rightarrow> trace) \<Rightarrow> kernel \<Rightarrow> kernel" where
  "upd_kn_trace f = upd_kn_vga (\<lambda>v. v\<lparr>vga_trace := f (vga_trace v)\<rparr>)"

subsection \<open>The steps of the boot\<close>

definition kn_print :: "kenv \<Rightarrow> string \<Rightarrow> u32 list \<Rightarrow> kernel \<Rightarrow> kernel option" where
  "kn_print env s vs k =
     map_option (\<lambda>(m, v). upd_kn_mem (\<lambda>_. m) (upd_kn_vga (\<lambda>_. v) k))
       (printf (se_bp (ke_sh env)) (se_lit (ke_sh env) s) (\<lambda>i. if i < length vs then vs ! i else 0)
         (kn_mem k, sy_vga (kn_sys k)))"

definition kn_gdt_init :: "kenv \<Rightarrow> kernel \<Rightarrow> kernel" where
  "kn_gdt_init env k = k\<lparr>kn_gdt := gdt_init (ke_gdt env) (kn_gdt k)\<rparr>"

definition kn_idt_init :: "kenv \<Rightarrow> kernel \<Rightarrow> kernel" where
  "kn_idt_init env k = k\<lparr>kn_idt := idt_init (ke_idt env) (ke_stub env) (kn_idt k)\<rparr>"

definition kn_timer_init :: "u32 \<Rightarrow> kernel \<Rightarrow> kernel option" where
  "kn_timer_init freq k =
     map_option (\<lambda>(tm, H, tr). upd_kn_handlers (\<lambda>_. H) (upd_kn_trace (\<lambda>_. tr) (k\<lparr>kn_timer := tm\<rparr>)))
       (timer_init freq Timer_Handler (kn_timer k) (mm_handlers (kn_mm k)) (kn_trace k))"

definition kn_ata_init :: "kenv \<Rightarrow> kernel \<Rightarrow> kernel option" where
  "kn_ata_init env k =
     map_option (\<lambda>(r, a). upd_kn_trace (\<lambda>_. ata_trace a) (k\<lparr>kn_drive := ata_drive_present a\<rparr>))
       (ata_init (se_dev (ke_sh env))
         \<lparr>ata_drive_present = kn_drive k, ata_mem = kn_mem k, ata_trace = kn_trace k\<rparr>)"

definition kn_fs_init :: "kenv \<Rightarrow> kernel \<Rightarrow> kernel panicking option" where
  "kn_fs_init env k =
     pbind (fs_init (se_lit (ke_sh env)) (sys_fs (kn_sys k))) (\<lambda>fs.
       preturn (upd_kn_mem (\<lambda>_. fs_mem fs) (upd_kn_mm (\<lambda>M. M\<lparr>mm_heap := fs_heap fs\<rparr>)
         (k\<lparr>kn_sys := (kn_sys k)\<lparr>sy_vfs := fs\<rparr>\<rparr>))))"

definition kn_paging :: "kenv \<Rightarrow> kernel \<Rightarrow> kernel panicking option" where
  "kn_paging env k =
     map_option (map_sum id (\<lambda>M. upd_kn_mm (\<lambda>_. M) k)) (mm_init_paging (ke_tmp env) (kn_mm k))"

definition kn_shell :: "kernel \<Rightarrow> shell" where
  "kn_shell k = \<lparr>sh_frames = mm_frames (kn_mm k), sh_vga = sy_vga (kn_sys k), sh_kbd = kn_kbd k,
     sh_timer = kn_timer k, hist_count = kn_hist_count k, hist_idx = kn_hist_idx k\<rparr>"

definition kn_shell_run :: "kenv \<Rightarrow> kernel \<Rightarrow> kernel option" where
  "kn_shell_run env k =
     map_option (\<lambda>s. upd_kn_mm (\<lambda>M. M\<lparr>mm_frames := sh_frames s\<rparr>) (upd_kn_vga (\<lambda>_. sh_vga s)
         (k\<lparr>kn_kbd := sh_kbd s, kn_timer := sh_timer s, kn_hist_count := hist_count s, kn_hist_idx := hist_idx s\<rparr>)))
       (shell_run (ke_sh env) (ke_args env) (kn_shell k))"

subsection \<open>The boot sequence\<close>

text \<open>A step that cannot fail, followed by its message.\<close>

definition kn_step :: "kenv \<Rightarrow> (kernel \<Rightarrow> kernel) \<Rightarrow> string \<Rightarrow> kernel \<Rightarrow> kernel option" where
  "kn_step env f s k = kn_print env s [] (f k)"

definition version_args :: "kenv \<Rightarrow> u32 list" where
  "version_args env = map (se_lit (ke_sh env)) [KERNEL_NAME, KERNEL_VERSION, KERNEL_CODENAME]"

definition boot_devices :: "kenv \<Rightarrow> kernel \<Rightarrow> kernel option" where
  "boot_devices env k0 =
     Option.bind (kn_print env ''Booting %s v%s (%s)...\<newline>'' (version_args env)
       (upd_kn_vga (\<lambda>v. vga_setcolor 0x07 (vga_init v)) k0)) (\<lambda>k1.
     Option.bind (kn_step env (kn_gdt_init env) ''[OK] GDT initialized\<newline>'' k1) (\<lambda>k2.
     Option.bind (kn_step env (kn_idt_init env) ''[OK] IDT initialized\<newline>'' k2) (\<lambda>k3.
     Option.bind (kn_step env (upd_kn_handlers isr_init) ''[OK] ISR handlers ready\<newline>'' k3) (\<lambda>k4.
     Option.bind (kn_step env (upd_kn_trace irq_init) ''[OK] IRQ remapped\<newline>'' k4) (\<lambda>k5.
     Option.bind (kn_timer_init 100 k5) (\<lambda>k6.
     Option.bind (kn_print env ''[OK] PIT timer at 100Hz\<newline>'' [] k6) (\<lambda>k7.
     Option.bind (kn_step env (upd_kn_handlers (keyboard_init Keyboard_Handler))
       ''[OK] PS/2 keyboard driver loaded\<newline>'' k7) (\<lambda>k8.
     Option.bind (kn_ata_init env k8) (\<lambda>k9.
     Option.bind (kn_print env ''[OK] ATA disk driver initialized\<newline>'' [] k9) (\<lambda>k10.
     kn_step env (upd_kn_handlers syscall_init) ''[OK] System call interface ready\<newline>'' k10))))))))))"

text \<open>\<open>8 * 1024 * 1024 * 1024ULL\<close> in a \<open>uint32_t\<close>.\<close>

definition mem_size :: u32 where
  "mem_size = of_nat (8 * 1024 * 1024 * 1024)"

definition boot_memory :: "kenv \<Rightarrow> kernel \<Rightarrow> kernel option" where
  "boot_memory env k =
     kn_print env ''[OK] Memory manager: %d MB total\<newline>'' [mem_size div 1024 div 1024]
       (upd_kn_mm (\<lambda>M. M\<lparr>mm_frames := mm_init mem_size 0x100000 (mm_frames M)\<rparr>) k)"

text \<open>A call that may not return, among calls that may panic.\<close>

definition oreturn :: "'a option \<Rightarrow> 'a panicking option" where
  "oreturn = map_option Inr"

text \<open>\<open>Some (Inr k)\<close>: the shell has ended and the processor halts for good.\<close>

definition kernel_main :: "kenv \<Rightarrow> kernel \<Rightarrow> kernel panicking option" where
  "kernel_main env k0 =
     pbind (oreturn (Option.bind (boot_devices env k0) (boot_memory env))) (\<lambda>k1.
     pbind (kn_paging env k1) (\<lambda>k2.
     pbind (oreturn (kn_print env ''[OK] Paging enabled\<newline>'' [] k2)) (\<lambda>k3.
     pbind (oreturn (kn_step env (upd_kn_tasks task_init) ''[OK] Task scheduler initialized\<newline>'' k3)) (\<lambda>k4.
     pbind (kn_fs_init env k4) (\<lambda>k5.
     pbind (oreturn (kn_print env ''[OK] Virtual filesystem mounted\<newline>'' [] k5)) (\<lambda>k6.
     pbind (oreturn (kn_print env ''\<newline>%s v%s (%s)\<newline>'' (version_args env) k6)) (\<lambda>k7.
     pbind (oreturn (kn_print env ''Kernel loaded successfully.\<newline>\<newline>'' [] k7)) (\<lambda>k8.
     oreturn (kn_shell_run env k8)))))))))"

subsection \<open>The state during the boot\<close>

lemma kn_simps [simp]:
  "kn_mem (upd_kn_mem f k) = f (kn_mem k)" "kn_mem (upd_kn_vga g k) = kn_mem k"
  "kn_mm (upd_kn_mm h k) = h (kn_mm k)" "kn_mm (upd_kn_vga g k) = kn_mm k"
  "kn_mem (upd_kn_handlers e k) = kn_mem k" "kn_mem (upd_kn_trace t k) = kn_mem k" "kn_mm (upd_kn_trace t k) = kn_mm k"
  "kn_mem (k\<lparr>kn_timer := tm\<rparr>) = kn_mem k" "kn_mm (k\<lparr>kn_timer := tm\<rparr>) = kn_mm k"
  "kn_mem (k\<lparr>kn_drive := d\<rparr>) = kn_mem k" "kn_mm (k\<lparr>kn_drive := d\<rparr>) = kn_mm k"
  "kn_mem (kn_gdt_init env k) = kn_mem k" "kn_mm (kn_gdt_init env k) = kn_mm k"
  "kn_mem (kn_idt_init env k) = kn_mem k" "kn_mm (kn_idt_init env k) = kn_mm k"
  by (simp_all add: kn_mem_def sys_mem_def kn_mm_def upd_kn_mem_def upd_kn_vga_def upd_kn_mm_def upd_kn_tasks_def
      upd_kn_handlers_def upd_kn_trace_def kn_gdt_init_def kn_idt_init_def)

text \<open>The texts printed up to the initialisation of paging, and its panic message.\<close>

definition boot_texts :: "string list" where
  "boot_texts = [''Booting %s v%s (%s)...\<newline>'', KERNEL_NAME, KERNEL_VERSION, KERNEL_CODENAME,
     ''[OK] GDT initialized\<newline>'', ''[OK] IDT initialized\<newline>'', ''[OK] ISR handlers ready\<newline>'',
     ''[OK] IRQ remapped\<newline>'', ''[OK] PIT timer at 100Hz\<newline>'', ''[OK] PS/2 keyboard driver loaded\<newline>'',
     ''[OK] ATA disk driver initialized\<newline>'', ''[OK] System call interface ready\<newline>'',
     ''[OK] Memory manager: %d MB total\<newline>'', ''Out of memory'']"

text \<open>
  The layout the boot needs: the texts are in memory, outside the local buffer of \<open>printf\<close> and
  the 8192 bytes \<open>mm_init\<close> clears.
\<close>

definition boot_layout :: "kenv \<Rightarrow> mem \<Rightarrow> bool" where
  "boot_layout env m \<longleftrightarrow> unat (se_bp (ke_sh env)) + 34 \<le> 2 ^ 32
     \<and> list_all (\<lambda>s. cstr m (se_lit (ke_sh env) s) (bytes s) \<and> se_lit (ke_sh env) s \<noteq> 0
         \<and> region (se_lit (ke_sh env) s) (Suc (length (bytes s))) \<inter> region (se_bp (ke_sh env)) 32 = {}
         \<and> region (se_lit (ke_sh env) s) (Suc (length (bytes s))) \<inter> region 0x100000 8192 = {}) boot_texts"

definition booting :: "kenv \<Rightarrow> kernel \<Rightarrow> bool" where
  "booting env k \<longleftrightarrow> boot_layout env (kn_mem k) \<and> (\<exists>fr B H. kn_mm k = mm_boot fr B H)"

definition boots :: "kenv \<Rightarrow> kernel option \<Rightarrow> bool" where
  "boots env r \<longleftrightarrow> (\<exists>k. r = Some k \<and> booting env k)"

lemma boots_bind: "boots env r \<Longrightarrow> (\<And>k. booting env k \<Longrightarrow> boots env (f k)) \<Longrightarrow> boots env (Option.bind r f)"
  by (auto simp: boots_def)

lemma layout_text:
  assumes "boot_layout env m" and "s \<in> set boot_texts"
  shows "cstr m (se_lit (ke_sh env) s) (bytes s)" "se_lit (ke_sh env) s \<noteq> 0"
    "region (se_lit (ke_sh env) s) (Suc (length (bytes s))) \<inter> region (se_bp (ke_sh env)) 32 = {}"
    "region (se_lit (ke_sh env) s) (Suc (length (bytes s))) \<inter> region 0x100000 8192 = {}"
  using assms by (auto simp: boot_layout_def list_all_iff)

lemma layout_kept:
  assumes "boot_layout env m" and "\<And>a. a \<notin> region (se_bp (ke_sh env)) 32 \<union> region 0x100000 8192 \<Longrightarrow> m' a = m a"
  shows "boot_layout env m'"
proof -
  have "cstr m' (se_lit (ke_sh env) s) (bytes s)" if "s \<in> set boot_texts" for s
  proof -
    note t = layout_text [OF assms(1) that]
    have "cstr m' (se_lit (ke_sh env) s) (bytes s) = cstr m (se_lit (ke_sh env) s) (bytes s)"
      by (rule cstr_cong, rule assms(2)) (use t(3,4) in blast)
    then show ?thesis using t(1) by simp
  qed
  then show ?thesis using assms(1) by (simp add: boot_layout_def list_all_iff)
qed

text \<open>The pointers to the texts, as strings \<open>printf\<close> may be given.\<close>

definition boot_strs :: "kenv \<Rightarrow> ptr \<Rightarrow> u8 list option" where
  "boot_strs env p = (case find (\<lambda>s. se_lit (ke_sh env) s = p) boot_texts of
     None \<Rightarrow> None | Some s \<Rightarrow> Some (bytes s))"

lemma boot_strs_ok: "boot_layout env m \<Longrightarrow> strings_at (se_bp (ke_sh env)) m (boot_strs env)"
proof -
  assume lay: "boot_layout env m"
  have short: "list_all (\<lambda>s. length s < 64) boot_texts" by code_simp
  show ?thesis unfolding strings_at_def
  proof (intro allI impI)
    fix p t assume "boot_strs env p = Some t"
    then obtain s where s: "s \<in> set boot_texts" "se_lit (ke_sh env) s = p" "t = bytes s"
      unfolding boot_strs_def by (auto simp: find_Some_iff split: option.splits dest: nth_mem)
    then show "cstr m p t \<and> length t < 2 ^ 31 \<and> region p (Suc (length t)) \<inter> region (se_bp (ke_sh env)) 32 = {}"
      using layout_text [OF lay s(1)] short by (auto simp: list_all_iff bytes_def)
  qed
qed

lemma boot_strs_text: "s \<in> set boot_texts \<Longrightarrow> \<exists>t. boot_strs env (se_lit (ke_sh env) s) = Some t"
  by (cases "find (\<lambda>t. se_lit (ke_sh env) t = se_lit (ke_sh env) s) boot_texts")
    (auto simp: boot_strs_def find_None_iff)

lemma kn_print_boots:
  assumes k: "booting env k" and s: "s \<in> set boot_texts"
    and out: "render (boot_strs env) (\<lambda>i. if i < length vs then vs ! i else 0) 0 (bytes s) = Some t"
  shows "boots env (kn_print env s vs k)"
proof -
  obtain fr B H where lay: "boot_layout env (kn_mem k)" and mm: "kn_mm k = mm_boot fr B H"
    using k by (auto simp: booting_def)
  note t = layout_text [OF lay s]
  have "unat (se_bp (ke_sh env)) + 34 \<le> 2 ^ 32" using lay by (simp add: boot_layout_def)
  from printf_loop_prints [OF this out t(1,3) boot_strs_ok [OF lay], of "sy_vga (kn_sys k)"] obtain m' where
    p: "printf (se_bp (ke_sh env)) (se_lit (ke_sh env) s) (\<lambda>i. if i < length vs then vs ! i else 0)
        (kn_mem k, sy_vga (kn_sys k)) = Some (m', put_bytes t (sy_vga (kn_sys k)))"
    and m': "\<forall>a. a \<notin> region (se_bp (ke_sh env)) 32 \<longrightarrow> m' a = kn_mem k a"
    by (auto simp: printf_def agree_def)
  have "boot_layout env m'" by (rule layout_kept [OF lay]) (use m' in blast)
  moreover have "kn_mm (upd_kn_mem (\<lambda>_. m') k') = mm_boot (fr\<lparr>fr_mem := m'\<rparr>) B H" if "kn_mm k' = mm_boot fr B H" for k'
    using that by (simp add: upd_kn_mem_def mm_boot_def)
  ultimately show ?thesis using p mm unfolding boots_def kn_print_def booting_def by fastforce
qed


lemma print_plain:
  assumes "booting env k" and "s \<in> set boot_texts" and "37 \<notin> set (bytes s)"
  shows "boots env (kn_print env s [] k)"
proof (rule kn_print_boots [OF assms(1,2)])
  have "render strs args j f = Some f" if "37 \<notin> set f" for strs args j f
    using that by (induction f) auto
  then show "render (boot_strs env) (\<lambda>i. if i < length [] then [] ! i else 0) 0 (bytes s) = Some (bytes s)"
    using assms(3) by blast
qed

lemma step_plain:
  "booting env (f k) \<Longrightarrow> s \<in> set boot_texts \<Longrightarrow> 37 \<notin> set (bytes s) \<Longrightarrow> boots env (kn_step env f s k)"
  unfolding kn_step_def by (rule print_plain)

lemma booting_steps:
  assumes "booting env k"
  shows "booting env (upd_kn_vga g k)" "booting env (upd_kn_trace t k)" "booting env (kn_gdt_init env k)"
    "booting env (kn_idt_init env k)" "booting env (upd_kn_handlers h k)" "booting env (k\<lparr>kn_timer := tm\<rparr>)"
    "booting env (k\<lparr>kn_drive := d\<rparr>)"
proof -
  obtain fr B H where "kn_mm k = mm_boot fr B H" using assms by (auto simp: booting_def)
  then have "kn_mm (upd_kn_handlers h k) = mm_boot fr B (h H)" by (simp add: upd_kn_handlers_def mm_boot_def)
  then show "booting env (upd_kn_handlers h k)" using assms unfolding booting_def by auto
qed (use assms in \<open>simp_all add: booting_def\<close>)

lemma render_s: "strs (args k) = Some a \<Longrightarrow> args k \<noteq> 0 \<Longrightarrow>
    render strs args k (37 # 115 # f) = map_option (append (pad_l 32 0 a)) (render strs args (Suc k) f)"
  by (simp add: render.simps(2) is_digit_def directive_l_def)

lemma render_d: "render strs args k (37 # 100 # f) = map_option (append (signed_l (args k) 0 False)) (render strs args (Suc k) f)"
  by (simp add: render.simps(2) is_digit_def directive_l_def)

lemma render_banner:
  assumes "strs (args 0) = Some a" "strs (args (Suc 0)) = Some b" "strs (args (Suc (Suc 0))) = Some c"
    and "args 0 \<noteq> 0" "args (Suc 0) \<noteq> 0" "args (Suc (Suc 0)) \<noteq> 0"
  shows "\<exists>t. render strs args 0 (bytes ''Booting %s v%s (%s)...\<newline>'') = Some t"
  using assms by (simp add: bytes_def render_s)

lemma render_memory: "\<exists>t. render strs args 0 (bytes ''[OK] Memory manager: %d MB total\<newline>'') = Some t"
  by (simp add: bytes_def render_d)

subsection \<open>The memory manager at boot\<close>

lemma mm_init_rest:
  assumes "unat (sz div PAGE_SIZE) < 8" and "a \<notin> region p 8192"
  shows "fr_mem (mm_init sz p fr) a = fr_mem fr a"
proof -
  define j where "j = unat (a - p)"
  have a: "a = p + of_nat j" by (simp add: j_def)
  have "\<not> j < 8192" using assms(2) region_memI [of j 8192 p] unfolding a by blast
  then have j: "8192 \<le> j" "j < 2 ^ 32" using unat_u32_less [of "a - p"] by (simp_all add: j_def)
  have "bit (fr_mem (mm_init sz p fr) a) b = bit (fr_mem fr a) b" if "b < 8" for b
  proof -
    have "(8 * j + b) div 8 = j" "(8 * j + b) mod 8 = b" "8 * j + b < 2 ^ 35" "0x10000 \<le> 8 * j + b"
      using that j by auto
    then show ?thesis using mm_init_bit [of "8 * j + b" sz p fr] assms(1) by (simp add: frame_bit_def a)
  qed
  then show ?thesis by (intro bit_word_eqI) simp
qed

definition memory_ready :: "kenv \<Rightarrow> kernel \<Rightarrow> bool" where
  "memory_ready env k \<longleftrightarrow> (\<exists>fr B H. kn_mm k = mm_boot fr B H \<and> total_memory fr = mem_size
     \<and> total_blocks fr = mem_size div PAGE_SIZE \<and> used_blocks fr = 0x10000)"

lemma mem_size_0: "mem_size = 0"
  by (simp add: mem_size_def)

lemma boot_memory_booting:
  assumes "booting env k"
  shows "booting env (upd_kn_mm (\<lambda>M. M\<lparr>mm_frames := mm_init mem_size 0x100000 (mm_frames M)\<rparr>) k)"
proof -
  let ?f = "\<lambda>M. M\<lparr>mm_frames := mm_init mem_size 0x100000 (mm_frames M)\<rparr>"
  obtain fr B H where mm: "kn_mm k = mm_boot fr B H" and lay: "boot_layout env (kn_mem k)"
    using assms by (auto simp: booting_def)
  have mem: "kn_mem k = fr_mem fr" using mm by (simp add: kn_mem_def sys_mem_def kn_mm_def mm_boot_def)
  have mm1: "kn_mm (upd_kn_mm ?f k) = mm_boot (mm_init mem_size 0x100000 fr) B H" using mm by (simp add: mm_boot_def)
  have mem1: "kn_mem (upd_kn_mm ?f k) = fr_mem (mm_init mem_size 0x100000 fr)"
    using mm1 by (simp add: kn_mem_def sys_mem_def kn_mm_def mm_boot_def)
  have "boot_layout env (kn_mem (upd_kn_mm ?f k))"
    unfolding mem1 by (rule layout_kept [OF lay]) (simp add: mem mm_init_rest mem_size_0)
  then show ?thesis using mm1 by (auto simp: booting_def)
qed

lemma boot_memory_ready:
  assumes "booting env k"
  shows "\<exists>k'. boot_memory env k = Some k' \<and> memory_ready env k'"
proof -
  let ?f = "\<lambda>M. M\<lparr>mm_frames := mm_init mem_size 0x100000 (mm_frames M)\<rparr>"
  obtain fr B H where mm: "kn_mm k = mm_boot fr B H" using assms by (auto simp: booting_def)
  have mm1: "kn_mm (upd_kn_mm ?f k) = mm_boot (mm_init mem_size 0x100000 fr) B H" using mm by (simp add: mm_boot_def)
  have b: "booting env (upd_kn_mm ?f k)" by (rule boot_memory_booting [OF assms])
  have s: "''[OK] Memory manager: %d MB total\<newline>'' \<in> set boot_texts" by (simp add: boot_texts_def)
  obtain t where "render (boot_strs env) (\<lambda>i. if i < length [mem_size div 1024 div 1024] then [mem_size div 1024 div 1024] ! i else 0)
      0 (bytes ''[OK] Memory manager: %d MB total\<newline>'') = Some t" using render_memory by blast
  from kn_print_boots [OF b s this] obtain k' where k': "boot_memory env k = Some k'"
    unfolding boots_def boot_memory_def by blast
  then obtain m v where "k' = upd_kn_mem (\<lambda>_. m) (upd_kn_vga (\<lambda>_. v) (upd_kn_mm ?f k))"
    by (auto simp: boot_memory_def kn_print_def)
  then have "kn_mm k' = mm_boot ((mm_init mem_size 0x100000 fr)\<lparr>fr_mem := m\<rparr>) B H"
    using mm1 by (simp add: upd_kn_mem_def mm_boot_def)
  then have "memory_ready env k'" unfolding memory_ready_def
    by (intro exI [of _ "(mm_init mem_size 0x100000 fr)\<lparr>fr_mem := m\<rparr>"] exI) simp
  with k' show ?thesis by blast
qed

lemma memory_ready_panics: "memory_ready env k \<Longrightarrow> kn_paging env k = Some (Inl (bytes ''Out of memory''))"
  by (auto simp: memory_ready_def kn_paging_def frames_ok_def mem_size_0 init_paging_panics)

subsection \<open>The devices at boot\<close>

lemma kn_timer_boots: "booting env k \<Longrightarrow> boots env (kn_timer_init 100 k)"
  by (auto simp: boots_def kn_timer_init_def timer_init_def Let_def booting_steps)

lemma kn_ata_boots:
  assumes "booting env k" and "\<forall>a. ata_init (se_dev (ke_sh env)) a \<noteq> None"
  shows "boots env (kn_ata_init env k)"
proof -
  obtain r a where "ata_init (se_dev (ke_sh env)) \<lparr>ata_drive_present = kn_drive k, ata_mem = kn_mem k, ata_trace = kn_trace k\<rparr>
      = Some (r, a)" using assms(2) by fast
  then show ?thesis using assms(1) by (simp add: boots_def kn_ata_init_def booting_steps)
qed

lemma boot_devices_boots:
  assumes "booting env k" and "\<forall>a. ata_init (se_dev (ke_sh env)) a \<noteq> None"
  shows "boots env (boot_devices env k)"
proof -
  have banner: "boots env (kn_print env ''Booting %s v%s (%s)...\<newline>'' (version_args env) k')" if "booting env k'" for k'
  proof -
    have lay: "boot_layout env (kn_mem k')" using that by (simp add: booting_def)
    have t: "KERNEL_NAME \<in> set boot_texts" "KERNEL_VERSION \<in> set boot_texts" "KERNEL_CODENAME \<in> set boot_texts"
      by (simp_all add: boot_texts_def)
    obtain x y z where "boot_strs env (se_lit (ke_sh env) KERNEL_NAME) = Some x"
      "boot_strs env (se_lit (ke_sh env) KERNEL_VERSION) = Some y" "boot_strs env (se_lit (ke_sh env) KERNEL_CODENAME) = Some z"
      using boot_strs_text t by metis
    then have "\<exists>out. render (boot_strs env) (\<lambda>i. if i < length (version_args env) then version_args env ! i else 0) 0
        (bytes ''Booting %s v%s (%s)...\<newline>'') = Some out"
      using layout_text(2) [OF lay t(1)] layout_text(2) [OF lay t(2)] layout_text(2) [OF lay t(3)]
      by (intro render_banner) (simp_all add: version_args_def)
    then show ?thesis using kn_print_boots [OF that, of "''Booting %s v%s (%s)...\<newline>''"] by (auto simp: boot_texts_def)
  qed
  show ?thesis
    unfolding boot_devices_def
    by (intro boots_bind banner step_plain print_plain kn_timer_boots kn_ata_boots booting_steps assms)
      (simp_all add: boot_texts_def bytes_def)
qed

subsection \<open>Properties\<close>

lemma kn_print_keeps:
  "kn_print env s vs k = Some k' \<Longrightarrow> mm_handlers (kn_mm k') = mm_handlers (kn_mm k) \<and> mm_heap (kn_mm k') = mm_heap (kn_mm k)
    \<and> kn_gdt k' = kn_gdt k \<and> kn_idt k' = kn_idt k \<and> kn_timer k' = kn_timer k \<and> kn_kbd k' = kn_kbd k"
  by (auto simp: kn_print_def kn_mm_def upd_kn_mem_def upd_kn_vga_def upd_kn_mm_def upd_kn_tasks_def)

lemma kn_step_keeps: "kn_step env f s k = Some k' \<Longrightarrow> kn_print env s [] (f k) = Some k'"
  by (simp add: kn_step_def)

lemma kn_device_keeps:
  "kn_timer_init 100 k = Some k' \<Longrightarrow> mm_handlers (kn_mm k') = (mm_handlers (kn_mm k))(32 := Some Timer_Handler)
    \<and> mm_heap (kn_mm k') = mm_heap (kn_mm k) \<and> kn_gdt k' = kn_gdt k \<and> kn_idt k' = kn_idt k
    \<and> timer_frequency (kn_timer k') = 100 \<and> kn_kbd k' = kn_kbd k"
  "kn_ata_init env k = Some k' \<Longrightarrow> mm_handlers (kn_mm k') = mm_handlers (kn_mm k) \<and> mm_heap (kn_mm k') = mm_heap (kn_mm k)
    \<and> kn_gdt k' = kn_gdt k \<and> kn_idt k' = kn_idt k \<and> kn_timer k' = kn_timer k \<and> kn_kbd k' = kn_kbd k"
  by (auto simp: kn_timer_init_def timer_init_def irq_install_handler_def Let_def kn_ata_init_def kn_mm_def upd_kn_vga_def upd_kn_mm_def
      upd_kn_tasks_def upd_kn_handlers_def upd_kn_trace_def)

lemma kn_pure_steps:
  "mm_handlers (kn_mm (upd_kn_handlers h k)) = h (mm_handlers (kn_mm k))" "mm_heap (kn_mm (upd_kn_handlers h k)) = mm_heap (kn_mm k)"
  "kn_gdt (upd_kn_handlers h k) = kn_gdt k" "kn_idt (upd_kn_handlers h k) = kn_idt k" "kn_timer (upd_kn_handlers h k) = kn_timer k"
  "kn_kbd (upd_kn_handlers h k) = kn_kbd k" "kn_gdt (upd_kn_vga g k) = kn_gdt k" "kn_idt (upd_kn_vga g k) = kn_idt k"
  "kn_timer (upd_kn_vga g k) = kn_timer k" "kn_kbd (upd_kn_vga g k) = kn_kbd k" "kn_gdt (upd_kn_trace t k) = kn_gdt k"
  "kn_idt (upd_kn_trace t k) = kn_idt k" "kn_timer (upd_kn_trace t k) = kn_timer k" "kn_kbd (upd_kn_trace t k) = kn_kbd k"
  "kn_gdt (kn_gdt_init env k) = gdt_init (ke_gdt env) (kn_gdt k)" "kn_idt (kn_gdt_init env k) = kn_idt k"
  "kn_timer (kn_gdt_init env k) = kn_timer k" "kn_kbd (kn_gdt_init env k) = kn_kbd k"
  "kn_idt (kn_idt_init env k) = idt_init (ke_idt env) (ke_stub env) (kn_idt k)" "kn_gdt (kn_idt_init env k) = kn_gdt k"
  "kn_timer (kn_idt_init env k) = kn_timer k" "kn_kbd (kn_idt_init env k) = kn_kbd k"
  by (simp_all add: kn_mm_def upd_kn_vga_def upd_kn_mm_def upd_kn_tasks_def upd_kn_handlers_def upd_kn_trace_def
      kn_gdt_init_def kn_idt_init_def)

text \<open>C5. The kernel never reaches its shell. With its texts in memory, zeroed memory-manager state and a
  disk controller that answers, \<open>kernel_main\<close> runs the device drivers' initialisation to the
  end, and panics with ``Out of memory'' when it maps the kernel: the 8 GB it passes to
  \<open>mm_init\<close> are 0 in 32 bits, so no frame is managed. (This is the run of the C code; that \<open>mm_init\<close>
  also clears the first 8 KB of the image, where that code lies, is C26.)\<close>

theorem kernel_main_panics:
  assumes "booting env k" and "\<forall>a. ata_init (se_dev (ke_sh env)) a \<noteq> None"
  shows "kernel_main env k = Some (Inl (bytes ''Out of memory''))"
proof -
  obtain k1 where k1: "boot_devices env k = Some k1" "booting env k1"
    using boot_devices_boots [OF assms] by (auto simp: boots_def)
  obtain k2 where k2: "boot_memory env k1 = Some k2" "memory_ready env k2" using boot_memory_ready [OF k1(2)] by blast
  show ?thesis using k1(1) k2 memory_ready_panics by (simp add: kernel_main_def oreturn_def)
qed

definition quiet_env :: kenv where
  "quiet_env = \<lparr>ke_sh = \<lparr>se_lit = lit_addr boot_texts, se_bp = 0x80000, se_hist = 0x90000, se_line = 0xA0000,
     se_dev = (\<lambda>_ _. 0)\<rparr>, ke_gdt = 0, ke_idt = 0, ke_stub = (\<lambda>_. 0), ke_tmp = 0, ke_args = (\<lambda>_. 0)\<rparr>"

lemma quiet_boots: "kn_mm k = mm_boot (frames0\<lparr>fr_mem := lit_mem boot_texts\<rparr>) B H \<Longrightarrow> booting quiet_env k"
proof -
  assume mm: "kn_mm k = mm_boot (frames0\<lparr>fr_mem := lit_mem boot_texts\<rparr>) B H"
  then have mem: "kn_mem k = lit_mem boot_texts" by (simp add: kn_mem_def sys_mem_def kn_mm_def mm_boot_def)
  have short: "length boot_texts < 0x1000" "list_all (\<lambda>s. length s < 64 \<and> 0 \<notin> set (bytes s)) boot_texts"
    by (simp add: boot_texts_def) code_simp
  have "boot_layout quiet_env (lit_mem boot_texts)"
    unfolding boot_layout_def list_all_iff
  proof (intro conjI ballI)
    fix s assume s: "s \<in> set boot_texts"
    then have l: "length s < 64" "0 \<notin> set (bytes s)" using short(2) by (auto simp: list_all_iff)
    let ?a = "lit_addr boot_texts s"
    have lit: "se_lit (ke_sh quiet_env) s = ?a" "se_bp (ke_sh quiet_env) = 0x80000" by (simp_all add: quiet_env_def)
    have u: "unat ?a + Suc (length (bytes s)) \<le> 0x60000" using lit_addr_less [OF s short(1) l(1)] by (simp add: bytes_def)
    show "cstr (lit_mem boot_texts) (se_lit (ke_sh quiet_env) s) (bytes s)"
      unfolding lit using s short(1) l by (rule cstr_lit_mem)
    show "se_lit (ke_sh quiet_env) s \<noteq> 0" using unat_lit_addr [OF s short(1), of 0] unfolding lit by auto
    show "region (se_lit (ke_sh quiet_env) s) (Suc (length (bytes s))) \<inter> region (se_bp (ke_sh quiet_env)) 32 = {}"
      "region (se_lit (ke_sh quiet_env) s) (Suc (length (bytes s))) \<inter> region 0x100000 8192 = {}"
      unfolding lit using u by (auto intro!: region_apart)
  qed (simp add: quiet_env_def)
  then show ?thesis using mm mem by (auto simp: booting_def)
qed

lemma no_drive: "ata_init (\<lambda>_ _. 0) a \<noteq> None"
  by (simp add: ata_init_def inb_def Let_def)

theorem kernel_main_panics_witness:
  "\<forall>k B H. kernel_main quiet_env (upd_kn_mm (\<lambda>_. mm_boot (frames0\<lparr>fr_mem := lit_mem boot_texts\<rparr>) B H) k)
     = Some (Inl (bytes ''Out of memory''))"
proof (intro allI)
  fix k B H
  let ?k = "upd_kn_mm (\<lambda>_. mm_boot (frames0\<lparr>fr_mem := lit_mem boot_texts\<rparr>) B H) k"
  have "booting quiet_env ?k" by (rule quiet_boots) simp
  moreover have "\<forall>a. ata_init (se_dev (ke_sh quiet_env)) a \<noteq> None" using no_drive by (simp add: quiet_env_def)
  ultimately show "kernel_main quiet_env ?k = Some (Inl (bytes ''Out of memory''))" by (rule kernel_main_panics)
qed

subsection \<open>The devices after the boot\<close>

definition kn_chips :: "kernel \<Rightarrow> trace" where
  "kn_chips k = chip_part (kn_trace k)"

lemma kn_print_chips: "kn_print env s vs k = Some k' \<Longrightarrow> kn_chips k' = kn_chips k"
  by (auto simp: kn_print_def kn_chips_def kn_trace_def upd_kn_mem_def upd_kn_vga_def upd_kn_mm_def upd_kn_tasks_def
      dest!: printf_chips simp flip: vga_chips_def)

lemma kn_device_chips:
  "kn_timer_init 100 k = Some k' \<Longrightarrow> kn_chips k' = kn_chips k @ timer_writes 100"
  "kn_ata_init env k = Some k' \<Longrightarrow> kn_chips k' = kn_chips k"
  by (auto simp: kn_timer_init_def kn_ata_init_def kn_chips_def kn_trace_def upd_kn_vga_def upd_kn_mm_def
      upd_kn_tasks_def upd_kn_handlers_def upd_kn_trace_def dest!: timer_init_chips ata_init_chips)

lemma kn_step_chips:
  "kn_chips (upd_kn_handlers h k) = kn_chips k" "kn_chips (kn_gdt_init env k) = kn_chips k"
  "kn_chips (kn_idt_init env k) = kn_chips k" "kn_chips (upd_kn_trace irq_init k) = kn_chips k @ irq_writes"
  "kn_chips (upd_kn_vga (\<lambda>v. vga_setcolor 7 (vga_init v)) k) = kn_chips k"
  by (simp_all add: kn_chips_def kn_trace_def upd_kn_vga_def upd_kn_mm_def upd_kn_tasks_def kn_gdt_init_def kn_idt_init_def
      upd_kn_handlers_def upd_kn_trace_def irq_init_chips flip: vga_chips_def)

lemma boot_devices_chips: "boot_devices env k = Some k' \<Longrightarrow> kn_chips k' = kn_chips k @ irq_writes @ timer_writes 100"
  by (auto simp: boot_devices_def bind_eq_Some_conv kn_step_def kn_step_chips dest!: kn_print_chips kn_device_chips)

lemma boot_devices_tables:
  assumes "boot_devices env k = Some k'"
  shows "mm_handlers (kn_mm k') = (\<lambda>_. None)(32 := Some Timer_Handler, 33 := Some Keyboard_Handler)
    \<and> kn_gdt k' = gdt_init (ke_gdt env) (kn_gdt k) \<and> kn_idt k' = idt_init (ke_idt env) (ke_stub env) (kn_idt k)
    \<and> timer_frequency (kn_timer k') = 100 \<and> kn_kbd k' = kn_kbd k \<and> mm_heap (kn_mm k') = mm_heap (kn_mm k)"
  using assms
  by (auto simp: boot_devices_def bind_eq_Some_conv kn_pure_steps isr_init_def keyboard_init_def syscall_init_def
      irq_install_handler_def isr_register_handler_def
      dest!: kn_step_keeps kn_print_keeps kn_device_keeps)

text \<open>
  \<open>vector_leads k v a\<close>: the table has a present gate at the vector, of the kernel's code segment,
  to the address \<open>a\<close>.
\<close>

definition vector_leads :: "kernel \<Rightarrow> u8 \<Rightarrow> u32 \<Rightarrow> bool" where
  "vector_leads k v a \<longleftrightarrow> (let g = idt (kn_idt k) v
     in gate_present g \<and> gate_target g = a \<and> sel g = 8 \<and> flat_segment (kn_gdt k) True (ucast (sel g)))"

definition request_leads :: "chips \<Rightarrow> kernel \<Rightarrow> nat \<Rightarrow> u32 \<Rightarrow> bool" where
  "request_leads c k i a \<longleftrightarrow> (case request_vector c i of None \<Rightarrow> False | Some v \<Rightarrow> vector_leads k v a)"

lemma fold_idtp: "idtp (fold (\<lambda>k. idt_set_gate (of_nat k) (stub k) s f) xs st) = idtp st"
  by (induction xs arbitrary: st) (simp_all add: idt_set_gate_def)

lemma vector_leads_idt:
  assumes "kn_gdt k = gdt_init ga G" and "kn_idt k = idt_init ia stub I" and "v < 48"
  shows "vector_leads k (of_nat v) (stub v)"
proof -
  have "sel (gate (stub v) 8 0x8E) = 8" by (simp add: gate_def)
  then show ?thesis
    using assms gdt_init_flat(1) [of ga G] idt_init_gate [of v ia stub I] by (simp add: vector_leads_def)
qed

text \<open>C28. What the boot makes of the devices. The writes to the ports, decoded as the data sheets of the
  chips say and whatever state the chips were in, leave the two interrupt controllers initialised
  in a cascade with nothing masked, and the timer counting down from 11931 in mode 3, which gives
  100 interrupts a second. Every request line but the cascade reaches, through a present gate of the
  flat kernel code segment, the stub of its own number, and each of the 32 exceptions its own. Of
  all vectors exactly those of the timer and the keyboard have a handler in the table, 32 and 33,
  so the system call vector has a gate but no handler; no other vector has a gate. The stacks and data find a flat data segment. Nothing has
  been allocated and no key read.\<close>

theorem boot_devices_ready:
  fixes c0 :: chips
  assumes "boot_devices env k = Some k'"
  defines "c \<equiv> programmed (kn_trace k') c0"
  shows "pit_count (ch_timer c) = 11931 \<and> pit_hz (ch_timer c) = 100 \<and> pit_mode (ch_timer c) = 3 \<and> timer_frequency (kn_timer k') = 100
    \<and> request_vector c 2 = None \<and> list_all (\<lambda>i. request_leads c k' i (ke_stub env (32 + i))) ([0, 1] @ [3..<16])
    \<and> list_all (\<lambda>v. vector_leads k' (of_nat v) (ke_stub env v)) [0..<32]
    \<and> list_all (\<lambda>v. \<not> gate_present (idt (kn_idt k') (of_nat v))) ([48..<128] @ [129..<256])
    \<and> mm_handlers (kn_mm k') = (\<lambda>_. None)(32 := Some Timer_Handler, 33 := Some Keyboard_Handler)
    \<and> vector_leads k' 0x80 (ke_stub env 128) \<and> flat_segment (kn_gdt k') False 0x10
    \<and> tp_base (gp (kn_gdt k')) = ke_gdt env \<and> tp_base (idtp (kn_idt k')) = ke_idt env
    \<and> kn_kbd k' = kn_kbd k \<and> mm_heap (kn_mm k') = mm_heap (kn_mm k)"
proof -
  note t = boot_devices_tables [OF assms(1)]
  have leads: "vector_leads k' (of_nat v) (ke_stub env v)" if "v < 48" for v
    using t vector_leads_idt that by blast
  have "c = programmed (kn_chips k') c0" by (simp add: c_def kn_chips_def programmed_part)
  then have c: "c = programmed (irq_writes @ timer_writes 100) (programmed (kn_chips k) c0)"
    by (simp add: boot_devices_chips [OF assms(1)] programmed_append)
  have req: "request_vector c i = (if i = 2 then None else Some (of_nat (32 + i)))" if "i < 16" for i
    using requests_remapped [of 100 "programmed (kn_chips k) c0"] that unfolding c by (simp add: list_all_iff)
  have rq: "request_leads c k' i (ke_stub env (32 + i))" if "i < 16" "i \<noteq> 2" for i
    using leads [of "32 + i"] that by (simp add: request_leads_def req)
  have lines: "list_all (\<lambda>i. request_leads c k' i (ke_stub env (32 + i))) ([0, 1] @ [3..<16])"
    using rq [of 0] rq [of 1] rq unfolding list_all_iff set_append set_upt by auto
  have none: "\<not> gate_present (idt (kn_idt k') (of_nat v))" if "v < 256" "48 \<le> v" "v \<noteq> 128" for v
    using t idt_init_gate [of v "ke_idt env" "ke_stub env" "kn_idt k"] that by simp
  then have others: "list_all (\<lambda>v. \<not> gate_present (idt (kn_idt k') (of_nat v))) ([48..<128] @ [129..<256])"
    unfolding list_all_iff set_append set_upt by auto
  have exceptions: "list_all (\<lambda>v. vector_leads k' (of_nat v) (ke_stub env v)) [0..<32]"
    unfolding list_all_iff set_upt using leads by auto
  have "vector_leads k' 0x80 (ke_stub env 128)"
    using t gdt_init_flat(1) [of "ke_gdt env" "kn_gdt k"] idt_init_gate [of 128 "ke_idt env" "ke_stub env" "kn_idt k"]
    by (simp add: vector_leads_def) (simp add: gate_def)
  moreover have "tp_base (gp (gdt_init a G)) = a" "tp_base (idtp (idt_init b stub I)) = b" for a G b stub I
    by (simp_all add: gdt_init_def gdt_set_gate_def idt_init_def idt_set_gate_def Let_def fold_idtp)
  ultimately show ?thesis
    using t lines others exceptions req [of 2] gdt_init_flat(2) [of "ke_gdt env" "kn_gdt k"]
      pit_hundred [of "programmed irq_writes (programmed (kn_chips k) c0)"]
    by (simp add: c programmed_append del: upt.simps upt_rec_numeral)
qed

theorem boot_devices_ready_witness:
  "\<forall>k B H c0. \<exists>k'. boot_devices quiet_env (upd_kn_mm (\<lambda>_. mm_boot (frames0\<lparr>fr_mem := lit_mem boot_texts\<rparr>) B H) k) = Some k'
     \<and> mm_handlers (kn_mm k') 33 = Some Keyboard_Handler \<and> pit_hz (ch_timer (programmed (kn_trace k') c0)) = 100"
proof (intro allI)
  fix k B H c0
  let ?k = "upd_kn_mm (\<lambda>_. mm_boot (frames0\<lparr>fr_mem := lit_mem boot_texts\<rparr>) B H) k"
  have "booting quiet_env ?k" by (rule quiet_boots) simp
  then obtain k' where "boot_devices quiet_env ?k = Some k'"
    using boot_devices_boots [of quiet_env ?k] no_drive by (auto simp: boots_def quiet_env_def)
  with boot_devices_ready [OF this, of c0]
  show "\<exists>k'. boot_devices quiet_env ?k = Some k' \<and> mm_handlers (kn_mm k') 33 = Some Keyboard_Handler
      \<and> pit_hz (ch_timer (programmed (kn_trace k') c0)) = 100" by simp
qed

end
