(* ===== verification/Session.thy ===== *)
theory Session
  imports Shell
begin

text \<open>
  Whole sessions of the shell: an abstract shell maps the lines typed to the text shown, and
  \<open>shell_loop\<close> of \<open>kernel/shell.c\<close> refines it. The abstract shell knows \<open>echo\<close>, \<open>history\<close>, \<open>exit\<close>,
  the commands that only print a fixed text or nothing, and names that are not commands.
\<close>

subsection \<open>Texts in memory\<close>

text \<open>\<open>str_ok bp m p s\<close>: \<open>p\<close> points to the string \<open>s\<close>, outside the local buffer of \<open>printf\<close>.\<close>

definition str_ok :: "ptr \<Rightarrow> mem \<Rightarrow> ptr \<Rightarrow> u8 list \<Rightarrow> bool" where
  "str_ok bp m p s \<longleftrightarrow> cstr m p s \<and> length s < 2 ^ 31 \<and> p \<noteq> 0 \<and> region p (Suc (length s)) \<inter> region bp 32 = {}"

lemma str_ok_agree: "str_ok bp m p s \<Longrightarrow> agree bp m m' \<Longrightarrow> str_ok bp m' p s"
  using agree_cstr unfolding str_ok_def by blast

text \<open>The strings \<open>printf\<close> may be given, from two pointers.\<close>

definition two_strs :: "ptr \<Rightarrow> u8 list \<Rightarrow> ptr \<Rightarrow> u8 list \<Rightarrow> ptr \<Rightarrow> u8 list option" where
  "two_strs p s q t x = (if x = p then Some s else if x = q then Some t else None)"

lemma two_strs_at: "str_ok bp m p s \<Longrightarrow> str_ok bp m q t \<Longrightarrow> strings_at bp m (two_strs p s q t)"
  by (auto simp: strings_at_def two_strs_def str_ok_def split: if_splits)

lemma two_strs_eq:
  assumes "str_ok bp m p s" and "str_ok bp m q t"
  shows "two_strs p s q t p = Some s" "two_strs p s q t q = Some t"
  using assms cstr_unique [of m p s t] by (auto simp: two_strs_def str_ok_def)

lemma render_two: "strs p = Some s \<Longrightarrow> p \<noteq> 0 \<Longrightarrow>
    render strs args k (37 # 115 # f) = map_option (append s) (render strs args (Suc k) f)" if "args k = p"
  using that by (simp add: render.simps(2) is_digit_def directive_l_def pad_l_def)

lemma render_num: "render strs args k (37 # 100 # f) = map_option (append (signed_l (args k) 0 False)) (render strs args (Suc k) f)"
  by (simp add: render.simps(2) is_digit_def directive_l_def)

lemma render_text: "37 \<notin> set s \<Longrightarrow> render strs args k (s @ f) = map_option (append s) (render strs args k f)"
proof (induction s)
  case Nil
  then show ?case by (cases "render strs args k f") simp_all
next
  case (Cons c s)
  then show ?case by (cases "render strs args k f") simp_all
qed

subsection \<open>Steps that only print\<close>

definition printed :: "shenv \<Rightarrow> u8 list \<Rightarrow> shell \<Rightarrow> shell \<Rightarrow> bool" where
  "printed env out st st' \<longleftrightarrow> sh_vga st' = put_bytes out (sh_vga st) \<and> sh_kbd st' = sh_kbd st
     \<and> hist_count st' = hist_count st \<and> agree (se_bp env) (sh_mem st) (sh_mem st')"

lemma printed_nil [simp]: "printed env [] st st"
  by (simp add: printed_def agree_def)

lemma printed_trans: "printed env s st st1 \<Longrightarrow> printed env t st1 st2 \<Longrightarrow> printed env (s @ t) st st2"
  by (auto simp: printed_def agree_def)

lemma printed_mem: "printed env s st st' \<Longrightarrow> agree (se_bp env) (sh_mem st) (sh_mem st')"
  by (simp add: printed_def)

lemma printed_str: "printed env s st st' \<Longrightarrow> str_ok (se_bp env) (sh_mem st) p t \<Longrightarrow> str_ok (se_bp env) (sh_mem st') p t"
  using str_ok_agree printed_mem by blast

definition bp_fits :: "shenv \<Rightarrow> bool" where
  "bp_fits env \<longleftrightarrow> unat (se_bp env) + 34 \<le> 2 ^ 32"

lemma sh_print_prints:
  assumes "bp_fits env" and "str_ok (se_bp env) (sh_mem st) (se_lit env s) (bytes s)"
    and "strings_at (se_bp env) (sh_mem st) strs"
    and "render strs (\<lambda>k. if k < length vs then vs ! k else 0) 0 (bytes s) = Some out"
  shows "\<exists>st'. sh_print env s vs st = Some st' \<and> printed env out st st'"
proof -
  have bp: "unat (se_bp env) + 34 \<le> 2 ^ 32" using assms(1) by (simp add: bp_fits_def)
  have f: "cstr (sh_mem st) (se_lit env s) (bytes s)"
    "region (se_lit env s) (Suc (length (bytes s))) \<inter> region (se_bp env) 32 = {}"
    using assms(2) by (simp_all add: str_ok_def)
  from printf_loop_prints [OF bp assms(4) f assms(3), of "sh_vga st"] obtain m' where
    "printf (se_bp env) (se_lit env s) (\<lambda>k. if k < length vs then vs ! k else 0) (sh_mem st, sh_vga st)
      = Some (m', put_bytes out (sh_vga st))" "agree (se_bp env) (sh_mem st) m'"
    by (auto simp: printf_def)
  then show ?thesis by (simp add: sh_print_def printed_def)
qed

lemma no_strs: "strings_at bp m (\<lambda>_. None)"
  by (simp add: strings_at_def)

lemma sh_print_text:
  assumes "bp_fits env" and "str_ok (se_bp env) (sh_mem st) (se_lit env s) (bytes s)" and "37 \<notin> set (bytes s)"
  shows "\<exists>st'. sh_print env s [] st = Some st' \<and> printed env (bytes s) st st'"
  by (rule sh_print_prints [OF assms(1,2) no_strs]) (use render_text [OF assms(3), where f = "[]"] in simp)

subsection \<open>Commands that print a fixed text\<close>

definition plain_cmds :: "(string \<times> string list \<times> int) list" where
  "plain_cmds =
    [(''ls'', [''bin/  boot/  dev/  etc/  home/  lib/  mnt/  opt/\<newline>'', ''proc/ root/ run/  sbin/ sys/  tmp/  usr/  var/\<newline>''], 0),
     (''cd'', [], 0), (''pwd'', [''/\<newline>''], 0), (''whoami'', [''root\<newline>''], 0),
     (''date'', [''Sat May 16 12:00:00 CST 2026\<newline>''], 0),
     (''ps'', [''  PID TTY       TIME CMD\<newline>'', ''    1 ?     00:00:00 init\<newline>'', ''    2 ?     00:00:00 kthreadd\<newline>'',
       ''    3 ?     00:00:00 shell\<newline>''], 0),
     (''mount'', [], 0), (''umount'', [], 0), (''dpkg'', [''dpkg: package manager stub\<newline>''], 0),
     (''systemctl'', [''systemctl: service manager stub\<newline>''], 0), (''hostname'', [''vaelen\<newline>''], 0),
     (''ifconfig'', [''lo: flags=73<UP,LOOPBACK,RUNNING>  mtu 65536\<newline>''], 0),
     (''ping'', [''ping: network unavailable\<newline>''], 0), (''wget'', [''wget: network unavailable\<newline>''], 0),
     (''curl'', [''curl: network unavailable\<newline>''], 0), (''ssh'', [''ssh: network unavailable\<newline>''], 0),
     (''useradd'', [], 0), (''passwd'', [], 0), (''su'', [''su: not implemented\<newline>''], 0),
     (''chmod'', [], 0), (''chown'', [], 0), (''tar'', [''tar: archive utility stub\<newline>''], 0),
     (''gzip'', [''gzip: compression stub\<newline>''], 0), (''find'', [''find: search stub\<newline>''], 0),
     (''grep'', [''grep: search stub\<newline>''], 0), (''wc'', [''0 0 0\<newline>''], 0), (''head'', [], 0), (''tail'', [], 0),
     (''sort'', [], 0), (''uniq'', [], 0), (''diff'', [], 0), (''ln'', [], 0), (''whereis'', [], 0),
     (''env'', [''PATH=/usr/local/bin:/usr/bin:/bin\<newline>'', ''HOME=/root\<newline>'', ''USER=root\<newline>'', ''SHELL=/bin/sh\<newline>'',
       ''TERM=vaelen\<newline>''], 0),
     (''export'', [], 0), (''source'', [], 0), (''alias'', [], 0), (''unalias'', [], 0), (''type'', [], 0),
     (''exit'', [''logout\<newline>''], -1), (''true'', [], 0), (''false'', [], 1)]"

definition plain_cmd :: "u8 list \<Rightarrow> (string list \<times> int) option" where
  "plain_cmd w = map_of (map (\<lambda>(n, x). (bytes n, x)) plain_cmds) w"

text \<open>Every entry is the command of that name.\<close>

lemma say_as_lines: "say env s r st = say_lines env [s] r st"
  by (cases "sh_print env s [] st") (simp_all add: say_def say_with_def)

definition plain_indices :: "nat list" where
  "plain_indices = [3, 4, 11, 12, 14, 15, 19, 20, 24, 25, 28, 29, 30, 31, 32, 33, 34, 35, 36, 37, 38, 39, 40, 41,
     42, 43, 44, 45, 46, 47, 48, 49, 51, 52, 53, 54, 55, 56, 57, 58, 60, 61]"

lemma plain_index:
  "list_all2 (\<lambda>(n, ss, r) i. i < 62 \<and> fst (command_info ! i) = n \<and>
      (\<forall>env args st. (command_funcs ! i) env args st = say_lines env ss r st)) plain_cmds plain_indices"
  by (simp add: plain_cmds_def plain_indices_def command_info_def command_funcs_def command_defs say_as_lines)

lemma plain_run:
  assumes "plain_cmd w = Some (ss, r)"
  shows "\<exists>i. command_at w = Some i \<and> (command_funcs ! i) env args st = say_lines env ss r st"
proof -
  obtain n where n: "(n, ss, r) \<in> set plain_cmds" "w = bytes n"
    using map_of_SomeD [OF assms [unfolded plain_cmd_def]] by auto
  obtain k where k: "k < length plain_cmds" "plain_cmds ! k = (n, ss, r)" using n(1) by (auto simp: in_set_conv_nth)
  from list_all2_nthD [OF plain_index k(1)] k(2) n(2) command_at_name [of "plain_indices ! k"]
  show ?thesis by auto
qed

subsection \<open>The abstract shell\<close>

definition session_texts :: "string list" where
  "session_texts = [''root@vaelen:~# '', ''\<newline>Vaelen Linux shell terminated.\<newline>'', ''%s: command not found\<newline>'',
     ''%s%s'', '' '', '''', ''\<newline>'', ''  %d  %s\<newline>''] @ concat (map (\<lambda>(n, ss, r). ss) plain_cmds) @ map fst command_info"

definition texts_ok :: "shenv \<Rightarrow> mem \<Rightarrow> bool" where
  "texts_ok env m \<longleftrightarrow> list_all (\<lambda>s. str_ok (se_bp env) m (se_lit env s) (bytes s)) session_texts"

fun echo_text :: "u8 list list \<Rightarrow> u8 list" where
  "echo_text [] = []"
| "echo_text [w] = w"
| "echo_text (w # ws) = w @ 32 # echo_text ws"

text \<open>The line in slot \<open>i\<close> is the last one filed with a number that is \<open>i\<close> modulo 50.\<close>

definition slot_line :: "u8 list list \<Rightarrow> nat \<Rightarrow> u8 list" where
  "slot_line hs i = hs ! (i + MAX_HISTORY * ((length hs - 1 - i) div MAX_HISTORY))"

definition history_row :: "u8 list list \<Rightarrow> nat \<Rightarrow> u8 list" where
  "history_row hs i = [32, 32] @ signed_l (of_nat (i + 1)) 0 False @ [32, 32] @ slot_line hs i @ [10]"

definition history_text :: "u8 list list \<Rightarrow> u8 list" where
  "history_text hs = concat (map (history_row hs) [0..<min (length hs) MAX_HISTORY])"

text \<open>The text and the code of a line, by its words and the lines filed; \<open>None\<close> for other commands.\<close>

definition line_result :: "u8 list list \<Rightarrow> u8 list list \<Rightarrow> (u8 list \<times> int) option" where
  "line_result hs ws =
     (case ws of
        [] \<Rightarrow> Some ([], 0)
      | w # args \<Rightarrow>
          if w = bytes ''echo'' then Some (echo_text args @ [10], 0)
          else if w = bytes ''history'' then Some (history_text hs, 0)
          else (case plain_cmd w of
                  Some (ss, r) \<Rightarrow> Some (concat (map bytes ss), r)
                | None \<Rightarrow> if command_at w = None then Some (w @ bytes '': command not found\<newline>'', 1) else None))"

text \<open>A session: the keys of each line in turn. It ends when a line's code is negative.\<close>

definition prompt_text :: "u8 list" where
  "prompt_text = bytes ''root@vaelen:~# ''"

fun session :: "u8 list list \<Rightarrow> u8 list list \<Rightarrow> (u8 list \<times> u8 list list) option" where
  "session hs [] = None"
| "session hs (ks # kss) =
     (let l = edit [] ks; hs1 = filed hs l; shown = prompt_text @ echo [] ks @ [10]
      in if l = [] then map_option (\<lambda>(out, rest). (shown @ out, rest)) (session hs1 kss)
         else (case line_result hs1 (take 31 (line_words l)) of
                 None \<Rightarrow> None
               | Some (out, r) \<Rightarrow>
                   if r < 0 then Some (shown @ out @ bytes ''\<newline>Vaelen Linux shell terminated.\<newline>'', kss)
                   else map_option (\<lambda>(out', rest). (shown @ out @ out', rest)) (session hs1 kss)))"

subsection \<open>Printing commands\<close>

lemma texts_str: "texts_ok env m \<Longrightarrow> s \<in> set session_texts \<Longrightarrow> str_ok (se_bp env) m (se_lit env s) (bytes s)"
  by (auto simp: texts_ok_def list_all_iff)

lemma texts_printed: "printed env out st st' \<Longrightarrow> texts_ok env (sh_mem st) \<Longrightarrow> texts_ok env (sh_mem st')"
  using printed_str by (auto simp: texts_ok_def list_all_iff)

lemma print_text:
  assumes "bp_fits env" and "texts_ok env (sh_mem st)" and "s \<in> set session_texts" and "37 \<notin> set (bytes s)"
  shows "\<exists>st'. sh_print env s [] st = Some st' \<and> printed env (bytes s) st st'"
  using assms texts_str by (intro sh_print_text)

lemma say_lines_prints:
  assumes "bp_fits env"
  shows "texts_ok env (sh_mem st) \<Longrightarrow> list_all (\<lambda>s. s \<in> set session_texts \<and> 37 \<notin> set (bytes s)) ss \<Longrightarrow>
    \<exists>st'. say_lines env ss r st = Some (r, st') \<and> printed env (concat (map bytes ss)) st st'"
proof (induction ss arbitrary: st)
  case (Cons s ss)
  then obtain st1 where 1: "sh_print env s [] st = Some st1" "printed env (bytes s) st st1"
    using print_text [OF assms] by fastforce
  obtain st2 where "say_lines env ss r st1 = Some (r, st2)" "printed env (concat (map bytes ss)) st1 st2"
    using Cons.IH [OF texts_printed [OF 1(2) Cons.prems(1)]] Cons.prems(2) by auto
  with 1 printed_trans [OF 1(2)] show ?case by auto
qed simp

lemma plain_texts: "list_all (\<lambda>(n, ss, r). list_all (\<lambda>s. s \<in> set session_texts \<and> 37 \<notin> set (bytes s)) ss) plain_cmds"
proof -
  have "list_all (\<lambda>s. 37 \<notin> set (bytes s)) (concat (map (\<lambda>(n, ss, r). ss) plain_cmds))" by code_simp
  then show ?thesis by (fastforce simp: list_all_iff session_texts_def)
qed

lemma plain_prints:
  assumes "bp_fits env" and "texts_ok env (sh_mem st)" and "plain_cmd w = Some (ss, r)"
  shows "\<exists>i st'. command_at w = Some i \<and> (command_funcs ! i) env args st = Some (r, st')
    \<and> printed env (concat (map bytes ss)) st st'"
proof -
  have "(w, ss, r) \<in> (\<lambda>(n, x). (bytes n, x)) ` set plain_cmds"
    using map_of_SomeD [OF assms(3) [unfolded plain_cmd_def]] by auto
  then have "list_all (\<lambda>s. s \<in> set session_texts \<and> 37 \<notin> set (bytes s)) ss"
    using plain_texts by (auto simp: list_all_iff)
  from say_lines_prints [OF assms(1,2) this] plain_run [OF assms(3)] show ?thesis by metis
qed


lemma session_literals: "''%s%s'' \<in> set session_texts" "'' '' \<in> set session_texts" "'''' \<in> set session_texts"
  "''\<newline>'' \<in> set session_texts" "''  %d  %s\<newline>'' \<in> set session_texts" "''%s: command not found\<newline>'' \<in> set session_texts"
  "''root@vaelen:~# '' \<in> set session_texts" "''\<newline>Vaelen Linux shell terminated.\<newline>'' \<in> set session_texts"
  by (simp_all add: session_texts_def)

lemma str_ok_nz: "str_ok bp m p s \<Longrightarrow> p \<noteq> 0"
  by (simp add: str_ok_def)

lemma print_two:
  assumes "bp_fits env" and "texts_ok env (sh_mem st)"
    and "str_ok (se_bp env) (sh_mem st) p s" and "str_ok (se_bp env) (sh_mem st) q t"
  shows "\<exists>st'. sh_print env ''%s%s'' [p, q] st = Some st' \<and> printed env (s @ t) st st'"
proof (rule sh_print_prints [OF assms(1) _ two_strs_at [OF assms(3,4)]])
  show "str_ok (se_bp env) (sh_mem st) (se_lit env ''%s%s'') (bytes ''%s%s'')"
    using texts_str [OF assms(2)] session_literals by blast
  have "bytes ''%s%s'' = 37 # 115 # 37 # 115 # []" by (simp add: bytes_def)
  then show "render (two_strs p s q t) (\<lambda>k. if k < length [p, q] then [p, q] ! k else 0) 0 (bytes ''%s%s'') = Some (s @ t)"
    using two_strs_eq [OF assms(3,4)] str_ok_nz [OF assms(3)] str_ok_nz [OF assms(4)]
    by (simp add: render_two)
qed

lemma print_not_found:
  assumes "bp_fits env" and "texts_ok env (sh_mem st)" and "str_ok (se_bp env) (sh_mem st) p w"
  shows "\<exists>st'. sh_print env ''%s: command not found\<newline>'' [p] st = Some st'
    \<and> printed env (w @ bytes '': command not found\<newline>'') st st'"
proof (rule sh_print_prints [OF assms(1) _ two_strs_at [OF assms(3,3)]])
  show "str_ok (se_bp env) (sh_mem st) (se_lit env ''%s: command not found\<newline>'') (bytes ''%s: command not found\<newline>'')"
    using texts_str [OF assms(2)] session_literals by blast
  have "bytes ''%s: command not found\<newline>'' = 37 # 115 # bytes '': command not found\<newline>'' @ []" by (simp add: bytes_def)
  moreover have "37 \<notin> set (bytes '': command not found\<newline>'')" by (simp add: bytes_def)
  ultimately show "render (two_strs p w p w) (\<lambda>k. if k < length [p] then [p] ! k else 0) 0 (bytes ''%s: command not found\<newline>'')
      = Some (w @ bytes '': command not found\<newline>'')"
    using two_strs_eq [OF assms(3,3)] str_ok_nz [OF assms(3)] render_text [where f = "[]"]
    by (simp add: render_two)
qed

lemma print_history_row:
  assumes "bp_fits env" and "texts_ok env (sh_mem st)" and "str_ok (se_bp env) (sh_mem st) p l"
  shows "\<exists>st'. sh_print env ''  %d  %s\<newline>'' [n, p] st = Some st'
    \<and> printed env ([32, 32] @ signed_l n 0 False @ [32, 32] @ l @ [10]) st st'"
proof (rule sh_print_prints [OF assms(1) _ two_strs_at [OF assms(3,3)]])
  show "str_ok (se_bp env) (sh_mem st) (se_lit env ''  %d  %s\<newline>'') (bytes ''  %d  %s\<newline>'')"
    using texts_str [OF assms(2)] session_literals by blast
  have "bytes ''  %d  %s\<newline>'' = 32 # 32 # 37 # 100 # 32 # 32 # 37 # 115 # 10 # []" by (simp add: bytes_def)
  then show "render (two_strs p l p l) (\<lambda>k. if k < length [n, p] then [n, p] ! k else 0) 0 (bytes ''  %d  %s\<newline>'')
      = Some ([32, 32] @ signed_l n 0 False @ [32, 32] @ l @ [10])"
    using two_strs_eq [OF assms(3,3)] str_ok_nz [OF assms(3)]
    by (simp add: render_two render_num)
qed

text \<open>The words as arguments, from index \<open>j\<close> on.\<close>

definition args_at :: "shenv \<Rightarrow> mem \<Rightarrow> (nat \<Rightarrow> ptr) \<Rightarrow> nat \<Rightarrow> u8 list list \<Rightarrow> bool" where
  "args_at env m args j ws \<longleftrightarrow> (\<forall>i < length ws. str_ok (se_bp env) m (args (j + i)) (ws ! i)) \<and> args (j + length ws) = 0"

lemma args_at_Cons: "args_at env m args j (w # ws) \<longleftrightarrow> str_ok (se_bp env) m (args j) w \<and> args_at env m args (j + 1) ws"
  by (auto simp: args_at_def nth_Cons' less_Suc_eq_0_disj)

lemma args_at_printed: "printed env out st st' \<Longrightarrow> args_at env (sh_mem st) args j ws \<Longrightarrow> args_at env (sh_mem st') args j ws"
  using printed_str by (auto simp: args_at_def)

lemma echo_loop_prints:
  assumes "bp_fits env"
  shows "texts_ok env (sh_mem st) \<Longrightarrow> args_at env (sh_mem st) args j ws \<Longrightarrow>
    \<exists>st'. echo_loop env args j st = Some st' \<and> printed env (echo_text ws) st st'"
proof (induction ws arbitrary: j st)
  case Nil
  then show ?case by (subst echo_loop.simps) (simp add: args_at_def)
next
  case (Cons w ws)
  have w: "str_ok (se_bp env) (sh_mem st) (args j) w" and ws: "args_at env (sh_mem st) args (j + 1) ws"
    using Cons.prems(2) by (simp_all add: args_at_Cons)
  have e: "args (j + 1) \<noteq> 0 \<longleftrightarrow> ws \<noteq> []"
    using ws str_ok_nz by (cases ws) (auto simp: args_at_Cons, auto simp: args_at_def)
  let ?q = "if args (j + 1) \<noteq> 0 then se_lit env '' '' else se_lit env ''''" and ?t = "if ws \<noteq> [] then [32] else []"
  have "str_ok (se_bp env) (sh_mem st) ?q ?t"
    using texts_str [OF Cons.prems(1) session_literals(2)] texts_str [OF Cons.prems(1) session_literals(3)] e
    by (simp add: bytes_def)
  from print_two [OF assms Cons.prems(1) w this] obtain st1 where
    1: "sh_print env ''%s%s'' [args j, ?q] st = Some st1" "printed env (w @ ?t) st st1" by blast
  obtain st2 where 2: "echo_loop env args (j + 1) st1 = Some st2" "printed env (echo_text ws) st1 st2"
    using Cons.IH [OF texts_printed [OF 1(2) Cons.prems(1)] args_at_printed [OF 1(2) ws]] by blast
  have "echo_loop env args j st = Some st2"
    using 1(1) 2(1) str_ok_nz [OF w] by (subst echo_loop.simps) simp
  moreover have "(w @ ?t) @ echo_text ws = echo_text (w # ws)" by (cases ws) simp_all
  ultimately show ?case using printed_trans [OF 1(2) 2(2)] by (metis (no_types))
qed


subsection \<open>The layout of a session\<close>

abbreviation line_region :: "shenv \<Rightarrow> ptr set" where
  "line_region env \<equiv> region (se_line env) MAX_LINE"

text \<open>
  What the linker and the stack of \<open>shell_run\<close> fix: the line, the history, the local buffer of
  \<open>printf\<close> and the literals do not overlap.
\<close>

definition layout_ok :: "shenv \<Rightarrow> bool" where
  "layout_ok env \<longleftrightarrow> bp_fits env \<and> history_fits env \<and> 0 < unat (se_hist env) \<and> 0 < unat (se_line env)
     \<and> unat (se_line env) + MAX_LINE < 2 ^ 32
     \<and> history_region env \<inter> line_region env = {} \<and> history_region env \<inter> region (se_bp env) 32 = {}
     \<and> line_region env \<inter> region (se_bp env) 32 = {}
     \<and> list_all (\<lambda>s. region (se_lit env s) (Suc (length (bytes s))) \<inter> (line_region env \<union> history_region env) = {}) session_texts"

lemma layout_rules:
  assumes "layout_ok env"
  shows "bp_fits env" "history_fits env" "0 < unat (se_hist env)" "0 < unat (se_line env)" "unat (se_line env) + MAX_LINE < 2 ^ 32"
    "history_region env \<inter> line_region env = {}" "history_region env \<inter> region (se_bp env) 32 = {}"
    "line_region env \<inter> region (se_bp env) 32 = {}"
    "s \<in> set session_texts \<Longrightarrow> region (se_lit env s) (Suc (length (bytes s))) \<inter> (line_region env \<union> history_region env) = {}"
  using assms by (simp_all add: layout_ok_def list_all_iff)

definition session_ok :: "shenv \<Rightarrow> shell \<Rightarrow> u8 list list \<Rightarrow> bool" where
  "session_ok env st hs \<longleftrightarrow> texts_ok env (sh_mem st) \<and> hist_holds env st hs \<and> kb_ok (sh_kbd st)"

lemma session_printed:
  assumes "session_ok env st hs" and "printed env out st st'" and "layout_ok env"
  shows "session_ok env st' hs"
proof -
  have "sh_mem st' a = sh_mem st a" if "a \<in> history_region env" for a
  proof -
    have "a \<notin> region (se_bp env) 32" using that layout_rules(7) [OF assms(3)] by blast
    then show ?thesis using printed_mem [OF assms(2)] by (simp add: agree_def)
  qed
  moreover have "hist_holds env st hs" "texts_ok env (sh_mem st)" "kb_ok (sh_kbd st)"
    "hist_count st' = hist_count st" "sh_kbd st' = sh_kbd st"
    using assms(1,2) by (simp_all add: session_ok_def printed_def)
  ultimately show ?thesis
    using hist_holds_kept [OF _ layout_rules(2) [OF assms(3)], of st hs st'] texts_printed [OF assms(2)]
    by (simp add: session_ok_def)
qed

lemma texts_kept:
  assumes "layout_ok env" and "texts_ok env m" and "\<And>a. a \<notin> line_region env \<union> history_region env \<Longrightarrow> m' a = m a"
  shows "texts_ok env m'"
  unfolding texts_ok_def list_all_iff
proof
  fix s assume s: "s \<in> set session_texts"
  have "cstr m' (se_lit env s) (bytes s) = cstr m (se_lit env s) (bytes s)"
    by (rule cstr_cong, rule assms(3)) (use layout_rules(9) [OF assms(1) s] in blast)
  then show "str_ok (se_bp env) m' (se_lit env s) (bytes s)" using texts_str [OF assms(2) s] by (simp add: str_ok_def)
qed

lemma command_text: "i < 62 \<Longrightarrow> fst (command_info ! i) \<in> set session_texts"
proof -
  assume "i < 62"
  then have "command_info ! i \<in> set command_info" by (simp add: length_commands)
  then show ?thesis unfolding session_texts_def set_append set_map by blast
qed

lemma texts_names: "texts_ok env m \<Longrightarrow> names_in env m"
proof -
  assume t: "texts_ok env m"
  show ?thesis unfolding names_in_def
  proof (intro allI impI)
    fix i :: nat assume "i < 62"
    then have "fst (command_info ! i) \<in> set session_texts" by (rule command_text)
    from texts_str [OF t this] show "cstr m (se_lit env (fst (command_info ! i))) (command_name i)"
      by (simp add: str_ok_def command_name_def)
  qed
qed

lemma layout_names:
  assumes "layout_ok env" and "n \<le> MAX_LINE"
  shows "names_apart env (se_line env) n"
  unfolding names_apart_def
proof (intro allI impI)
  fix i :: nat assume "i < 62"
  then have "fst (command_info ! i) \<in> set session_texts" by (rule command_text)
  from layout_rules(9) [OF assms(1) this] region_mono [OF assms(2), of "se_line env"]
  show "region (se_lit env (fst (command_info ! i))) (Suc (length (command_name i))) \<inter> region (se_line env) n = {}"
    by (auto simp: command_name_def)
qed

subsection \<open>The history command\<close>

lemma slot_number:
  assumes "i < length hs" and "i < MAX_HISTORY"
  defines "k \<equiv> i + MAX_HISTORY * ((length hs - 1 - i) div MAX_HISTORY)"
  shows "k < length hs" "length hs \<le> k + MAX_HISTORY" "k mod MAX_HISTORY = i"
proof -
  let ?d = "length hs - 1 - i"
  have "MAX_HISTORY * (?d div MAX_HISTORY) + ?d mod MAX_HISTORY = ?d" by simp
  moreover have "?d mod MAX_HISTORY < MAX_HISTORY" by (simp add: MAX_HISTORY_def)
  ultimately show "k < length hs" "length hs \<le> k + MAX_HISTORY" using assms(1) unfolding k_def by linarith+
  show "k mod MAX_HISTORY = i" using assms(2) by (simp add: k_def)
qed

lemma slot_str:
  assumes "layout_ok env" and "session_ok env st hs" and "i < length hs" and "i < MAX_HISTORY"
  shows "str_ok (se_bp env) (sh_mem st) (history_addr env i) (slot_line hs i)"
proof -
  note k = slot_number [OF assms(3,4)]
  have c: "length (slot_line hs i) < MAX_LINE - 1" "cstr (sh_mem st) (history_addr env i) (slot_line hs i)"
    using assms(2) k by (auto simp: session_ok_def hist_holds_def slot_line_def)
  have "region (history_addr env i) (Suc (length (slot_line hs i))) \<subseteq> history_region env"
    using region_mono [of "Suc (length (slot_line hs i))" MAX_LINE "history_addr env i"] c(1)
      history_slot_sub [OF layout_rules(2) [OF assms(1)] assms(4)] by fastforce
  moreover have "history_addr env i \<noteq> 0"
    using unat_history_addr [OF layout_rules(2) [OF assms(1)] assms(4)] layout_rules(3) [OF assms(1)] by auto
  ultimately show ?thesis using c layout_rules(7) [OF assms(1)] by (auto simp: str_ok_def MAX_LINE_def)
qed

lemma history_rows_prints:
  assumes "layout_ok env"
  shows "i \<le> MAX_HISTORY \<Longrightarrow> session_ok env st hs \<Longrightarrow> \<exists>st'. history_rows env [i..<MAX_HISTORY] st = Some st'
    \<and> printed env (concat (map (history_row hs) [i..<min (length hs) MAX_HISTORY])) st st'"
proof (induction "MAX_HISTORY - i" arbitrary: i st)
  case 0
  then show ?case by simp
next
  case (Suc d)
  then have i: "i < MAX_HISTORY" by simp
  have count: "hist_count st = length hs" using Suc.prems(2) by (simp add: session_ok_def hist_holds_def)
  show ?case
  proof (cases "i < length hs")
    case False
    then show ?thesis using i count by (simp add: upt_conv_Cons)
  next
    case True
    have tx: "texts_ok env (sh_mem st)" using Suc.prems(2) by (simp add: session_ok_def)
    from print_history_row [OF layout_rules(1) [OF assms] tx slot_str [OF assms Suc.prems(2) True i]]
    obtain st1 where 1: "sh_print env ''  %d  %s\<newline>'' [of_nat (i + 1), history_addr env i] st = Some st1"
      "printed env (history_row hs i) st st1" unfolding history_row_def by blast
    have "d = MAX_HISTORY - (i + 1)" "i + 1 \<le> MAX_HISTORY" using Suc.hyps(2) i by simp_all
    from Suc.hyps(1) [OF this session_printed [OF Suc.prems(2) 1(2) assms]] obtain st2 where
      2: "history_rows env [i + 1..<MAX_HISTORY] st1 = Some st2"
        "printed env (concat (map (history_row hs) [i + 1..<min (length hs) MAX_HISTORY])) st1 st2" by blast
    have "[i..<MAX_HISTORY] = i # [i + 1..<MAX_HISTORY]"
      "[i..<min (length hs) MAX_HISTORY] = i # [i + 1..<min (length hs) MAX_HISTORY]"
      using i True by (simp_all add: upt_conv_Cons)
    then show ?thesis using True i count 1(1) 2(1) printed_trans [OF 1(2) 2(2)] by simp
  qed
qed


subsection \<open>A line\<close>

lemma args_take: "args_at env m args 0 (take 31 ws) \<Longrightarrow> ws \<noteq> [] \<Longrightarrow> str_ok (se_bp env) m (args 0) (hd ws)"
  by (cases ws) (simp_all add: args_at_Cons)

lemma run_words_prints:
  assumes "layout_ok env" and "session_ok env st hs" and "args_at env (sh_mem st) args 0 (take 31 ws)"
    and "line_result hs (take 31 ws) = Some (out, r)"
  shows "\<exists>st'. run_words env args ws st = Some (r, st') \<and> printed env out st st'"
proof (cases ws)
  case Nil
  then show ?thesis using assms(4) by (intro exI [of _ st]) (simp add: run_words_def line_result_def)
next
  case (Cons w as)
  note bp = layout_rules(1) [OF assms(1)]
  have tx: "texts_ok env (sh_mem st)" using assms(2) by (simp add: session_ok_def)
  have take: "take 31 ws = w # take 30 as" using Cons by simp
  have run: "run_words env args ws st = (case command_at w of Some i \<Rightarrow> (command_funcs ! i) env args st
      | None \<Rightarrow> say_with env ''%s: command not found\<newline>'' [args 0] 1 st)"
    using Cons by (simp add: run_words_def)
  consider (echo) "w = bytes ''echo''" | (history) "w \<noteq> bytes ''echo''" "w = bytes ''history''"
    | (other) "w \<noteq> bytes ''echo''" "w \<noteq> bytes ''history''" by blast
  then show ?thesis
  proof cases
    case echo
    have out: "out = echo_text (take 30 as) @ [10]" "r = 0" using assms(4) take echo by (auto simp: line_result_def)
    have "args_at env (sh_mem st) args 1 (take 30 as)" using assms(3) take by (simp add: args_at_Cons)
    from echo_loop_prints [OF bp tx this] obtain st1 where
      1: "echo_loop env args 1 st = Some st1" "printed env (echo_text (take 30 as)) st st1" by blast
    from print_text [OF bp texts_printed [OF 1(2) tx] session_literals(4)] obtain st2 where
      2: "sh_print env ''\<newline>'' [] st1 = Some st2" "printed env [10] st1 st2" by (auto simp: bytes_def)
    have "command_at w = Some 2" "command_funcs ! 2 = cmd_echo"
      using command_at_name [of 2] echo by (simp_all add: command_info_def command_funcs_def)
    then show ?thesis using run 1(1) 2(1) printed_trans [OF 1(2) 2(2)] out by (simp add: cmd_echo_def)
  next
    case history
    have out: "out = history_text hs" "r = 0" using assms(4) take history by (auto simp: line_result_def)
    from history_rows_prints [OF assms(1) _ assms(2), of 0] obtain st1 where
      1: "history_rows env [0..<MAX_HISTORY] st = Some st1" "printed env (history_text hs) st st1"
      by (auto simp: history_text_def)
    have "command_at w = Some 27" "command_funcs ! 27 = cmd_history_cmd"
      using command_at_name [of 27] history by (simp_all add: command_info_def command_funcs_def)
    then show ?thesis using run 1 out by (simp add: cmd_history_cmd_def)
  next
    case other
    show ?thesis
    proof (cases "plain_cmd w")
      case (Some x)
      then obtain ss where p: "plain_cmd w = Some (ss, r)" and out: "out = concat (map bytes ss)"
        using assms(4) take other by (cases x) (auto simp: line_result_def)
      from plain_prints [OF bp tx p, of args] run out show ?thesis by auto
    next
      case None
      then have n: "command_at w = None" "out = w @ bytes '': command not found\<newline>''" "r = 1"
        using assms(4) take other by (auto simp: line_result_def split: if_splits)
      have "str_ok (se_bp env) (sh_mem st) (args 0) w" using args_take [OF assms(3)] Cons by simp
      from print_not_found [OF bp tx this] run n show ?thesis by (auto simp: say_with_def)
    qed
  qed
qed

lemma execute_line_prints:
  assumes "layout_ok env" and "session_ok env st hs" and "cstr (sh_mem st) (se_line env) l" and "length l < MAX_LINE - 1"
    and "line_result hs (take 31 (line_words l)) = Some (out, r)"
  shows "\<exists>st'. shell_execute env args0 (se_line env) st = Some (r, st') \<and> session_ok env st' hs
    \<and> sh_vga st' = put_bytes out (sh_vga st) \<and> sh_kbd st' = sh_kbd st"
proof -
  let ?p = "se_line env" and ?ws = "line_words l"
  note lay = layout_rules [OF assms(1)]
  have fits: "unat ?p + length l < 2 ^ 32" using lay(5) assms(4) by simp
  have tx: "texts_ok env (sh_mem st)" using assms(2) by (simp add: session_ok_def)
  have names: "names_apart env ?p (length l)" using assms(4) by (intro layout_names [OF assms(1)]) simp
  obtain m args where 1: "shell_execute env args0 ?p st = run_words env args ?ws (upd_sh_mem (\<lambda>_. m) st)"
    "\<And>i. i < min 31 (length ?ws) \<Longrightarrow> cstr m (args i) (?ws ! i)"
    "\<And>i. i < min 31 (length ?ws) \<Longrightarrow> within ?p (length l) (args i) (?ws ! i)"
    "args (min 31 (length ?ws)) = 0" "\<And>a. a \<notin> region ?p (length l) \<Longrightarrow> m a = sh_mem st a"
    using shell_execute_words [OF assms(3) fits texts_names [OF tx] names, of args0] by metis
  let ?st = "upd_sh_mem (\<lambda>_. m) st"
  have sub: "region ?p (length l) \<subseteq> line_region env" using assms(4) by (intro region_mono) simp
  have keep: "m a = sh_mem st a" if "a \<notin> line_region env" for a using 1(5) that sub by blast
  have "texts_ok env m" using keep by (intro texts_kept [OF assms(1) tx]) blast
  moreover have "hist_holds env ?st hs"
  proof (rule hist_holds_kept [OF _ lay(2)])
    show "hist_holds env st hs" using assms(2) by (simp add: session_ok_def)
    show "sh_mem ?st a = sh_mem st a" if "a \<in> history_region env" for a
    proof -
      have "a \<notin> line_region env" using that lay(6) by blast
      then show ?thesis using keep by simp
    qed
  qed simp
  ultimately have ok: "session_ok env ?st hs" using assms(2) by (simp add: session_ok_def)
  have "str_ok (se_bp env) m (args i) (?ws ! i)" if "i < min 31 (length ?ws)" for i
  proof -
    have w: "unat ?p \<le> unat (args i)" "unat (args i) + length (?ws ! i) \<le> unat ?p + length l"
      using 1(3) [OF that] by (simp_all add: within_def)
    have "unat (args i) + Suc (length (?ws ! i)) \<le> 2 ^ 32" using w(2) fits by simp
    note at = region_iff [OF this]
    have "a \<in> line_region env" if "a \<in> region (args i) (Suc (length (?ws ! i)))" for a
    proof -
      have "unat ?p \<le> unat a" "unat a < unat ?p + MAX_LINE" using iffD1 [OF at that] w assms(4) by linarith+
      then show ?thesis using region_iff [of ?p MAX_LINE a] lay(5) by simp
    qed
    moreover have "args i \<noteq> 0" using w(1) lay(4) by auto
    moreover have len: "length (?ws ! i) < 2 ^ 31" using w assms(4) by (simp add: MAX_LINE_def)
    ultimately show ?thesis using 1(2) [OF that] lay(8) len by (auto simp: str_ok_def)
  qed
  then have "args_at env (sh_mem ?st) args 0 (take 31 ?ws)" using 1(4) by (simp add: args_at_def min.commute)
  from run_words_prints [OF assms(1) ok this assms(5)] obtain st' where
    2: "run_words env args ?ws ?st = Some (r, st')" "printed env out ?st st'" by blast
  show ?thesis using 1(1) 2(1) session_printed [OF ok 2(2) assms(1)] 2(2) by (auto simp: printed_def)
qed

subsection \<open>A session\<close>

text \<open>The keys of a session as the keyboard's buffer holds them.\<close>

definition typed_lines :: "u8 list list \<Rightarrow> u8 list" where
  "typed_lines kss = concat (map (\<lambda>ks. ks @ [10]) kss)"

lemma prompt_line_reads:
  assumes lay: "layout_ok env" and ok: "session_ok env st hs" and keys: "kb_content (sh_kbd st) = ks @ 10 # rest"
    and ks: "10 \<notin> set ks" "length ks < MAX_LINE - 1"
  shows "\<exists>st1 st2. sh_print env ''root@vaelen:~# '' [] st = Some st1 \<and> shell_getline env (se_line env) MAX_LINE st1 = Some st2
    \<and> cstr (sh_mem st2) (se_line env) (edit [] ks) \<and> session_ok env st2 (filed hs (edit [] ks))
    \<and> sh_vga st2 = put_bytes (prompt_text @ echo [] ks @ [10]) (sh_vga st) \<and> kb_content (sh_kbd st2) = rest"
proof -
  note rules = layout_rules [OF lay]
  have tx: "texts_ok env (sh_mem st)" using ok by (simp add: session_ok_def)
  have "37 \<notin> set (bytes ''root@vaelen:~# '')" by (simp add: bytes_def)
  from print_text [OF rules(1) tx session_literals(7) this] obtain st1 where
    1: "sh_print env ''root@vaelen:~# '' [] st = Some st1" "printed env prompt_text st st1"
    unfolding prompt_text_def by blast
  note ok1 = session_printed [OF ok 1(2) lay]
  have vga1: "sh_kbd st1 = sh_kbd st" "sh_vga st1 = put_bytes prompt_text (sh_vga st)" using 1(2) unfolding printed_def by blast+
  have kb: "kb_ok (sh_kbd st1)" "hist_holds env st1 hs" "texts_ok env (sh_mem st1)" using ok1 unfolding session_ok_def by blast+
  have "kb_content (sh_kbd st1) = ks @ 10 # rest" using vga1(1) keys by simp
  from getline_files [OF kb(1) this ks order.refl rules(2,6) kb(2)] obtain st2 where
    2: "shell_getline env (se_line env) MAX_LINE st1 = Some st2" "cstr (sh_mem st2) (se_line env) (edit [] ks)"
      "sh_vga st2 = put_bytes (echo [] ks @ [10]) (sh_vga st1)" "kb_ok (sh_kbd st2)"
      "kb_content (sh_kbd st2) = rest" "hist_holds env st2 (filed hs (edit [] ks))"
      "\<forall>a. a \<notin> line_region env \<union> history_region env \<longrightarrow> sh_mem st2 a = sh_mem st1 a" by blast
  have "texts_ok env (sh_mem st2)" by (rule texts_kept [OF lay kb(3)]) (use 2(7) in blast)
  then have "session_ok env st2 (filed hs (edit [] ks))" using 2(4,6) unfolding session_ok_def by blast
  moreover have "sh_vga st2 = put_bytes (prompt_text @ echo [] ks @ [10]) (sh_vga st)" using 2(3) vga1(2) by simp
  ultimately show ?thesis using 1(1) 2(1,2,5) by blast
qed

lemma shell_loop_session:
  assumes lay: "layout_ok env"
  shows "session_ok env st hs \<Longrightarrow> kb_content (sh_kbd st) = typed_lines kss @ tail \<Longrightarrow>
    list_all (\<lambda>ks. 10 \<notin> set ks \<and> length ks < MAX_LINE - 1) kss \<Longrightarrow> session hs kss = Some (out, rest) \<Longrightarrow>
    \<exists>st'. shell_loop env args0 st = Some st' \<and> sh_vga st' = put_bytes out (sh_vga st)
      \<and> kb_content (sh_kbd st') = typed_lines rest @ tail"
proof (induction kss arbitrary: st hs out)
  case Nil
  then show ?case by simp
next
  case (Cons ks kss)
  let ?l = "edit [] ks" and ?hs = "filed hs (edit [] ks)" and ?line = "se_line env"
  note rules = layout_rules [OF lay]
  have ks: "10 \<notin> set ks" "length ks < MAX_LINE - 1" using Cons.prems(3) by simp_all
  have "kb_content (sh_kbd st) = ks @ 10 # (typed_lines kss @ tail)" using Cons.prems(2) by (simp add: typed_lines_def)
  from prompt_line_reads [OF lay Cons.prems(1) this ks] obtain st1 st2 where
    1: "sh_print env ''root@vaelen:~# '' [] st = Some st1" and
    2: "shell_getline env ?line MAX_LINE st1 = Some st2" "cstr (sh_mem st2) ?line ?l" and ok2: "session_ok env st2 ?hs"
    and shown: "sh_vga st2 = put_bytes (prompt_text @ echo [] ks @ [10]) (sh_vga st)"
    and keys: "kb_content (sh_kbd st2) = typed_lines kss @ tail" by blast
  have rest: "list_all (\<lambda>ks. 10 \<notin> set ks \<and> length ks < MAX_LINE - 1) kss" using Cons.prems(3) by simp
  note step = shell_loop.simps [of env args0 st]
  show ?case
  proof (cases "?l = []")
    case True
    then obtain out1 where s: "session ?hs kss = Some (out1, rest)" "out = (prompt_text @ echo [] ks @ [10]) @ out1"
      using Cons.prems(4) by (auto simp: Let_def)
    have "sh_mem st2 ?line = 0" using 2(2) True by simp
    then have "shell_loop env args0 st = shell_loop env args0 st2" using 1 2(1) by (subst step) simp
    with Cons.IH [OF ok2 keys rest s(1)] shown s(2) show ?thesis by simp
  next
    case False
    then obtain o1 r where lr: "line_result ?hs (take 31 (line_words ?l)) = Some (o1, r)"
      using Cons.prems(4) by (auto simp: Let_def split: option.splits)
    have "length ?l < MAX_LINE - 1" using edit_length [of "[]" ks] ks(2) by simp
    from execute_line_prints [OF lay ok2 2(2) this lr, of args0] obtain st3 where
      3: "shell_execute env args0 ?line st2 = Some (r, st3)" "session_ok env st3 ?hs"
        "sh_vga st3 = put_bytes o1 (sh_vga st2)" "sh_kbd st3 = sh_kbd st2" by blast
    have nz: "sh_mem st2 ?line \<noteq> 0" using 2(2) False by (cases ?l) auto
    have run: "shell_loop env args0 st = (if r < 0 then sh_print env ''\<newline>Vaelen Linux shell terminated.\<newline>'' [] st3
        else shell_loop env args0 st3)" using 1 2(1) 3(1) nz by (subst step) simp
    show ?thesis
    proof (cases "r < 0")
      case True
      then have out: "out = (prompt_text @ echo [] ks @ [10]) @ o1 @ bytes ''\<newline>Vaelen Linux shell terminated.\<newline>''" "rest = kss"
        using Cons.prems(4) lr False by (auto simp: Let_def)
      have "texts_ok env (sh_mem st3)" using 3(2) by (simp add: session_ok_def)
      from print_text [OF rules(1) this session_literals(8)] obtain st4 where
        "sh_print env ''\<newline>Vaelen Linux shell terminated.\<newline>'' [] st3 = Some st4"
        "printed env (bytes ''\<newline>Vaelen Linux shell terminated.\<newline>'') st3 st4" by (auto simp: bytes_def)
      then show ?thesis using run True out shown keys 3(3,4) by (simp add: printed_def)
    next
      case no: False
      then obtain o2 where s: "session ?hs kss = Some (o2, rest)" "out = (prompt_text @ echo [] ks @ [10]) @ o1 @ o2"
        using Cons.prems(4) lr False by (auto simp: Let_def)
      have "kb_content (sh_kbd st3) = typed_lines kss @ tail" using keys 3(4) by simp
      from Cons.IH [OF 3(2) this rest s(1)] run no shown 3(3) s(2) show ?thesis by simp
    qed
  qed
qed

text \<open>C6. The shell refines the abstract shell: from any history that fits the ring, typed lines are
  echoed, edited, filed in the history and run in order, and the screen shows after each prompt what
  the abstract shell says, for \<open>echo\<close>, \<open>history\<close> (also once the ring of 50 lines has wrapped
  around), the commands with a fixed text, unknown names and empty lines; \<open>exit\<close> ends the shell
  and leaves the keys after it in the keyboard's buffer.\<close>

theorem shell_session:
  assumes "layout_ok env" and "session_ok env st hs" and "kb_content (sh_kbd st) = typed_lines kss @ tail"
    and "list_all (\<lambda>ks. 10 \<notin> set ks \<and> length ks < MAX_LINE - 1) kss" and "session hs kss = Some (out, rest)"
  shows "\<exists>st'. shell_loop env args0 st = Some st' \<and> sh_vga st' = put_bytes out (sh_vga st)
    \<and> kb_content (sh_kbd st') = typed_lines rest @ tail"
  using assms by (rule shell_loop_session)

text \<open>A session of three lines, the first with a character erased.\<close>

definition demo_env :: shenv where
  "demo_env = \<lparr>se_lit = lit_addr session_texts, se_bp = 0x70000, se_hist = 0x90000, se_line = 0x80000, se_dev = (\<lambda>_ _. 0)\<rparr>"

definition demo_lines :: "u8 list list" where
  "demo_lines = [bytes ''echo hj'' @ [8] @ bytes ''i'', bytes ''history'', bytes ''exit'']"

lemma demo_texts:
  assumes "s \<in> set session_texts"
  shows "str_ok (se_bp demo_env) (lit_mem session_texts) (se_lit demo_env s) (bytes s)"
    and "unat (se_lit demo_env s) + Suc (length (bytes s)) \<le> 0x60000"
proof -
  have short: "length session_texts < 0x1000" "list_all (\<lambda>s. length s < 64 \<and> 0 \<notin> set (bytes s)) session_texts"
    by code_simp+
  have l: "length s < 64" "0 \<notin> set (bytes s)" using short(2) assms by (auto simp: list_all_iff)
  have lit: "se_lit demo_env s = lit_addr session_texts s" "se_bp demo_env = 0x70000" by (simp_all add: demo_env_def)
  show u: "unat (se_lit demo_env s) + Suc (length (bytes s)) \<le> 0x60000"
    unfolding lit using lit_addr_less [OF assms short(1) l(1)] by (simp add: bytes_def)
  have "region (se_lit demo_env s) (Suc (length (bytes s))) \<inter> region (se_bp demo_env) 32 = {}"
    using u unfolding lit by (intro region_apart) simp_all
  moreover have "se_lit demo_env s \<noteq> 0" using unat_lit_addr [OF assms short(1), of 0] unfolding lit by auto
  moreover have "cstr (lit_mem session_texts) (se_lit demo_env s) (bytes s)"
    unfolding lit(1) using assms short(1) l by (rule cstr_lit_mem)
  ultimately show "str_ok (se_bp demo_env) (lit_mem session_texts) (se_lit demo_env s) (bytes s)"
    using l by (simp add: str_ok_def bytes_def)
qed

lemma demo_layout: "layout_ok demo_env"
  unfolding layout_ok_def list_all_iff
proof (intro conjI ballI)
  have e: "se_bp demo_env = 0x70000" "se_hist demo_env = 0x90000" "se_line demo_env = 0x80000"
    by (simp_all add: demo_env_def)
  show "bp_fits demo_env" "history_fits demo_env" "0 < unat (se_hist demo_env)" "0 < unat (se_line demo_env)"
    "unat (se_line demo_env) + MAX_LINE < 2 ^ 32"
    by (simp_all add: bp_fits_def history_fits_def e MAX_LINE_def MAX_HISTORY_def)
  have lh: "region 0x80000 MAX_LINE \<inter> region 0x90000 (MAX_HISTORY * MAX_LINE) = {}"
    and bh: "region 0x70000 32 \<inter> region 0x90000 (MAX_HISTORY * MAX_LINE) = {}"
    and bl: "region 0x70000 32 \<inter> region 0x80000 MAX_LINE = {}"
    by (intro region_apart; simp add: MAX_LINE_def MAX_HISTORY_def)+
  show "history_region demo_env \<inter> line_region demo_env = {}" "history_region demo_env \<inter> region (se_bp demo_env) 32 = {}"
    "line_region demo_env \<inter> region (se_bp demo_env) 32 = {}"
    using lh bh bl unfolding e by blast+
  fix s assume "s \<in> set session_texts"
  note u = demo_texts(2) [OF this]
  have "region (se_lit demo_env s) (Suc (length (bytes s))) \<inter> line_region demo_env = {}"
    "region (se_lit demo_env s) (Suc (length (bytes s))) \<inter> history_region demo_env = {}"
    using u unfolding e by (intro region_apart; simp add: MAX_LINE_def MAX_HISTORY_def)+
  then show "region (se_lit demo_env s) (Suc (length (bytes s))) \<inter> (line_region demo_env \<union> history_region demo_env) = {}"
    by blast
qed

lemma demo_session: "session [] demo_lines = Some (bytes (''root@vaelen:~# echo hj'' @ [CHR 8]
     @ ''i\<newline>hi\<newline>root@vaelen:~# history\<newline>  1  echo hi\<newline>  2  history\<newline>root@vaelen:~# exit\<newline>logout\<newline>\<newline>Vaelen Linux shell terminated.\<newline>''), [])"
  by code_simp


theorem shell_session_witness:
  "\<forall>st :: shell. \<exists>st'. shell_loop demo_env (\<lambda>_. 0) (upd_sh_mem (\<lambda>_. lit_mem session_texts)
       (st\<lparr>sh_kbd := fold kb_put (typed_lines demo_lines) keyboard_boot, hist_count := 0\<rparr>)) = Some st'
     \<and> sh_vga st' = put_bytes (bytes (''root@vaelen:~# echo hj'' @ [CHR 8]
     @ ''i\<newline>hi\<newline>root@vaelen:~# history\<newline>  1  echo hi\<newline>  2  history\<newline>root@vaelen:~# exit\<newline>logout\<newline>\<newline>Vaelen Linux shell terminated.\<newline>'')) (sh_vga st)
     \<and> kb_content (sh_kbd st') = []"
proof
  fix st :: shell
  let ?st = "upd_sh_mem (\<lambda>_. lit_mem session_texts)
    (st\<lparr>sh_kbd := fold kb_put (typed_lines demo_lines) keyboard_boot, hist_count := 0\<rparr>)"
  have boot: "kb_ok keyboard_boot" "kb_content keyboard_boot = []"
    by (simp_all add: kb_ok_def kb_content_def keyboard_boot_def)
  have "length (typed_lines demo_lines) < 256" "0 \<notin> set (typed_lines demo_lines)" by code_simp+
  moreover from this have "c \<noteq> 0" if "c \<in> set (typed_lines demo_lines)" for c using that by metis
  ultimately
  have k: "kb_ok (sh_kbd ?st)" "kb_content (sh_kbd ?st) = typed_lines demo_lines @ []"
    using kbq.puts_content [OF boot(1), of "typed_lines demo_lines"] boot(2) by simp_all
  have "texts_ok demo_env (sh_mem ?st)" using demo_texts(1) by (simp add: texts_ok_def list_all_iff)
  moreover have "hist_holds demo_env ?st []" by (simp add: hist_holds_def)
  ultimately have ok: "session_ok demo_env ?st []" using k(1) unfolding session_ok_def by blast
  have "list_all (\<lambda>ks. 10 \<notin> set ks \<and> length ks < MAX_LINE - 1) demo_lines" by code_simp
  from shell_session [OF demo_layout ok k(2) this demo_session, of "\<lambda>_. 0"]
  obtain st' where 1: "shell_loop demo_env (\<lambda>_. 0) ?st = Some st'" "kb_content (sh_kbd st') = typed_lines [] @ []"
    and 2: "sh_vga st' = put_bytes (bytes (''root@vaelen:~# echo hj'' @ [CHR 8]
     @ ''i\<newline>hi\<newline>root@vaelen:~# history\<newline>  1  echo hi\<newline>  2  history\<newline>root@vaelen:~# exit\<newline>logout\<newline>\<newline>Vaelen Linux shell terminated.\<newline>'')) (sh_vga ?st)"
    by blast
  have "sh_vga ?st = sh_vga st" by simp
  with 1 2 show "\<exists>st'. shell_loop demo_env (\<lambda>_. 0) ?st = Some st'
     \<and> sh_vga st' = put_bytes (bytes (''root@vaelen:~# echo hj'' @ [CHR 8]
     @ ''i\<newline>hi\<newline>root@vaelen:~# history\<newline>  1  echo hi\<newline>  2  history\<newline>root@vaelen:~# exit\<newline>logout\<newline>\<newline>Vaelen Linux shell terminated.\<newline>'')) (sh_vga st)
     \<and> kb_content (sh_kbd st') = []"
    by (intro exI [of _ st']) (simp add: typed_lines_def)
qed

end
