(* ===== verification/BootLog.thy ===== *)
theory BootLog
  imports Kernel
begin

text \<open>
  The log of the boot of \<open>kernel/kernel.c\<close> and what becomes of the kernel's image: the text on the
  screen and the bytes at \<open>0x100000\<close>, step by step. Screens are compared without the trace of port
  accesses, in which the initialisation of the devices leaves its own commands.
\<close>

subsection \<open>The screen without its trace\<close>

definition bare :: "vga \<Rightarrow> vga" where
  "bare v = v\<lparr>vga_trace := []\<rparr>"

lemma bare_id [simp]: "bare (bare v) = bare v" "bare (v\<lparr>vga_trace := t\<rparr>) = bare v"
  by (simp_all add: bare_def)

lemma bare_put_cell: "bare (put_cell i w v) = put_cell i w (bare v)"
  by (simp add: bare_def put_cell_def)

lemma bare_fold: "(\<And>x v. bare (f x v) = f x (bare v)) \<Longrightarrow> bare (fold f xs v) = fold f xs (bare v)"
  by (induction xs arbitrary: v) simp_all

lemma bare_copy: "bare (copy_cell y x v) = copy_cell y x (bare v)"
  unfolding copy_cell_def bare_put_cell by (simp add: bare_def)

lemma bare_blank: "bare (blank_cell y x v) = blank_cell y x (bare v)"
  unfolding blank_cell_def bare_put_cell by (simp add: bare_def)

lemma bare_scroll: "bare (vga_scroll v) = vga_scroll (bare v)"
  by (simp add: vga_scroll_def Let_def bare_fold bare_copy bare_blank)

lemma bare_glyph: "bare (put_glyph c v) = put_glyph c (bare v)"
  by (simp add: put_glyph_def Let_def bare_def put_cell_def cursor_cell_def)

lemma bare_move [simp]: "bare (vga_move_cursor x y v) = bare v"
  by (simp add: vga_move_cursor_def Let_def)

lemma bare_fields: "cursor_x (bare v) = cursor_x v" "cursor_y (bare v) = cursor_y v"
  by (simp_all add: bare_def)

text \<open>What a character does to the screen depends on the screen only.\<close>

lemma bare_putchar: "bare (vga_putchar c v) = bare (vga_putchar c (bare v))"
proof -
  let ?wrap = "\<lambda>v. if unat (cursor_x v) \<ge> VGA_WIDTH then v\<lparr>cursor_x := 0, cursor_y := cursor_y v + 1\<rparr> else v"
  let ?roll = "\<lambda>v. if unat (cursor_y v) \<ge> VGA_HEIGHT then (vga_scroll v)\<lparr>cursor_y := of_nat (VGA_HEIGHT - 1)\<rparr> else v"
  have wrap: "bare (?wrap v) = ?wrap (bare v)" for v by (simp add: bare_def)
  have "bare (v\<lparr>cursor_y := y\<rparr>) = (bare v)\<lparr>cursor_y := y\<rparr>" for v y by (simp add: bare_def)
  then have roll: "bare (?roll v) = ?roll (bare v)" for v by (simp add: bare_scroll bare_fields)
  have "bare (vga_putchar c v) = bare (?roll (?wrap (put_glyph c v)))" for v
    by (simp only: vga_putchar_def Let_def bare_move)
  then show ?thesis by (simp only: wrap roll bare_glyph bare_id)
qed

lemma bare_put_bytes: "bare (put_bytes s v) = bare (put_bytes s (bare v))"
proof (induction s arbitrary: v)
  case Nil
  then show ?case by simp
next
  case (Cons c s)
  have "bare (put_bytes s (vga_putchar c v)) = bare (put_bytes s (bare (vga_putchar c v)))" by (rule Cons)
  also have "\<dots> = bare (put_bytes s (bare (vga_putchar c (bare v))))" by (simp only: bare_putchar [of c v])
  also have "\<dots> = bare (put_bytes s (vga_putchar c (bare v)))" by (rule Cons [symmetric])
  finally show ?case by simp
qed

subsection \<open>The text of a step\<close>

abbreviation kn_vga :: "kernel \<Rightarrow> vga" where
  "kn_vga k \<equiv> sy_vga (kn_sys k)"

text \<open>
  \<open>logs env t k r\<close>: the run \<open>r\<close> from \<open>k\<close> succeeds, keeps the boot going, shows the text \<open>t\<close> and writes
  nothing to memory but the local buffer of \<open>printf\<close>.
\<close>

definition logs :: "kenv \<Rightarrow> u8 list \<Rightarrow> kernel \<Rightarrow> kernel option \<Rightarrow> bool" where
  "logs env t k r \<longleftrightarrow> (\<exists>k'. r = Some k' \<and> booting env k' \<and> bare (kn_vga k') = bare (put_bytes t (kn_vga k))
     \<and> agree (se_bp (ke_sh env)) (kn_mem k) (kn_mem k'))"

lemma logs_bind:
  assumes "logs env s k r" and "\<And>k1. booting env k1 \<Longrightarrow> logs env t k1 (f k1)"
  shows "logs env (s @ t) k (Option.bind r f)"
proof -
  obtain k1 where 1: "r = Some k1" "booting env k1" "bare (kn_vga k1) = bare (put_bytes s (kn_vga k))"
    "agree (se_bp (ke_sh env)) (kn_mem k) (kn_mem k1)"
    using assms(1) by (auto simp: logs_def)
  obtain k2 where 2: "f k1 = Some k2" "booting env k2" "bare (kn_vga k2) = bare (put_bytes t (kn_vga k1))"
    "agree (se_bp (ke_sh env)) (kn_mem k1) (kn_mem k2)"
    using assms(2) [OF 1(2)] by (auto simp: logs_def)
  have "bare (put_bytes t (kn_vga k1)) = bare (put_bytes t (put_bytes s (kn_vga k)))"
    using bare_put_bytes 1(3) by metis
  moreover have "agree (se_bp (ke_sh env)) (kn_mem k) (kn_mem k2)"
    using 1(4) 2(4) by (simp add: agree_def)
  ultimately show ?thesis using 1(1) 2 by (simp add: logs_def)
qed

lemma logs_silent: "boots env r \<Longrightarrow> (\<And>k'. r = Some k' \<Longrightarrow> bare (kn_vga k') = bare (kn_vga k) \<and> kn_mem k' = kn_mem k) \<Longrightarrow> logs env [] k r"
  by (auto simp: boots_def logs_def agree_def)

lemma logs_print:
  assumes k: "booting env k" and s: "s \<in> set boot_texts"
    and out: "render (boot_strs env) (\<lambda>i. if i < length vs then vs ! i else 0) 0 (bytes s) = Some t"
    and same: "bare (kn_vga k) = bare (kn_vga k0)" "kn_mem k = kn_mem k0"
  shows "logs env t k0 (kn_print env s vs k)"
proof -
  obtain k' where k': "kn_print env s vs k = Some k'" "booting env k'" using kn_print_boots [OF k s out] by (auto simp: boots_def)
  have lay: "boot_layout env (kn_mem k)" using k by (simp add: booting_def)
  note x = layout_text [OF lay s]
  have "unat (se_bp (ke_sh env)) + 34 \<le> 2 ^ 32" using lay by (simp add: boot_layout_def)
  from printf_loop_prints [OF this out x(1,3) boot_strs_ok [OF lay], of "kn_vga k"] obtain m' where
    p: "printf (se_bp (ke_sh env)) (se_lit (ke_sh env) s) (\<lambda>i. if i < length vs then vs ! i else 0) (kn_mem k, kn_vga k)
      = Some (m', put_bytes t (kn_vga k))" "agree (se_bp (ke_sh env)) (kn_mem k) m'"
    by (auto simp: printf_def)
  then have "k' = upd_kn_mem (\<lambda>_. m') (upd_kn_vga (\<lambda>_. put_bytes t (kn_vga k)) k)" using k'(1) by (simp add: kn_print_def)
  then have "kn_vga k' = put_bytes t (kn_vga k)" "agree (se_bp (ke_sh env)) (kn_mem k0) (kn_mem k')"
    using p(2) same(2) by (simp_all add: upd_kn_mem_def upd_kn_mm_def upd_kn_tasks_def upd_kn_vga_def kn_mem_def sys_mem_def)
  moreover have "bare (put_bytes t (kn_vga k)) = bare (put_bytes t (kn_vga k0))"
    using same(1) bare_put_bytes by metis
  ultimately show ?thesis using k' by (simp add: logs_def)
qed

lemma logs_plain:
  assumes "booting env k" and "s \<in> set boot_texts" and "37 \<notin> set (bytes s)" and "bare (kn_vga k) = bare (kn_vga k0)"
    and "kn_mem k = kn_mem k0"
  shows "logs env (bytes s) k0 (kn_print env s [] k)"
proof (rule logs_print [OF assms(1,2) _ assms(4,5)])
  have "render strs args j f = Some f" if "37 \<notin> set f" for strs args j f using that by (induction f) auto
  then show "render (boot_strs env) (\<lambda>i. if i < length [] then [] ! i else 0) 0 (bytes s) = Some (bytes s)" using assms(3) by blast
qed

lemma logs_step:
  "booting env (f k) \<Longrightarrow> s \<in> set boot_texts \<Longrightarrow> 37 \<notin> set (bytes s) \<Longrightarrow> bare (kn_vga (f k)) = bare (kn_vga k) \<Longrightarrow>
    kn_mem (f k) = kn_mem k \<Longrightarrow> logs env (bytes s) k (kn_step env f s k)"
  unfolding kn_step_def by (rule logs_plain)

lemma kn_screens [simp]:
  "bare (kn_vga (upd_kn_handlers h k)) = bare (kn_vga k)" "bare (kn_vga (kn_gdt_init env k)) = bare (kn_vga k)"
  "bare (kn_vga (kn_idt_init env k)) = bare (kn_vga k)" "bare (kn_vga (upd_kn_trace t k)) = bare (kn_vga k)"
  "kn_vga (upd_kn_mm g k) = kn_vga k" "kn_vga (upd_kn_vga w k) = w (kn_vga k)"
  by (simp_all add: upd_kn_handlers_def upd_kn_mm_def upd_kn_tasks_def kn_gdt_init_def kn_idt_init_def upd_kn_trace_def upd_kn_vga_def)

lemma logs_timer: "booting env k \<Longrightarrow> logs env [] k (kn_timer_init 100 k)"
  by (rule logs_silent [OF kn_timer_boots])
    (auto simp: kn_timer_init_def timer_init_def Let_def upd_kn_handlers_def upd_kn_mm_def upd_kn_tasks_def upd_kn_trace_def upd_kn_vga_def
      kn_mem_def sys_mem_def)

lemma logs_ata: "booting env k \<Longrightarrow> \<forall>a. ata_init (se_dev (ke_sh env)) a \<noteq> None \<Longrightarrow> logs env [] k (kn_ata_init env k)"
  by (rule logs_silent [OF kn_ata_boots])
    (auto simp: kn_ata_init_def upd_kn_trace_def upd_kn_vga_def kn_mem_def sys_mem_def)

subsection \<open>The log\<close>

lemma boot_strs_at: "boot_layout env m \<Longrightarrow> s \<in> set boot_texts \<Longrightarrow> boot_strs env (se_lit (ke_sh env) s) = Some (bytes s)"
proof -
  assume lay: "boot_layout env m" and s: "s \<in> set boot_texts"
  obtain t where t: "boot_strs env (se_lit (ke_sh env) s) = Some t" using boot_strs_text [OF s] by blast
  then have "cstr m (se_lit (ke_sh env) s) t" using boot_strs_ok [OF lay] by (simp add: strings_at_def)
  then have "t = bytes s" using cstr_unique layout_text(1) [OF lay s] by blast
  then show ?thesis using t by simp
qed

definition device_log :: "u8 list" where
  "device_log = bytes ''Booting Vaelen Linux v0.1.0 (Genesis)...\<newline>''
     @ bytes ''[OK] GDT initialized\<newline>'' @ bytes ''[OK] IDT initialized\<newline>'' @ bytes ''[OK] ISR handlers ready\<newline>''
     @ bytes ''[OK] IRQ remapped\<newline>'' @ [] @ bytes ''[OK] PIT timer at 100Hz\<newline>''
     @ bytes ''[OK] PS/2 keyboard driver loaded\<newline>'' @ [] @ bytes ''[OK] ATA disk driver initialized\<newline>''
     @ bytes ''[OK] System call interface ready\<newline>''"

lemma logs_banner:
  assumes "booting env k"
  shows "logs env (bytes ''Booting Vaelen Linux v0.1.0 (Genesis)...\<newline>'') k
    (kn_print env ''Booting %s v%s (%s)...\<newline>'' (version_args env) k)"
proof (rule logs_print [OF assms _ _ refl refl])
  have lay: "boot_layout env (kn_mem k)" using assms by (simp add: booting_def)
  have t: "KERNEL_NAME \<in> set boot_texts" "KERNEL_VERSION \<in> set boot_texts" "KERNEL_CODENAME \<in> set boot_texts"
    by (simp_all add: boot_texts_def)
  show "''Booting %s v%s (%s)...\<newline>'' \<in> set boot_texts" by (simp add: boot_texts_def)
  show "render (boot_strs env) (\<lambda>i. if i < length (version_args env) then version_args env ! i else 0) 0
      (bytes ''Booting %s v%s (%s)...\<newline>'') = Some (bytes ''Booting Vaelen Linux v0.1.0 (Genesis)...\<newline>'')"
    using layout_text(2) [OF lay t(1)] layout_text(2) [OF lay t(2)] layout_text(2) [OF lay t(3)]
      boot_strs_at [OF lay t(1)] boot_strs_at [OF lay t(2)] boot_strs_at [OF lay t(3)]
    by (simp add: bytes_def render_s version_args_def pad_l_def KERNEL_NAME_def KERNEL_VERSION_def KERNEL_CODENAME_def)
qed

lemma logs_devices:
  assumes "booting env k" and "\<forall>a. ata_init (se_dev (ke_sh env)) a \<noteq> None"
  shows "logs env device_log (upd_kn_vga (\<lambda>v. vga_setcolor 0x07 (vga_init v)) k) (boot_devices env k)"
  unfolding boot_devices_def device_log_def
  by (intro logs_bind logs_banner logs_step logs_plain logs_timer logs_ata booting_steps assms)
    (simp_all add: boot_texts_def bytes_def booting_steps assms)

lemma logs_memory:
  assumes "booting env k" and "boot_memory env k = Some k'"
  shows "booting env k'" "bare (kn_vga k') = bare (put_bytes (bytes ''[OK] Memory manager: 0 MB total\<newline>'') (kn_vga k))"
proof -
  let ?k = "upd_kn_mm (\<lambda>M. M\<lparr>mm_frames := mm_init mem_size 0x100000 (mm_frames M)\<rparr>) k"
  have b: "booting env ?k" by (rule boot_memory_booting [OF assms(1)])
  have "signed_l 0 0 False = [48]" by code_simp
  then have "render (boot_strs env) (\<lambda>i. if i < length [mem_size div 1024 div 1024] then [mem_size div 1024 div 1024] ! i else 0) 0
      (bytes ''[OK] Memory manager: %d MB total\<newline>'') = Some (bytes ''[OK] Memory manager: 0 MB total\<newline>'')"
    by (simp add: bytes_def render_d mem_size_0)
  from logs_print [OF b _ this refl refl] assms(2)
  show "booting env k'" "bare (kn_vga k') = bare (put_bytes (bytes ''[OK] Memory manager: 0 MB total\<newline>'') (kn_vga k))"
    by (simp_all add: logs_def boot_memory_def boot_texts_def)
qed

text \<open>
  What the C code of \<open>kernel_main\<close> prints from there on: a memory manager with 0 MB, and the panic of
  \<open>mm_init_paging\<close>. The functions of the kernel are not bytes of the memory here, so this is the text
  of a machine on which \<open>mm_init\<close> has not overwritten the code that prints it; the next theorem
  shows that it does write there.
\<close>

lemma boot_panic_text:
  assumes "booting env k" and "\<forall>a. ata_init (se_dev (ke_sh env)) a \<noteq> None"
  shows "\<exists>k1 k2 v. boot_devices env k = Some k1 \<and> boot_memory env k1 = Some k2
    \<and> kn_paging env k2 = Some (Inl (bytes ''Out of memory''))
    \<and> kernel_panic (kn_mem k2) (se_lit (ke_sh env) ''Out of memory'') (kn_vga k2) = Some v
    \<and> bare v = bare (put_bytes (device_log @ bytes (''[OK] Memory manager: 0 MB total\<newline>''
        @ ''\<newline>*** KERNEL PANIC ***\<newline>Kernel: Vaelen Linux v0.1.0\<newline>Error: Out of memory\<newline>\<newline>''
        @ ''System halted. Please restart your computer.\<newline>'')) (vga_setcolor 0x07 (vga_init (kn_vga k))))"
proof -
  let ?v0 = "vga_setcolor 0x07 (vga_init (kn_vga k))"
  let ?mem = "bytes ''[OK] Memory manager: 0 MB total\<newline>''"
  obtain k1 where 1: "boot_devices env k = Some k1" "booting env k1" "bare (kn_vga k1) = bare (put_bytes device_log ?v0)"
    using logs_devices [OF assms] by (auto simp: logs_def)
  obtain k2 where 2: "boot_memory env k1 = Some k2" "memory_ready env k2" using boot_memory_ready [OF 1(2)] by blast
  have shown: "bare (kn_vga k2) = bare (put_bytes (device_log @ ?mem) ?v0)"
    using logs_memory(2) [OF 1(2) 2(1)] 1(3) bare_put_bytes [of ?mem "kn_vga k1"] bare_put_bytes [of ?mem "put_bytes device_log ?v0"]
    by simp
  let ?panic = "[10] @ bytes ''*** KERNEL PANIC ***'' @ [10] @ bytes ''Kernel: Vaelen Linux v0.1.0'' @ [10] @ bytes ''Error: ''
      @ bytes ''Out of memory'' @ [10, 10] @ bytes ''System halted. Please restart your computer.'' @ [10]"
  have whole: "bytes (''[OK] Memory manager: 0 MB total\<newline>''
      @ ''\<newline>*** KERNEL PANIC ***\<newline>Kernel: Vaelen Linux v0.1.0\<newline>Error: Out of memory\<newline>\<newline>''
      @ ''System halted. Please restart your computer.\<newline>'') = ?mem @ ?panic"
    by (simp add: bytes_def)
  have "bare (put_bytes ?panic (kn_vga k2)) = bare (put_bytes (device_log @ ?mem @ ?panic) ?v0)"
    using bare_put_bytes [of ?panic "kn_vga k2"] bare_put_bytes [of ?panic "put_bytes (device_log @ ?mem) ?v0"]
    unfolding shown by (simp only: append_assoc [symmetric] put_bytes_simps(3))
  moreover have "boot_layout env (kn_mem k2)" using logs_memory(1) [OF 1(2) 2(1)] by (simp add: booting_def)
  then have "cstr (kn_mem k2) (se_lit (ke_sh env) ''Out of memory'') (bytes ''Out of memory'')"
    by (rule layout_text) (simp add: boot_texts_def)
  ultimately have "\<exists>v. kernel_panic (kn_mem k2) (se_lit (ke_sh env) ''Out of memory'') (kn_vga k2) = Some v
      \<and> bare v = bare (put_bytes (device_log @ ?mem @ ?panic) ?v0)"
    using kernel_panic_prints [of "kn_mem k2" _ "bytes ''Out of memory''" "kn_vga k2"] by blast
  then show ?thesis using 1(1) 2(1) memory_ready_panics [OF 2(2)] unfolding whole by blast
qed

text \<open>The state between \<open>mm_init\<close> and the message of the memory manager.\<close>

lemma mm_init_erases:
  fixes k :: kernel
  defines "k2 \<equiv> upd_kn_mm (\<lambda>M. M\<lparr>mm_frames := mm_init mem_size 0x100000 (mm_frames M)\<rparr>) k"
  shows "bytes_at (kn_mem k2) 0x100000 8192 = replicate 8192 0" and "kn_vga k2 = kn_vga k"
    and "a \<notin> region 0x100000 8192 \<Longrightarrow> kn_mem k2 a = kn_mem k a"
proof -
  have "kn_mem k2 = fr_mem (mm_init mem_size 0x100000 (mm_frames (kn_mm k)))"
    by (simp add: k2_def kn_mem_def sys_mem_def kn_mm_def upd_kn_mm_def upd_kn_tasks_def)
  moreover have "fr_mem (mm_frames (kn_mm k)) = kn_mem k" by (simp add: kn_mem_def sys_mem_def kn_mm_def)
  ultimately show "bytes_at (kn_mem k2) 0x100000 8192 = replicate 8192 0"
    "a \<notin> region 0x100000 8192 \<Longrightarrow> kn_mem k2 a = kn_mem k a"
    by (simp_all add: mm_init_clears_image mm_init_rest mem_size_0)
  show "kn_vga k2 = kn_vga k" by (simp add: k2_def)
qed

text \<open>C26. What a boot shows before it erases itself. Let the kernel's texts be in memory, the state of
  the memory manager zero, the disk controller answer, and the buffer of \<open>printf\<close> not lie in the first
  8 KB of the image, at \<open>0x100000\<close>. Then \<open>kernel_main\<close> reports every device on the cleared screen, down
  to the system call interface, and the image is still as it was loaded. The next call,
  \<open>mm_init\<close> with \<open>0x100000\<close> for its bitmap, sets those 8192 bytes to zero and changes nothing else in
  memory: this is where the linker script puts the kernel's code, which has to print the rest.\<close>

theorem boot_erases_image:
  assumes "booting env k" and "\<forall>a. ata_init (se_dev (ke_sh env)) a \<noteq> None"
    and "region (se_bp (ke_sh env)) 32 \<inter> region 0x100000 8192 = {}"
  shows "\<exists>k1 k2. boot_devices env k = Some k1
    \<and> bare (kn_vga k1) = bare (put_bytes device_log (vga_setcolor 0x07 (vga_init (kn_vga k))))
    \<and> bytes_at (kn_mem k1) 0x100000 8192 = bytes_at (kn_mem k) 0x100000 8192
    \<and> boot_memory env k1 = kn_print env ''[OK] Memory manager: %d MB total\<newline>'' [0] k2
    \<and> bytes_at (kn_mem k2) 0x100000 8192 = replicate 8192 0 \<and> kn_vga k2 = kn_vga k1
    \<and> (\<forall>a. a \<notin> region 0x100000 8192 \<longrightarrow> kn_mem k2 a = kn_mem k1 a)"
proof -
  let ?v0 = "upd_kn_vga (\<lambda>v. vga_setcolor 0x07 (vga_init v)) k"
  obtain k1 where 1: "boot_devices env k = Some k1" "bare (kn_vga k1) = bare (put_bytes device_log (kn_vga ?v0))"
    "agree (se_bp (ke_sh env)) (kn_mem ?v0) (kn_mem k1)"
    using logs_devices [OF assms(1,2)] by (auto simp: logs_def)
  let ?k2 = "upd_kn_mm (\<lambda>M. M\<lparr>mm_frames := mm_init mem_size 0x100000 (mm_frames M)\<rparr>) k1"
  have "kn_mem k1 a = kn_mem k a" if "a \<in> region 0x100000 8192" for a
    using 1(3) assms(3) that by (auto simp: agree_def)
  then have "bytes_at (kn_mem k1) 0x100000 8192 = bytes_at (kn_mem k) 0x100000 8192"
    unfolding bytes_at_def by (intro map_cong refl) (auto simp: region_def)
  moreover have "boot_memory env k1 = kn_print env ''[OK] Memory manager: %d MB total\<newline>'' [0] ?k2"
    by (simp add: boot_memory_def mem_size_0)
  ultimately show ?thesis
    using 1(1,2) mm_init_erases [where k = k1] by (intro exI [of _ k1] exI [of _ ?k2]) simp
qed

theorem boot_erases_image_witness:
  "\<forall>k B H. \<exists>k1. boot_devices quiet_env (upd_kn_mm (\<lambda>_. mm_boot (frames0\<lparr>fr_mem := lit_mem boot_texts\<rparr>) B H) k) = Some k1
     \<and> bare (kn_vga k1) = bare (put_bytes device_log (vga_setcolor 0x07 (vga_init (kn_vga k))))"
proof (intro allI)
  fix k B H
  let ?k = "upd_kn_mm (\<lambda>_. mm_boot (frames0\<lparr>fr_mem := lit_mem boot_texts\<rparr>) B H) k"
  have "booting quiet_env ?k" by (rule quiet_boots) simp
  moreover have "\<forall>a. ata_init (se_dev (ke_sh quiet_env)) a \<noteq> None" using no_drive by (simp add: quiet_env_def)
  moreover have "region (se_bp (ke_sh quiet_env)) 32 \<inter> region 0x100000 8192 = {}"
    by (rule region_apart) (simp_all add: quiet_env_def)
  ultimately show "\<exists>k1. boot_devices quiet_env ?k = Some k1
      \<and> bare (kn_vga k1) = bare (put_bytes device_log (vga_setcolor 0x07 (vga_init (kn_vga k))))"
    using boot_erases_image [of quiet_env ?k] by auto
qed

end
