(* ===== verification/Assembly.thy ===== *)
theory Assembly
  imports Syscall Descriptors
begin

text \<open>
  The assembly of the kernel, instruction by instruction: the interrupt stubs of
  \<open>arch/x86_64/irq.s\<close>, the loads of the descriptor tables and the context switch of
  \<open>arch/x86_64/gdt_flush.s\<close>, the entry and the paging helpers of \<open>arch/x86_64/boot.s\<close>. The stack lies
  in the flat byte memory. The lists of words that \<open>Interrupts\<close> uses as frames, and the processor
  state that \<open>Task\<close> computes for a context switch, are shown to be what the instructions produce.
\<close>

subsection \<open>The machine\<close>

datatype reg = EAX | EBX | ECX | EDX | ESI | EDI | EBP | ESP

datatype seg_reg = DS | ES | FS | GS | SS

record machine =
  mc_cpu :: cpu
  mc_ss :: u32
  mc_cr0 :: u32
  mc_cr3 :: u32
  mc_gdtr :: table_ptr
  mc_idtr :: table_ptr
  mc_mem :: mem

fun get_reg :: "reg \<Rightarrow> cpu \<Rightarrow> u32" where
  "get_reg EAX c = c_eax c"
| "get_reg EBX c = c_ebx c"
| "get_reg ECX c = c_ecx c"
| "get_reg EDX c = c_edx c"
| "get_reg ESI c = c_esi c"
| "get_reg EDI c = c_edi c"
| "get_reg EBP c = c_ebp c"
| "get_reg ESP c = c_esp c"

fun put_reg :: "reg \<Rightarrow> u32 \<Rightarrow> cpu \<Rightarrow> cpu" where
  "put_reg EAX w c = c\<lparr>c_eax := w\<rparr>"
| "put_reg EBX w c = c\<lparr>c_ebx := w\<rparr>"
| "put_reg ECX w c = c\<lparr>c_ecx := w\<rparr>"
| "put_reg EDX w c = c\<lparr>c_edx := w\<rparr>"
| "put_reg ESI w c = c\<lparr>c_esi := w\<rparr>"
| "put_reg EDI w c = c\<lparr>c_edi := w\<rparr>"
| "put_reg EBP w c = c\<lparr>c_ebp := w\<rparr>"
| "put_reg ESP w c = c\<lparr>c_esp := w\<rparr>"

fun get_seg :: "seg_reg \<Rightarrow> machine \<Rightarrow> u32" where
  "get_seg DS m = c_ds (mc_cpu m)"
| "get_seg ES m = c_es (mc_cpu m)"
| "get_seg FS m = c_fs (mc_cpu m)"
| "get_seg GS m = c_gs (mc_cpu m)"
| "get_seg SS m = mc_ss m"

text \<open>A segment register holds the low 16 bits of what is moved or popped into it.\<close>

definition selector :: "u32 \<Rightarrow> u32" where
  "selector w = w AND 0xFFFF"

fun put_seg :: "seg_reg \<Rightarrow> u32 \<Rightarrow> machine \<Rightarrow> machine" where
  "put_seg DS w m = m\<lparr>mc_cpu := (mc_cpu m)\<lparr>c_ds := selector w\<rparr>\<rparr>"
| "put_seg ES w m = m\<lparr>mc_cpu := (mc_cpu m)\<lparr>c_es := selector w\<rparr>\<rparr>"
| "put_seg FS w m = m\<lparr>mc_cpu := (mc_cpu m)\<lparr>c_fs := selector w\<rparr>\<rparr>"
| "put_seg GS w m = m\<lparr>mc_cpu := (mc_cpu m)\<lparr>c_gs := selector w\<rparr>\<rparr>"
| "put_seg SS w m = m\<lparr>mc_ss := selector w\<rparr>"

definition set_reg :: "reg \<Rightarrow> u32 \<Rightarrow> machine \<Rightarrow> machine" where
  "set_reg r w m = m\<lparr>mc_cpu := put_reg r w (mc_cpu m)\<rparr>"

definition top :: "machine \<Rightarrow> u32" where
  "top m = word_at (mc_mem m) (c_esp (mc_cpu m))"

definition push :: "u32 \<Rightarrow> machine \<Rightarrow> machine" where
  "push w m = m\<lparr>mc_mem := put_word (mc_mem m) (c_esp (mc_cpu m) - 4) w,
     mc_cpu := (mc_cpu m)\<lparr>c_esp := c_esp (mc_cpu m) - 4\<rparr>\<rparr>"

definition drop_top :: "machine \<Rightarrow> machine" where
  "drop_top m = m\<lparr>mc_cpu := (mc_cpu m)\<lparr>c_esp := c_esp (mc_cpu m) + 4\<rparr>\<rparr>"

subsection \<open>Instructions\<close>

text \<open>
  The instructions the files use. \<open>CALL f ra\<close> pushes the return address \<open>ra\<close> and runs the C function
  \<open>f\<close>; a load or store has a base register and an offset.
\<close>

datatype instr =
    CLI
  | PUSH_BYTE u8
  | PUSH reg
  | POP reg
  | PUSH_SEG seg_reg
  | POP_SEG seg_reg
  | PUSHA
  | POPA
  | MOV reg reg
  | MOV_IMM reg u32
  | MOV_AX u16
  | MOV_SEG seg_reg
  | LOAD reg reg u32
  | STORE reg u32 reg
  | ADD_ESP u32
  | OR_EAX u32
  | LGDT reg
  | LIDT reg
  | MOV_FROM_CR0 reg
  | MOV_TO_CR0 reg
  | MOV_TO_CR3 reg
  | JMP_FAR u32
  | CALL string ptr
  | RET
  | IRET

text \<open>
  Parameters: what a called function does, from its first instruction to its return, and how the
  result of an addition or a logical operation changes the flags.
\<close>

record outside =
  callee :: "string \<Rightarrow> machine \<Rightarrow> machine option"
  flags_of :: "u32 \<Rightarrow> u32 \<Rightarrow> u32"

definition pusha_regs :: "machine \<Rightarrow> machine" where
  "pusha_regs m = (let c = mc_cpu m
     in fold push [c_eax c, c_ecx c, c_edx c, c_ebx c, c_esp c, c_ebp c, c_esi c, c_edi c] m)"

definition pop_reg :: "reg \<Rightarrow> machine \<Rightarrow> machine" where
  "pop_reg r m = set_reg r (top m) (drop_top m)"

definition popa_regs :: "machine \<Rightarrow> machine" where
  "popa_regs m = fold pop_reg [EBX, EDX, ECX, EAX] (drop_top (fold pop_reg [EDI, ESI, EBP] m))"

definition load_table :: "ptr \<Rightarrow> mem \<Rightarrow> table_ptr" where
  "load_table a m = \<lparr>tp_limit = ucast (word_at m a), tp_base = word_at m (a + 2)\<rparr>"

definition set_flags :: "u32 \<Rightarrow> machine \<Rightarrow> machine" where
  "set_flags f m = m\<lparr>mc_cpu := (mc_cpu m)\<lparr>c_eflags := f\<rparr>\<rparr>"

fun step :: "outside \<Rightarrow> instr \<Rightarrow> machine \<Rightarrow> machine option" where
  "step X CLI m = Some (set_flags (c_eflags (mc_cpu m) AND NOT 0x200) m)"
| "step X (PUSH_BYTE b) m = Some (push (scast b) m)"
| "step X (PUSH r) m = Some (push (get_reg r (mc_cpu m)) m)"
| "step X (POP r) m = Some (pop_reg r m)"
| "step X (PUSH_SEG s) m = Some (push (get_seg s m) m)"
| "step X (POP_SEG s) m = Some (put_seg s (top m) (drop_top m))"
| "step X PUSHA m = Some (pusha_regs m)"
| "step X POPA m = Some (popa_regs m)"
| "step X (MOV r s) m = Some (set_reg r (get_reg s (mc_cpu m)) m)"
| "step X (MOV_IMM r w) m = Some (set_reg r w m)"
| "step X (MOV_AX w) m = Some (set_reg EAX ((c_eax (mc_cpu m) AND 0xFFFF0000) OR ucast w) m)"
| "step X (MOV_SEG s) m = Some (put_seg s (c_eax (mc_cpu m)) m)"
| "step X (LOAD r b k) m = Some (set_reg r (word_at (mc_mem m) (get_reg b (mc_cpu m) + k)) m)"
| "step X (STORE b k r) m = Some (m\<lparr>mc_mem := put_word (mc_mem m) (get_reg b (mc_cpu m) + k) (get_reg r (mc_cpu m))\<rparr>)"
| "step X (ADD_ESP n) m = (let w = c_esp (mc_cpu m) + n
     in Some (set_flags (flags_of X (c_eflags (mc_cpu m)) w) (set_reg ESP w m)))"
| "step X (OR_EAX n) m = (let w = c_eax (mc_cpu m) OR n
     in Some (set_flags (flags_of X (c_eflags (mc_cpu m)) w) (set_reg EAX w m)))"
| "step X (LGDT r) m = Some (m\<lparr>mc_gdtr := load_table (get_reg r (mc_cpu m)) (mc_mem m)\<rparr>)"
| "step X (LIDT r) m = Some (m\<lparr>mc_idtr := load_table (get_reg r (mc_cpu m)) (mc_mem m)\<rparr>)"
| "step X (MOV_FROM_CR0 r) m = Some (set_reg r (mc_cr0 m) m)"
| "step X (MOV_TO_CR0 r) m = Some (m\<lparr>mc_cr0 := get_reg r (mc_cpu m)\<rparr>)"
| "step X (MOV_TO_CR3 r) m = Some (m\<lparr>mc_cr3 := get_reg r (mc_cpu m)\<rparr>)"
| "step X (JMP_FAR s) m = Some (m\<lparr>mc_cpu := (mc_cpu m)\<lparr>c_cs := s\<rparr>\<rparr>)"
| "step X (CALL f ra) m = callee X f (push ra m)"
| "step X RET m = Some ((drop_top m)\<lparr>mc_cpu := (mc_cpu (drop_top m))\<lparr>c_eip := top m\<rparr>\<rparr>)"
| "step X IRET m = (let m1 = drop_top m; m2 = drop_top m1; m3 = drop_top m2
     in Some (m3\<lparr>mc_cpu := (mc_cpu m3)\<lparr>c_eip := top m, c_cs := selector (top m1), c_eflags := top m2\<rparr>\<rparr>))"

text \<open>The pieces of code are run from their label to the jump, return or call that ends them.\<close>

fun run :: "outside \<Rightarrow> instr list \<Rightarrow> machine \<Rightarrow> machine option" where
  "run X [] m = Some m"
| "run X (i # is) m = Option.bind (step X i m) (run X is)"

subsection \<open>The code\<close>

text \<open>\<open>isr_common_stub\<close> and \<open>irq_common_stub\<close> differ in the function they call.\<close>

definition common_stub_code :: "string \<Rightarrow> ptr \<Rightarrow> instr list" where
  "common_stub_code f ra =
     [PUSHA, PUSH_SEG DS, PUSH_SEG ES, PUSH_SEG FS, PUSH_SEG GS, MOV_AX 0x10, MOV_SEG DS, MOV_SEG ES, MOV_SEG FS,
      MOV_SEG GS, PUSH ESP, CALL f ra, ADD_ESP 4, POP_SEG GS, POP_SEG FS, POP_SEG ES, POP_SEG DS, POPA, ADD_ESP 8, IRET]"

definition isr_noerr_code :: "u8 \<Rightarrow> ptr \<Rightarrow> instr list" where
  "isr_noerr_code n ra = [CLI, PUSH_BYTE 0, PUSH_BYTE n] @ common_stub_code ''isr_handler'' ra"

definition isr_err_code :: "u8 \<Rightarrow> ptr \<Rightarrow> instr list" where
  "isr_err_code n ra = [CLI, PUSH_BYTE n] @ common_stub_code ''isr_handler'' ra"

definition irq_code :: "u8 \<Rightarrow> ptr \<Rightarrow> instr list" where
  "irq_code n ra = [CLI, PUSH_BYTE 0, PUSH_BYTE n] @ common_stub_code ''irq_handler'' ra"

definition isr128_code :: "ptr \<Rightarrow> instr list" where
  "isr128_code ra = [CLI, PUSH_BYTE 0, PUSH_BYTE 128] @ common_stub_code ''isr_handler'' ra"

definition gdt_flush_code :: "instr list" where
  "gdt_flush_code = [LOAD EAX ESP 4, LGDT EAX, MOV_AX 0x10, MOV_SEG DS, MOV_SEG ES, MOV_SEG FS, MOV_SEG GS,
     MOV_SEG SS, JMP_FAR 0x08, RET]"

definition idt_flush_code :: "instr list" where
  "idt_flush_code = [LOAD EAX ESP 4, LIDT EAX, RET]"

definition task_switch_context_code :: "instr list" where
  "task_switch_context_code =
     [PUSH EBP, MOV EBP ESP, PUSH EBX, PUSH ESI, PUSH EDI,
      LOAD EAX EBP 8, STORE EAX 0 EAX, STORE EAX 4 EBX, STORE EAX 8 ECX, STORE EAX 12 EDX, STORE EAX 16 ESI,
      STORE EAX 20 EDI,
      LOAD EDX EBP 12,
      LOAD EAX EDX 0, LOAD EBX EDX 4, LOAD ECX EDX 8, LOAD EDX EDX 12, LOAD ESI EDX 16, LOAD EDI EDX 20,
      POP EDI, POP ESI, POP EBX, POP EBP, RET]"

definition start_code :: "ptr \<Rightarrow> ptr \<Rightarrow> instr list" where
  "start_code stack_top ra = [MOV_IMM ESP stack_top, PUSH EAX, PUSH EBX, CALL ''kernel_main'' ra]"

definition load_page_directory_code :: "instr list" where
  "load_page_directory_code = [PUSH EBP, MOV EBP ESP, LOAD EAX EBP 8, MOV_TO_CR3 EAX, MOV ESP EBP, POP EBP, RET]"

definition enable_paging_code :: "instr list" where
  "enable_paging_code = [PUSH EBP, MOV EBP ESP, MOV_FROM_CR0 EAX, OR_EAX 0x80000000, MOV_TO_CR0 EAX, MOV ESP EBP,
     POP EBP, RET]"

subsection \<open>Words on the stack\<close>

definition on_stack :: "machine \<Rightarrow> u32 list \<Rightarrow> bool" where
  "on_stack m ws \<longleftrightarrow> stack_at (mc_mem m) (c_esp (mc_cpu m)) ws"

lemma on_stack_push: "on_stack m ws \<Longrightarrow> 4 * length ws + 4 \<le> 2 ^ 32 \<Longrightarrow> on_stack (push w m) (w # ws)"
  unfolding on_stack_def push_def using stack_at_push by simp

lemma push_simps [simp]:
  "mc_cpu (push w m) = (mc_cpu m)\<lparr>c_esp := c_esp (mc_cpu m) - 4\<rparr>" "mc_ss (push w m) = mc_ss m"
  "mc_cr0 (push w m) = mc_cr0 m" "mc_cr3 (push w m) = mc_cr3 m" "mc_gdtr (push w m) = mc_gdtr m" "mc_idtr (push w m) = mc_idtr m"
  by (simp_all add: push_def)

text \<open>Pushing a list of words, the last one first.\<close>

lemma on_stack_pushes:
  "on_stack m ws \<Longrightarrow> 4 * (length vs + length ws) \<le> 2 ^ 32 \<Longrightarrow> on_stack (foldr push vs m) (vs @ ws)"
  by (induction vs) (simp_all add: on_stack_push)

lemma pushes_simps:
  "mc_cpu (foldr push vs m) = (mc_cpu m)\<lparr>c_esp := c_esp (mc_cpu m) - of_nat (4 * length vs)\<rparr>"
  "mc_ss (foldr push vs m) = mc_ss m" "mc_cr0 (foldr push vs m) = mc_cr0 m" "mc_cr3 (foldr push vs m) = mc_cr3 m"
  "mc_gdtr (foldr push vs m) = mc_gdtr m" "mc_idtr (foldr push vs m) = mc_idtr m"
  by (induction vs) (simp_all add: algebra_simps)

text \<open>\<open>system_kept m m'\<close>: the registers of the machine beside the processor's own are the same.\<close>

definition system_kept :: "machine \<Rightarrow> machine \<Rightarrow> bool" where
  "system_kept m m' \<longleftrightarrow> mc_ss m' = mc_ss m \<and> mc_cr0 m' = mc_cr0 m \<and> mc_cr3 m' = mc_cr3 m
     \<and> mc_gdtr m' = mc_gdtr m \<and> mc_idtr m' = mc_idtr m"

text \<open>\<open>grown k m m'\<close>: the stack has \<open>k\<close> words more and no other memory or system register has changed.\<close>

definition grown :: "nat \<Rightarrow> machine \<Rightarrow> machine \<Rightarrow> bool" where
  "grown k m m' \<longleftrightarrow> c_esp (mc_cpu m') = c_esp (mc_cpu m) - of_nat (4 * k) \<and> system_kept m m'
     \<and> (\<forall>a. a \<notin> region (c_esp (mc_cpu m) - of_nat (4 * k)) (4 * k) \<longrightarrow> mc_mem m' a = mc_mem m a)"

lemma grown_0: "c_esp (mc_cpu m') = c_esp (mc_cpu m) \<Longrightarrow> mc_mem m' = mc_mem m \<Longrightarrow> system_kept m m' \<Longrightarrow> grown 0 m m'"
  by (simp add: grown_def)

lemma grown_push: "grown 1 m (push w m)"
  by (simp add: grown_def system_kept_def) (simp add: push_def put_word_other)

lemma grown_trans [trans]:
  assumes "grown j m m1" and "grown k m1 m2"
  shows "grown (j + k) m m2"
proof -
  let ?q = "c_esp (mc_cpu m) - of_nat (4 * (j + k))"
  have q: "?q + of_nat (4 * k) = c_esp (mc_cpu m) - of_nat (4 * j)" "c_esp (mc_cpu m1) - of_nat (4 * k) = ?q"
    using assms(1) by (simp_all add: grown_def algebra_simps)
  have "region (?q + of_nat (4 * k)) (4 * j) \<subseteq> region ?q (4 * (j + k))" "region ?q (4 * k) \<subseteq> region ?q (4 * (j + k))"
    using region_from [of ?q "4 * k" "4 * j"] region_mono [of "4 * k" "4 * (j + k)" ?q] by (simp_all add: algebra_simps)
  note sub = this
  have "mc_mem m2 a = mc_mem m a" if "a \<notin> region ?q (4 * (j + k))" for a
  proof -
    have "a \<notin> region (c_esp (mc_cpu m1) - of_nat (4 * k)) (4 * k)" using that sub(2) unfolding q(2) by blast
    then have "mc_mem m2 a = mc_mem m1 a" using assms(2) unfolding grown_def by blast
    moreover have "a \<notin> region (c_esp (mc_cpu m) - of_nat (4 * j)) (4 * j)" using that sub(1) unfolding q(1) by blast
    then have "mc_mem m1 a = mc_mem m a" using assms(1) unfolding grown_def by blast
    ultimately show ?thesis by simp
  qed
  moreover have "c_esp (mc_cpu m2) = ?q" using assms(2) q(2) unfolding grown_def by metis
  moreover have "system_kept m m2" using assms by (simp add: grown_def system_kept_def)
  ultimately show ?thesis unfolding grown_def by blast
qed

lemma grown_pushes: "length vs = n \<Longrightarrow> grown n m (foldr push vs m)"
proof (induction vs arbitrary: n)
  case Nil
  then show ?case by (simp add: grown_0 system_kept_def)
next
  case (Cons v vs)
  from grown_trans [OF Cons.IH [OF refl] grown_push [of "foldr push vs m" v]] Cons.prems show ?case by simp
qed

subsection \<open>The interrupt stubs\<close>

text \<open>
  The processor enters a gate of the current privilege level: it pushes the flags, the code
  segment and the instruction pointer, and for some exceptions an error code, and clears the
  flags an interrupt gate clears.
\<close>

definition interrupt :: "u32 option \<Rightarrow> ptr \<Rightarrow> machine \<Rightarrow> machine" where
  "interrupt err target m =
     (let c = mc_cpu m; m1 = foldr push ((case err of None \<Rightarrow> [] | Some e \<Rightarrow> [e]) @ cpu_pushes c []) m
      in m1\<lparr>mc_cpu := (mc_cpu m1)\<lparr>c_eip := target, c_cs := 0x08, c_eflags := c_eflags c AND NOT 0x34300\<rparr>\<rparr>)"

definition segments_fit :: "cpu \<Rightarrow> bool" where
  "segments_fit c \<longleftrightarrow> list_all (\<lambda>s. selector s = s) [c_cs c, c_ds c, c_es c, c_fs c, c_gs c]"

text \<open>
  What the calling convention makes a C function keep: the stack pointer is back above the return
  address, and the stack above its argument is as it was.
\<close>

definition frame_kept :: "machine \<Rightarrow> machine \<Rightarrow> bool" where
  "frame_kept m1 m2 \<longleftrightarrow> c_esp (mc_cpu m2) = c_esp (mc_cpu m1) + 4
     \<and> (\<forall>a \<in> region (c_esp (mc_cpu m1) + 8) 68. mc_mem m2 a = mc_mem m1 a)"

definition stub_exit :: "instr list" where
  "stub_exit = [ADD_ESP 4, POP_SEG GS, POP_SEG FS, POP_SEG ES, POP_SEG DS, POPA, ADD_ESP 8, IRET]"

text \<open>The exit restores the processor from the frame the handler left.\<close>

lemma stub_exit_restores:
  assumes "on_stack m [x, g, f, e, d, di, si, bp, sp, bx, dx, cx, ax, n, err, ip, cs, fl]"
  shows "run X stub_exit m = Some (m\<lparr>mc_cpu := \<lparr>c_eax = ax, c_ebx = bx, c_ecx = cx, c_edx = dx, c_esi = si, c_edi = di,
    c_ebp = bp, c_esp = c_esp (mc_cpu m) + 72, c_ds = selector d, c_es = selector e, c_fs = selector f, c_gs = selector g,
    c_eip = ip, c_cs = selector cs, c_eflags = fl\<rparr>\<rparr>)"
proof -
  have "run X stub_exit m = Some (m\<lparr>mc_cpu := (mc_cpu m)\<lparr>c_eax := ax, c_ebx := bx, c_ecx := cx, c_edx := dx, c_esi := si,
    c_edi := di, c_ebp := bp, c_esp := c_esp (mc_cpu m) + 72, c_ds := selector d, c_es := selector e, c_fs := selector f,
    c_gs := selector g, c_eip := ip, c_cs := selector cs, c_eflags := fl\<rparr>\<rparr>)"
    using assms by (simp add: stub_exit_def on_stack_def Let_def top_def drop_top_def set_reg_def set_flags_def
        popa_regs_def pop_reg_def)
  then show ?thesis by simp
qed

text \<open>The machine with its registers saved, in the kernel's segments, and when the dispatcher is called.\<close>

definition saved :: "machine \<Rightarrow> machine" where
  "saved m = foldr push (push_segments (mc_cpu m) (pusha (mc_cpu m) (c_esp (mc_cpu m)) [])) m"

definition in_kernel :: "machine \<Rightarrow> machine" where
  "in_kernel m = m\<lparr>mc_cpu := (mc_cpu m)\<lparr>c_eax := (c_eax (mc_cpu m) AND 0xFFFF0000) OR 0x10,
     c_ds := 0x10, c_es := 0x10, c_fs := 0x10, c_gs := 0x10\<rparr>\<rparr>"

definition stub_entry :: "ptr \<Rightarrow> machine \<Rightarrow> machine" where
  "stub_entry ra m = push ra (push (c_esp (mc_cpu m) - 48) (in_kernel (saved m)))"

lemma saved_cpu [simp]: "mc_cpu (saved m) = (mc_cpu m)\<lparr>c_esp := c_esp (mc_cpu m) - 48\<rparr>"
  by (simp add: saved_def pushes_simps push_segments_def pusha_def del: foldr.simps)

lemma in_kernel_simps [simp]: "c_esp (mc_cpu (in_kernel m)) = c_esp (mc_cpu m)" "mc_mem (in_kernel m) = mc_mem m"
  "on_stack (in_kernel m) ws = on_stack m ws"
  by (simp_all add: in_kernel_def on_stack_def)

lemma selector_ax: "selector ((x AND 0xFFFF0000) OR 0x10) = 0x10"
proof -
  have "(x AND 0xFFFF0000) AND 0xFFFF = x AND (0xFFFF0000 AND 0xFFFF)" by (simp only: and.assoc)
  then show ?thesis by (simp add: selector_def bit.conj_disj_distrib2)
qed

lemma run_append: "run X (xs @ ys) m = Option.bind (run X xs m) (run X ys)"
proof (induction xs arbitrary: m)
  case (Cons i xs)
  then show ?case by (cases "step X i m") simp_all
qed simp

lemma saved_run: "run X [PUSHA, PUSH_SEG DS, PUSH_SEG ES, PUSH_SEG FS, PUSH_SEG GS] m = Some (saved m)"
  by (simp add: saved_def pusha_regs_def push_segments_def pusha_def Let_def)

lemma in_kernel_run: "run X [MOV_AX 0x10, MOV_SEG DS, MOV_SEG ES, MOV_SEG FS, MOV_SEG GS] m = Some (in_kernel m)"
  by (simp add: set_reg_def selector_ax in_kernel_def)

lemma common_stub_run:
  "run X (common_stub_code fn ra) m = Option.bind (callee X fn (stub_entry ra m)) (run X stub_exit)"
proof -
  have "common_stub_code fn ra = [PUSHA, PUSH_SEG DS, PUSH_SEG ES, PUSH_SEG FS, PUSH_SEG GS]
      @ [MOV_AX 0x10, MOV_SEG DS, MOV_SEG ES, MOV_SEG FS, MOV_SEG GS] @ [PUSH ESP, CALL fn ra] @ stub_exit"
    by (simp add: common_stub_code_def stub_exit_def)
  then have "run X (common_stub_code fn ra) m = run X ([PUSH ESP, CALL fn ra] @ stub_exit) (in_kernel (saved m))"
    by (simp only: run_append saved_run in_kernel_run Option.bind.simps)
  then show ?thesis by (simp add: stub_entry_def)
qed

lemma stub_entry_stack:
  assumes "on_stack m ws" and "length ws \<le> 100"
  shows "on_stack (stub_entry ra m) (ra # (c_esp (mc_cpu m) - 48) # push_segments (mc_cpu m) (pusha (mc_cpu m) (c_esp (mc_cpu m)) ws))"
proof -
  let ?frame = "push_segments (mc_cpu m) (pusha (mc_cpu m) (c_esp (mc_cpu m)) [])"
  have len: "length ?frame = 12" by (simp add: push_segments_def pusha_def)
  have "on_stack (saved m) (?frame @ ws)"
    unfolding saved_def using assms(2) len by (intro on_stack_pushes [OF assms(1)]) simp
  then have "on_stack (stub_entry ra m) (ra # (c_esp (mc_cpu m) - 48) # ?frame @ ws)"
    unfolding stub_entry_def using assms(2) len by (intro on_stack_push) simp_all
  then show ?thesis by (simp add: push_segments_def pusha_def)
qed

lemma stub_entry_esp: "c_esp (mc_cpu (stub_entry ra m)) = c_esp (mc_cpu m) - 56"
  by (simp add: stub_entry_def)

lemma on_stack_Cons: "on_stack m (w # ws) \<longleftrightarrow> top m = w \<and> on_stack (drop_top m) ws"
  by (simp add: on_stack_def top_def drop_top_def)

lemma on_stack_kept:
  assumes "on_stack m1 (ra # p # ws)" and "frame_kept m1 m2" and "length ws = 17"
  shows "on_stack m2 (word_at (mc_mem m2) (c_esp (mc_cpu m2)) # ws)"
proof -
  have "stack_at (mc_mem m1) (c_esp (mc_cpu m1) + 8) ws" using assms(1) by (simp add: on_stack_def add.commute)
  moreover have "stack_at (mc_mem m2) (c_esp (mc_cpu m1) + 8) ws = stack_at (mc_mem m1) (c_esp (mc_cpu m1) + 8) ws"
    by (rule stack_at_cong) (use assms(2,3) in \<open>simp add: frame_kept_def\<close>)
  ultimately show ?thesis using assms(2) by (simp add: on_stack_def frame_kept_def add.commute)
qed

lemma stub_transparent:
  assumes "on_stack m0 (num # err # cpu_pushes c [])" and "segments_fit c"
    and "mc_cpu m0 = c\<lparr>c_esp := c_esp c - 20, c_eip := i, c_cs := k, c_eflags := f\<rparr>"
  shows "on_stack (stub_entry ra m0) (ra # (c_esp c - 68) # common_stub c (num # err # cpu_pushes c []))"
    and "callee X fn (stub_entry ra m0) = Some m2 \<Longrightarrow> frame_kept (stub_entry ra m0) m2 \<Longrightarrow>
      run X (common_stub_code fn ra) m0 = Some (m2\<lparr>mc_cpu := c\<rparr>)"
proof -
  have "length (num # err # cpu_pushes c []) \<le> 100" by (simp add: cpu_pushes_def)
  from stub_entry_stack [OF assms(1) this, of ra]
  show st: "on_stack (stub_entry ra m0) (ra # (c_esp c - 68) # common_stub c (num # err # cpu_pushes c []))"
    by (simp add: assms(3) common_stub_def push_segments_def pusha_def)
  assume call: "callee X fn (stub_entry ra m0) = Some m2" and kept: "frame_kept (stub_entry ra m0) m2"
  have esp: "c_esp (mc_cpu m2) + 72 = c_esp c"
    using kept stub_entry_esp [of ra m0] assms(3) by (simp add: frame_kept_def)
  have "length (common_stub c (num # err # cpu_pushes c [])) = 17"
    by (simp add: common_stub_def push_segments_def pusha_def cpu_pushes_def)
  from on_stack_kept [OF st kept this]
  have "run X stub_exit m2 = Some (m2\<lparr>mc_cpu := \<lparr>c_eax = c_eax c, c_ebx = c_ebx c, c_ecx = c_ecx c, c_edx = c_edx c,
    c_esi = c_esi c, c_edi = c_edi c, c_ebp = c_ebp c, c_esp = c_esp (mc_cpu m2) + 72, c_ds = selector (c_ds c),
    c_es = selector (c_es c), c_fs = selector (c_fs c), c_gs = selector (c_gs c), c_eip = c_eip c,
    c_cs = selector (c_cs c), c_eflags = c_eflags c\<rparr>\<rparr>)"
    by (intro stub_exit_restores) (simp add: common_stub_def push_segments_def pusha_def cpu_pushes_def)
  then show "run X (common_stub_code fn ra) m0 = Some (m2\<lparr>mc_cpu := c\<rparr>)"
    using call assms(2) by (simp add: common_stub_run esp segments_fit_def)
qed

lemma stub_entry_grown: "grown 14 m (stub_entry ra m)"
proof -
  have "grown 12 m (saved m)"
    unfolding saved_def by (rule grown_pushes) (simp add: push_segments_def pusha_def)
  moreover have "grown 0 (saved m) (in_kernel (saved m))" by (simp add: grown_0 system_kept_def in_kernel_def)
  ultimately have "grown (12 + 0) m (in_kernel (saved m))" by (rule grown_trans)
  from grown_trans [OF grown_trans [OF this grown_push] grown_push]
  have "grown (12 + 0 + 1 + 1) m (stub_entry ra m)" unfolding stub_entry_def .
  then show ?thesis by simp
qed

text \<open>What the processor and the first instructions of a stub push.\<close>

definition numbered :: "u8 \<Rightarrow> u32 option \<Rightarrow> ptr \<Rightarrow> machine \<Rightarrow> machine" where
  "numbered n err target m =
     (let m1 = interrupt err target m; m2 = set_flags (c_eflags (mc_cpu m1) AND NOT 0x200) m1
      in push (scast n) (case err of None \<Rightarrow> push (scast (0 :: u8)) m2 | Some e \<Rightarrow> m2))"

lemma numbered_run:
  "run X (irq_code n ra) (interrupt None target m) = run X (common_stub_code ''irq_handler'' ra) (numbered n None target m)"
  "run X (isr_noerr_code n ra) (interrupt None target m) = run X (common_stub_code ''isr_handler'' ra) (numbered n None target m)"
  "run X (isr_err_code n ra) (interrupt (Some e) target m)
     = run X (common_stub_code ''isr_handler'' ra) (numbered n (Some e) target m)"
  "run X (isr128_code ra) (interrupt None target m) = run X (common_stub_code ''isr_handler'' ra) (numbered 128 None target m)"
  by (simp_all add: numbered_def Let_def irq_code_def isr_noerr_code_def isr_err_code_def isr128_code_def)

lemma stub_frames:
  "irq_stub n c [] = common_stub c (scast n # (case None of None \<Rightarrow> 0 | Some e \<Rightarrow> e) # cpu_pushes c [])"
  "isr_noerr_stub n c [] = common_stub c (scast n # (case None of None \<Rightarrow> 0 | Some e \<Rightarrow> e) # cpu_pushes c [])"
  "isr_err_stub n e c [] = common_stub c (scast n # (case Some e of None \<Rightarrow> 0 | Some e \<Rightarrow> e) # cpu_pushes c [])"
  "isr128 c [] = common_stub c (scast (128 :: u8) # (case None of None \<Rightarrow> 0 | Some e \<Rightarrow> e) # cpu_pushes c [])"
  by (simp_all add: irq_stub_def isr_noerr_stub_def isr_err_stub_def isr128_def push_byte_def)

lemma numbered_stack:
  "on_stack (numbered n err target m) (scast n # (case err of None \<Rightarrow> 0 | Some e \<Rightarrow> e) # cpu_pushes (mc_cpu m) [])"
  "grown 5 m (numbered n err target m)"
  "\<exists>i k f. mc_cpu (numbered n err target m) = (mc_cpu m)\<lparr>c_esp := c_esp (mc_cpu m) - 20, c_eip := i, c_cs := k, c_eflags := f\<rparr>"
proof -
  let ?vs = "(case err of None \<Rightarrow> [] | Some e \<Rightarrow> [e]) @ cpu_pushes (mc_cpu m) []"
  let ?m1 = "interrupt err target m"
  let ?m2 = "set_flags (c_eflags (mc_cpu ?m1) AND NOT 0x200) ?m1"
  have len: "length ?vs = (case err of None \<Rightarrow> 3 | Some e \<Rightarrow> 4)" by (simp add: cpu_pushes_def split: option.split)
  have "on_stack (foldr push ?vs m) (?vs @ [])"
    by (rule on_stack_pushes) (use len in \<open>simp_all add: on_stack_def split: option.splits\<close>)
  then have s: "on_stack ?m2 ?vs" by (simp add: on_stack_def set_flags_def interrupt_def Let_def)
  have "grown 0 (foldr push ?vs m) ?m2" by (rule grown_0) (simp_all add: set_flags_def interrupt_def Let_def system_kept_def)
  with grown_pushes [OF refl] have "grown (length ?vs + 0) m ?m2" by (rule grown_trans)
  then have g: "grown (length ?vs) m ?m2" by simp
  let ?xs = "scast n # (case err of None \<Rightarrow> [0] | Some e \<Rightarrow> [])"
  have num: "numbered n err target m = foldr push ?xs ?m2"
    by (simp add: numbered_def Let_def split: option.split)
  show "grown 5 m (numbered n err target m)"
  proof -
    have five: "length ?vs + length ?xs = 5" unfolding len by (simp split: option.split)
    from grown_trans [OF g grown_pushes [OF refl, of ?xs]] show ?thesis unfolding num five .
  qed
  have "on_stack (numbered n err target m) ((scast n # (case err of None \<Rightarrow> [0] | Some e \<Rightarrow> [])) @ ?vs)"
    unfolding num by (rule on_stack_pushes [OF s]) (use len in \<open>simp split: option.splits\<close>)
  then show "on_stack (numbered n err target m) (scast n # (case err of None \<Rightarrow> 0 | Some e \<Rightarrow> e) # cpu_pushes (mc_cpu m) [])"
    by (cases err) simp_all
  have "mc_cpu (numbered n err target m) = (mc_cpu m)\<lparr>c_esp := c_esp (mc_cpu m) - 20, c_eip := target, c_cs := 0x08,
      c_eflags := (c_eflags (mc_cpu m) AND NOT 0x34300) AND NOT 0x200\<rparr>"
    unfolding num by (cases err) (simp_all add: set_flags_def interrupt_def Let_def pushes_simps cpu_pushes_def)
  then show "\<exists>i k f. mc_cpu (numbered n err target m)
      = (mc_cpu m)\<lparr>c_esp := c_esp (mc_cpu m) - 20, c_eip := i, c_cs := k, c_eflags := f\<rparr>" by blast
qed

lemma stub_serves:
  assumes "segments_fit (mc_cpu m)"
  shows "\<exists>m1. on_stack m1 (ra # (c_esp (mc_cpu m) - 68) # common_stub (mc_cpu m)
      (scast n # (case err of None \<Rightarrow> 0 | Some e \<Rightarrow> e) # cpu_pushes (mc_cpu m) [])) \<and> grown 19 m m1
    \<and> (\<forall>m2. callee X fn m1 = Some m2 \<longrightarrow> frame_kept m1 m2 \<longrightarrow>
        run X (common_stub_code fn ra) (numbered n err target m) = Some (m2\<lparr>mc_cpu := mc_cpu m\<rparr>))"
proof -
  obtain i k f where cpu: "mc_cpu (numbered n err target m)
      = (mc_cpu m)\<lparr>c_esp := c_esp (mc_cpu m) - 20, c_eip := i, c_cs := k, c_eflags := f\<rparr>"
    using numbered_stack(3) by blast
  note transparent = stub_transparent [OF numbered_stack(1) assms cpu]
  have "grown (5 + 14) m (stub_entry ra (numbered n err target m))"
    using numbered_stack(2) stub_entry_grown by (rule grown_trans)
  then show ?thesis
    using transparent by (intro exI [of _ "stub_entry ra (numbered n err target m)"] conjI) simp_all
qed

text \<open>
  \<open>serves X fn code ra frame m0 m\<close>: the code, started in \<open>m0\<close> for the interrupted machine \<open>m\<close>, calls
  \<open>fn\<close> with the address of a frame with the given words, having written nothing but 19 words below
  the interrupted stack; and when the call returns and keeps the frame, the processor is as it was.
\<close>

definition serves :: "outside \<Rightarrow> string \<Rightarrow> instr list \<Rightarrow> ptr \<Rightarrow> u32 list \<Rightarrow> machine \<Rightarrow> machine \<Rightarrow> bool" where
  "serves X fn code ra frame m0 m \<longleftrightarrow>
     (\<exists>m1. on_stack m1 (ra # (c_esp (mc_cpu m) - 68) # frame) \<and> grown 19 m m1
        \<and> (\<forall>m2. callee X fn m1 = Some m2 \<longrightarrow> frame_kept m1 m2 \<longrightarrow> run X code m0 = Some (m2\<lparr>mc_cpu := mc_cpu m\<rparr>)))"

text \<open>C20. The interrupt stubs are transparent: each calls its dispatcher with a pointer to the frame
  that the list of pushes gives, and, when the dispatcher returns and leaves the frame alone,
  returns to the interrupted instruction with every register, segment and flag as it was.\<close>

theorem stubs_transparent:
  assumes "segments_fit (mc_cpu m)"
  shows "serves X ''irq_handler'' (irq_code n ra) ra (irq_stub n (mc_cpu m) []) (interrupt None target m) m
    \<and> serves X ''isr_handler'' (isr_noerr_code n ra) ra (isr_noerr_stub n (mc_cpu m) []) (interrupt None target m) m
    \<and> serves X ''isr_handler'' (isr_err_code n ra) ra (isr_err_stub n e (mc_cpu m) []) (interrupt (Some e) target m) m
    \<and> serves X ''isr_handler'' (isr128_code ra) ra (isr128 (mc_cpu m) []) (interrupt None target m) m"
  unfolding serves_def numbered_run stub_frames by (intro conjI stub_serves [OF assms])

definition idle_callee :: outside where
  "idle_callee = \<lparr>callee = (\<lambda>fn m. Some (drop_top m)), flags_of = (\<lambda>f w. f)\<rparr>"

definition quiet_machine :: machine where
  "quiet_machine = \<lparr>mc_cpu = \<lparr>c_eax = 1, c_ebx = 2, c_ecx = 3, c_edx = 4, c_esi = 5, c_edi = 6, c_ebp = 7, c_esp = 0x9000,
     c_ds = 0x10, c_es = 0x10, c_fs = 0x10, c_gs = 0x10, c_eip = 0x101000, c_cs = 0x08, c_eflags = 0x202\<rparr>,
     mc_ss = 0x10, mc_cr0 = 0, mc_cr3 = 0, mc_gdtr = \<lparr>tp_limit = 39, tp_base = 0\<rparr>,
     mc_idtr = \<lparr>tp_limit = 2047, tp_base = 0\<rparr>, mc_mem = (\<lambda>_. 0)\<rparr>"

theorem stubs_transparent_witness:
  "\<exists>m'. run idle_callee (irq_code 33 0x100500) (interrupt None 0x100600 quiet_machine) = Some m'
    \<and> mc_cpu m' = mc_cpu quiet_machine"
proof -
  have "segments_fit (mc_cpu quiet_machine)" by (simp add: segments_fit_def selector_def quiet_machine_def)
  note stubs_transparent [OF this, of idle_callee 33 "0x100500" "0x100600" 0]
  then obtain m1 where "\<forall>m2. callee idle_callee ''irq_handler'' m1 = Some m2 \<longrightarrow> frame_kept m1 m2 \<longrightarrow>
      run idle_callee (irq_code 33 0x100500) (interrupt None 0x100600 quiet_machine) = Some (m2\<lparr>mc_cpu := mc_cpu quiet_machine\<rparr>)"
    unfolding serves_def by blast
  moreover have "callee idle_callee ''irq_handler'' m1 = Some (drop_top m1)" by (simp add: idle_callee_def)
  moreover have "frame_kept m1 (drop_top m1)" by (simp add: frame_kept_def drop_top_def)
  ultimately show ?thesis by simp
qed

text \<open>The arguments of a C function, at its first instruction.\<close>

definition c_argument :: "nat \<Rightarrow> machine \<Rightarrow> u32" where
  "c_argument i m = word_at (mc_mem m) (c_esp (mc_cpu m) + 4 + of_nat (4 * i))"

text \<open>The struct \<open>registers_t\<close> at an address.\<close>

definition registers_at :: "mem \<Rightarrow> ptr \<Rightarrow> registers option" where
  "registers_at m p = registers_of (map (\<lambda>i. word_at m (p + of_nat (4 * i))) [0..<16])"

text \<open>
  The C function \<open>isr_handler\<close>, from its first instruction to its return. Its body is the model
  of theory \<open>Interrupts\<close>, on the struct its argument points to: it calls the handler that it
  finds, runs into whatever lies behind the table, or does nothing and returns. What the
  compiler adds is a parameter \<open>C\<close>: the words the function pushes on the stack for its own use,
  the value it leaves in its argument's place, and what it leaves in the registers and
  flags that a C function may change. Returning, it pops its own words and goes to the return address.
\<close>

record compiled =
  cc_pushes :: "machine \<Rightarrow> u32 list"
  cc_arg :: "machine \<Rightarrow> u32"
  cc_eax :: "machine \<Rightarrow> u32"
  cc_ecx :: "machine \<Rightarrow> u32"
  cc_edx :: "machine \<Rightarrow> u32"
  cc_flags :: "machine \<Rightarrow> u32"

definition c_return :: "compiled \<Rightarrow> machine \<Rightarrow> machine" where
  "c_return C m = (let m1 = foldr push (cc_pushes C m) m
     in m1\<lparr>mc_mem := put_word (mc_mem m1) (c_esp (mc_cpu m) + 4) (cc_arg C m),
           mc_cpu := (mc_cpu m)\<lparr>c_eax := cc_eax C m, c_ecx := cc_ecx C m, c_edx := cc_edx C m, c_eflags := cc_flags C m,
             c_esp := c_esp (mc_cpu m) + 4, c_eip := top m\<rparr>\<rparr>)"

definition isr_callee ::
    "compiled \<Rightarrow> ('h \<Rightarrow> registers \<Rightarrow> machine \<Rightarrow> machine option) \<Rightarrow> 'h handlers \<Rightarrow> machine \<Rightarrow> machine option" where
  "isr_callee C call H m =
     (case registers_at (mc_mem m) (c_argument 0 m) of
        None \<Rightarrow> None
      | Some regs \<Rightarrow> (case isr_handler regs H of
            Idle \<Rightarrow> Some (c_return C m)
          | Call h r \<Rightarrow> call h r m
          | Wild \<Rightarrow> None))"

text \<open>The outside of the stubs with this function in it.\<close>

definition with_isr ::
    "compiled \<Rightarrow> ('h \<Rightarrow> registers \<Rightarrow> machine \<Rightarrow> machine option) \<Rightarrow> 'h handlers \<Rightarrow> outside \<Rightarrow> outside" where
  "with_isr C call H X = X\<lparr>callee := (callee X)(''isr_handler'' := isr_callee C call H)\<rparr>"

text \<open>
  \<open>resumed k m m'\<close>: the interrupted program goes on in \<open>m'\<close> as it would in \<open>m\<close>, but for \<open>k\<close> words below its
  stack pointer.
\<close>

definition resumed :: "nat \<Rightarrow> machine \<Rightarrow> machine \<Rightarrow> bool" where
  "resumed k m m' \<longleftrightarrow> mc_cpu m' = mc_cpu m \<and> system_kept m m'
     \<and> (\<forall>a. a \<notin> region (c_esp (mc_cpu m) - of_nat (4 * k)) (4 * k) \<longrightarrow> mc_mem m' a = mc_mem m a)"

lemma resumed_refl: "resumed k m m"
  by (simp add: resumed_def system_kept_def)

lemma resumed_trans: "resumed k m m1 \<Longrightarrow> resumed k m1 m2 \<Longrightarrow> resumed k m m2"
  by (simp add: resumed_def system_kept_def)

lemma resumed_mono:
  assumes "resumed j m m'" and "j \<le> k"
  shows "resumed k m m'"
proof -
  let ?q = "c_esp (mc_cpu m) - of_nat (4 * k)"
  have "of_nat (4 * (k - j)) = (of_nat (4 * k) - of_nat (4 * j) :: u32)"
    using assms(2) by (simp add: of_nat_diff right_diff_distrib)
  then have "?q + of_nat (4 * (k - j)) = c_esp (mc_cpu m) - of_nat (4 * j)" by simp
  moreover have "4 * (k - j) + 4 * j = 4 * k" using assms(2) by simp
  ultimately have "region (c_esp (mc_cpu m) - of_nat (4 * j)) (4 * j) \<subseteq> region ?q (4 * k)"
    using region_from [of ?q "4 * (k - j)" "4 * j"] by metis
  then show ?thesis using assms(1) unfolding resumed_def by blast
qed

text \<open>The exception, raised again each time the interrupted program goes on.\<close>

fun raised :: "outside \<Rightarrow> instr list \<Rightarrow> u32 option \<Rightarrow> ptr \<Rightarrow> nat \<Rightarrow> machine \<Rightarrow> machine option" where
  "raised X code err target 0 m = Some m"
| "raised X code err target (Suc j) m = Option.bind (run X code (interrupt err target m)) (raised X code err target j)"

lemma raised_resumed:
  assumes "\<And>m. P m \<Longrightarrow> \<exists>m'. run X code (interrupt err target m) = Some m' \<and> resumed k m m'"
    and "\<And>m m'. P m \<Longrightarrow> resumed k m m' \<Longrightarrow> P m'" and "P m"
  shows "\<exists>m'. raised X code err target j m = Some m' \<and> resumed k m m'"
  using assms(3)
proof (induction j arbitrary: m)
  case 0
  then show ?case by (simp add: resumed_refl)
next
  case (Suc j)
  obtain m1 where 1: "run X code (interrupt err target m) = Some m1" "resumed k m m1"
    using assms(1) [OF Suc.prems] by blast
  then obtain m2 where "raised X code err target j m1 = Some m2" "resumed k m1 m2"
    using Suc.IH [of m1] assms(2) [OF Suc.prems] by blast
  with 1 show ?case using resumed_trans by fastforce
qed

lemma registers_at_stack:
  assumes "stack_at m p ws" and "16 \<le> length ws"
  shows "registers_at m p = registers_of (take 16 ws)"
proof -
  have "map (\<lambda>i. word_at m (p + of_nat (4 * i))) [0..<16] = take 16 ws"
    using assms by (intro nth_equalityI) (simp_all add: stack_at_nth del: of_nat_mult)
  then show ?thesis by (simp add: registers_at_def)
qed

lemma frame_idle:
  assumes "c_edx c < 256" and "c_edx c \<notin> {32, 33}"
  shows "\<exists>r. registers_of (take 16 (common_stub c (num # err # cpu_pushes c []))) = Some r
    \<and> isr_handler r (boot_handlers t k H) = Idle"
proof -
  have "unat (ucast (c_edx c) :: u8) = unat (c_edx c)"
    using assms(1) by (simp add: word_less_nat_alt unsigned_ucast_eq take_bit_eq_mod)
  then have "(ucast (c_edx c) :: u8) \<noteq> 32" "(ucast (c_edx c) :: u8) \<noteq> 33"
    using assms(2) by (simp_all add: word_unat_eq_iff)
  then show ?thesis using assms(1)
    by (simp add: common_stub_def push_segments_def pusha_def cpu_pushes_def isr_handler_def boot_handlers_eq)
qed

lemma c_return_kept:
  assumes "4 * length (cc_pushes C m) + 76 \<le> 2 ^ 32"
  shows "frame_kept m (c_return C m)" and "system_kept m (c_return C m)"
    and "a \<notin> region (c_esp (mc_cpu m) - of_nat (4 * length (cc_pushes C m))) (4 * length (cc_pushes C m)) \<Longrightarrow>
      a \<notin> region (c_esp (mc_cpu m) + 4) 4 \<Longrightarrow> mc_mem (c_return C m) a = mc_mem m a"
proof -
  let ?n = "4 * length (cc_pushes C m)" and ?sp = "c_esp (mc_cpu m)"
  note g = grown_pushes [OF refl, of "cc_pushes C m" m]
  show mem: "mc_mem (c_return C m) a = mc_mem m a" if "a \<notin> region (?sp - of_nat ?n) ?n" "a \<notin> region (?sp + 4) 4" for a
    using g that by (simp add: c_return_def Let_def put_word_other grown_def)
  have e: "?sp - of_nat ?n + of_nat (?n + 8) = ?sp + 8" "?sp - of_nat ?n + of_nat (?n + 4) = ?sp + 4"
    "?n + 4 + 4 = ?n + 8" "?n + 8 + 68 = ?n + 76" by simp_all
  have "region (?sp + 8) 68 \<inter> region (?sp - of_nat ?n) (?n + 8) = {}"
    using region_split [of "?n + 8" 68 "?sp - of_nat ?n"] assms unfolding e by blast
  moreover have "region (?sp + 4) 4 \<subseteq> region (?sp - of_nat ?n) (?n + 8)"
    using region_from [of "?sp - of_nat ?n" "?n + 4" 4] unfolding e .
  moreover have "region (?sp - of_nat ?n) ?n \<subseteq> region (?sp - of_nat ?n) (?n + 8)" by (rule region_mono) simp
  ultimately have "a \<notin> region (?sp - of_nat ?n) ?n \<and> a \<notin> region (?sp + 4) 4" if "a \<in> region (?sp + 8) 68" for a
    using that by blast
  then show "frame_kept m (c_return C m)" using mem by (simp add: frame_kept_def) (simp add: c_return_def Let_def)
  show "system_kept m (c_return C m)" by (simp add: system_kept_def c_return_def Let_def pushes_simps)
qed

lemma c_return_resumed:
  assumes "grown 19 m m1" and "4 * length (cc_pushes C m1) + 76 \<le> 2 ^ 32"
  shows "resumed (19 + length (cc_pushes C m1)) m ((c_return C m1)\<lparr>mc_cpu := mc_cpu m\<rparr>)"
proof -
  let ?n = "4 * length (cc_pushes C m1)" and ?q = "c_esp (mc_cpu m) - of_nat (4 * (19 + length (cc_pushes C m1)))"
  have e: "c_esp (mc_cpu m1) - of_nat ?n = ?q" "?q + of_nat (?n + 4) = c_esp (mc_cpu m1) + 4"
    "?q + of_nat ?n = c_esp (mc_cpu m1)"
    using assms(1) by (simp_all add: grown_def algebra_simps)
  have "region (c_esp (mc_cpu m1) + 4) 4 \<subseteq> region ?q (?n + 4 + 4)"
    using region_from [of ?q "?n + 4" 4] unfolding e(2) .
  also have "\<dots> \<subseteq> region ?q (4 * (19 + length (cc_pushes C m1)))" by (rule region_mono) simp
  finally have arg: "region (c_esp (mc_cpu m1) + 4) 4 \<subseteq> region ?q (4 * (19 + length (cc_pushes C m1)))" .
  have own: "region ?q ?n \<subseteq> region ?q (4 * (19 + length (cc_pushes C m1)))" by (rule region_mono) simp
  have "region (c_esp (mc_cpu m1)) 76 \<subseteq> region ?q (?n + 76)" using region_from [of ?q ?n 76] unfolding e(3) .
  moreover have "?n + 76 = 4 * (19 + length (cc_pushes C m1))" by simp
  ultimately have frame: "region (c_esp (mc_cpu m1)) 76 \<subseteq> region ?q (4 * (19 + length (cc_pushes C m1)))" by simp
  have "mc_mem (c_return C m1) a = mc_mem m a" if "a \<notin> region ?q (4 * (19 + length (cc_pushes C m1)))" for a
  proof -
    have "mc_mem (c_return C m1) a = mc_mem m1 a"
      by (rule c_return_kept(3) [OF assms(2)]) (use that arg own in \<open>simp_all only: e(1), blast+\<close>)
    also have "\<dots> = mc_mem m a" using assms(1) that frame by (auto simp: grown_def)
    finally show ?thesis .
  qed
  moreover have "system_kept m (c_return C m1)"
    using assms(1) c_return_kept(2) [OF assms(2)] by (simp add: grown_def system_kept_def)
  ultimately show ?thesis by (simp add: resumed_def system_kept_def)
qed

text \<open>When the dispatcher reads a number without handler, the stub returns with nothing changed.\<close>

definition unserved :: "machine \<Rightarrow> bool" where
  "unserved m \<longleftrightarrow> segments_fit (mc_cpu m) \<and> c_edx (mc_cpu m) < 256 \<and> c_edx (mc_cpu m) \<notin> {32, 33}"

lemma stub_ignores:
  fixes t k H call X
  assumes "unserved m" and fits: "\<And>m. length (cc_pushes C m) \<le> d" "4 * (19 + d) \<le> 2 ^ 32"
  defines "Y \<equiv> with_isr C call (boot_handlers t k H) X"
  shows "\<exists>m'. run Y (common_stub_code ''isr_handler'' ra) (numbered n err target m) = Some m' \<and> resumed (19 + d) m m'"
proof -
  let ?frame = "common_stub (mc_cpu m) (scast n # (case err of None \<Rightarrow> 0 | Some e \<Rightarrow> e) # cpu_pushes (mc_cpu m) [])"
  have u: "segments_fit (mc_cpu m)" "c_edx (mc_cpu m) < 256" "c_edx (mc_cpu m) \<notin> {32, 33}"
    using assms(1) by (simp_all add: unserved_def)
  obtain m1 where m1: "on_stack m1 (ra # (c_esp (mc_cpu m) - 68) # ?frame)" "grown 19 m m1"
    "\<forall>m2. callee Y ''isr_handler'' m1 = Some m2 \<longrightarrow> frame_kept m1 m2 \<longrightarrow>
      run Y (common_stub_code ''isr_handler'' ra) (numbered n err target m) = Some (m2\<lparr>mc_cpu := mc_cpu m\<rparr>)"
    using stub_serves [OF u(1)] by blast
  have arg: "c_argument 0 m1 = c_esp (mc_cpu m) - 68" using m1(1) by (simp add: c_argument_def on_stack_def)
  have esp: "c_esp (mc_cpu m) - 68 = c_esp (mc_cpu m1) + 8" using m1(2) by (simp add: grown_def)
  have "stack_at (mc_mem m1) (c_esp (mc_cpu m) - 68) ?frame"
    using m1(1) unfolding esp by (simp add: on_stack_def add.commute)
  then have "registers_at (mc_mem m1) (c_argument 0 m1) = registers_of (take 16 ?frame)"
    unfolding arg by (rule registers_at_stack) (simp add: common_stub_def push_segments_def pusha_def cpu_pushes_def)
  moreover obtain r where "registers_of (take 16 ?frame) = Some r" "isr_handler r (boot_handlers t k H) = Idle"
    using frame_idle [OF u(2,3), of "scast n" "case err of None \<Rightarrow> 0 | Some e \<Rightarrow> e" t k H] by (elim exE conjE)
  ultimately have "callee Y ''isr_handler'' m1 = Some (c_return C m1)"
    by (simp add: Y_def with_isr_def isr_callee_def)
  moreover have bound: "4 * length (cc_pushes C m1) + 76 \<le> 2 ^ 32" using fits(1) [of m1] fits(2) by simp
  then have "frame_kept m1 (c_return C m1)" by (rule c_return_kept)
  ultimately show ?thesis
    using m1(3) resumed_mono [OF c_return_resumed [OF m1(2) bound], of "19 + d"] fits(1) [of m1] by auto
qed

text \<open>C14. An exception is ignored, over and over. After boot no exception has a handler. So when the
  interrupted \<open>edx\<close> (which the dispatcher takes for the number) is below 256 and neither the timer's nor
  the keyboard's, the stub of any exception, with an error code or without, runs \<open>isr_handler\<close> as the
  compiler may have translated it, and returns to the instruction that raised the exception with
  every register, segment, flag and system register as it was, and all memory but the words below
  the stack pointer that the stub's frame (19) and the function's own words (at most \<open>d\<close>) take. If
  the instruction faults again, because what it depends on is unchanged, the same happens again,
  however often: the program makes no step and nothing appears on the screen, unless the screen
  lies in those words.\<close>

theorem exception_ignored:
  fixes t k H call X
  assumes "segments_fit (mc_cpu m)" and "c_edx (mc_cpu m) < 256" and "c_edx (mc_cpu m) \<notin> {32, 33}"
    and "\<And>m. length (cc_pushes C m) \<le> d" and "4 * (19 + d) \<le> 2 ^ 32"
  defines "Y \<equiv> with_isr C call (boot_handlers t k H) X"
  shows "(\<exists>m1. raised Y (isr_noerr_code n ra) None target j m = Some m1 \<and> resumed (19 + d) m m1)
    \<and> (\<exists>m2. raised Y (isr_err_code n ra) (Some e) target j m = Some m2 \<and> resumed (19 + d) m m2)"
proof -
  have keep: "unserved m'" if "unserved m" "resumed (19 + d) m m'" for m m'
    using that by (simp add: unserved_def resumed_def)
  have step: "\<exists>m'. run Y (isr_noerr_code n ra) (interrupt None target m) = Some m' \<and> resumed (19 + d) m m'"
    "\<exists>m'. run Y (isr_err_code n ra) (interrupt (Some e) target m) = Some m' \<and> resumed (19 + d) m m'" if "unserved m" for m
    unfolding numbered_run Y_def by (rule stub_ignores [OF that assms(4,5)])+
  have u: "unserved m" using assms(1-3) by (simp add: unserved_def)
  show ?thesis
    by (intro conjI raised_resumed [where P = unserved] u) (fact step keep)+
qed

text \<open>A translation that keeps two registers on the stack and leaves values in the others.\<close>

definition small_code :: compiled where
  "small_code = \<lparr>cc_pushes = (\<lambda>m. [c_ebx (mc_cpu m), c_ebp (mc_cpu m)]), cc_arg = (\<lambda>_. 0), cc_eax = (\<lambda>_. 0),
     cc_ecx = (\<lambda>m. top m), cc_edx = (\<lambda>m. c_argument 0 m), cc_flags = (\<lambda>_. 0x46)\<rparr>"

theorem exception_ignored_witness:
  "\<exists>m1. raised (with_isr small_code (\<lambda>_ _ _. None) (boot_handlers () () (\<lambda>_. None)) idle_callee)
      (isr_noerr_code 6 0x100500) None 0x100600 1000 quiet_machine = Some m1
    \<and> c_eip (mc_cpu m1) = 0x101000 \<and> c_edx (mc_cpu m1) = 4 \<and> mc_mem m1 0xB8000 = 0"
proof -
  have "segments_fit (mc_cpu quiet_machine)" by (simp add: segments_fit_def selector_def quiet_machine_def)
  moreover have "c_edx (mc_cpu quiet_machine) < 256" "c_edx (mc_cpu quiet_machine) \<notin> {32, 33}"
    by (simp_all add: quiet_machine_def)
  moreover have "length (cc_pushes small_code m) \<le> 2" for m by (simp add: small_code_def)
  ultimately obtain m1 where m1: "raised (with_isr small_code (\<lambda>_ _ _. None) (boot_handlers () () (\<lambda>_. None)) idle_callee)
      (isr_noerr_code 6 0x100500) None 0x100600 1000 quiet_machine = Some m1" "resumed (19 + 2) quiet_machine m1"
    using exception_ignored [of quiet_machine small_code 2] by fastforce
  have "(0xB8000 :: ptr) \<notin> region 0x8FAC 84" by (simp add: region_iff)
  then show ?thesis using m1 by (auto simp: resumed_def quiet_machine_def)
qed

subsection \<open>The context switch\<close>

definition save_code :: "instr list" where
  "save_code = [PUSH EBP, MOV EBP ESP, PUSH EBX, PUSH ESI, PUSH EDI]"

definition store_code :: "instr list" where
  "store_code = [LOAD EAX EBP 8, STORE EAX 0 EAX, STORE EAX 4 EBX, STORE EAX 8 ECX, STORE EAX 12 EDX, STORE EAX 16 ESI,
     STORE EAX 20 EDI]"

definition load_code :: "instr list" where
  "load_code = [LOAD EDX EBP 12, LOAD EAX EDX 0, LOAD EBX EDX 4, LOAD ECX EDX 8, LOAD EDX EDX 12, LOAD ESI EDX 16,
     LOAD EDI EDX 20]"

definition leave_code :: "instr list" where
  "leave_code = [POP EDI, POP ESI, POP EBX, POP EBP, RET]"

lemma switch_code_parts: "task_switch_context_code = save_code @ store_code @ load_code @ leave_code"
  by (simp add: task_switch_context_code_def save_code_def store_code_def load_code_def leave_code_def)

lemma store_run:
  assumes "word_at (mc_mem m) (c_ebp (mc_cpu m) + 8) = a"
  shows "run X store_code m = Some (m\<lparr>mc_cpu := (mc_cpu m)\<lparr>c_eax := a\<rparr>,
    mc_mem := put_words a [a, c_ebx (mc_cpu m), c_ecx (mc_cpu m), c_edx (mc_cpu m), c_esi (mc_cpu m), c_edi (mc_cpu m)] (mc_mem m)\<rparr>)"
  using assms by (simp add: store_code_def set_reg_def add.commute)

lemma load_run:
  assumes "word_at (mc_mem m) (c_ebp (mc_cpu m) + 12) = b" and "stack_at (mc_mem m) b (ax # bx # cx # dx # ws)"
  shows "run X load_code m = Some (m\<lparr>mc_cpu := (mc_cpu m)\<lparr>c_eax := ax, c_ebx := bx, c_ecx := cx, c_edx := dx,
    c_esi := word_at (mc_mem m) (dx + 16), c_edi := word_at (mc_mem m) (dx + 20)\<rparr>\<rparr>)"
  using assms by (simp add: load_code_def set_reg_def add.commute)

lemma leave_run:
  assumes "on_stack m (di # si # bx # bp # ra # ws)"
  shows "run X leave_code m = Some (m\<lparr>mc_cpu := (mc_cpu m)\<lparr>c_edi := di, c_esi := si, c_ebx := bx, c_ebp := bp,
    c_esp := c_esp (mc_cpu m) + 20, c_eip := ra\<rparr>\<rparr>)"
  using assms by (simp add: leave_code_def on_stack_def pop_reg_def set_reg_def top_def drop_top_def)

text \<open>The machine after the first pushes.\<close>

definition frame_made :: "machine \<Rightarrow> machine" where
  "frame_made m = (let c = mc_cpu m; m1 = push (c_ebp c) m
     in foldr push [c_edi c, c_esi c, c_ebx c] (m1\<lparr>mc_cpu := (mc_cpu m1)\<lparr>c_ebp := c_esp c - 4\<rparr>\<rparr>))"

lemma save_run: "run X save_code m = Some (frame_made m)"
  by (simp add: save_code_def frame_made_def Let_def set_reg_def)

lemma frame_made_simps:
  "mc_cpu (frame_made m) = (mc_cpu m)\<lparr>c_ebp := c_esp (mc_cpu m) - 4, c_esp := c_esp (mc_cpu m) - 16\<rparr>"
  "on_stack m ws \<Longrightarrow> length ws \<le> 100 \<Longrightarrow>
    on_stack (frame_made m) (c_edi (mc_cpu m) # c_esi (mc_cpu m) # c_ebx (mc_cpu m) # c_ebp (mc_cpu m) # ws)"
  "grown 4 m (frame_made m)"
proof -
  let ?m1 = "push (c_ebp (mc_cpu m)) m"
  let ?m2 = "?m1\<lparr>mc_cpu := (mc_cpu ?m1)\<lparr>c_ebp := c_esp (mc_cpu m) - 4\<rparr>\<rparr>"
  have m: "frame_made m = foldr push [c_edi (mc_cpu m), c_esi (mc_cpu m), c_ebx (mc_cpu m)] ?m2"
    by (simp add: frame_made_def Let_def)
  show "mc_cpu (frame_made m) = (mc_cpu m)\<lparr>c_ebp := c_esp (mc_cpu m) - 4, c_esp := c_esp (mc_cpu m) - 16\<rparr>"
    unfolding m by simp
  have "grown 0 ?m1 ?m2" by (rule grown_0) (simp_all add: system_kept_def)
  from grown_trans [OF grown_trans [OF grown_push this] grown_pushes [OF refl]]
  have "grown (1 + 0 + length [c_edi (mc_cpu m), c_esi (mc_cpu m), c_ebx (mc_cpu m)]) m (frame_made m)" unfolding m .
  moreover have "1 + 0 + length [c_edi (mc_cpu m), c_esi (mc_cpu m), c_ebx (mc_cpu m)] = 4" by simp
  ultimately show "grown 4 m (frame_made m)" by (simp only:)
  assume ws: "on_stack m ws" "length ws \<le> 100"
  then have "on_stack ?m1 (c_ebp (mc_cpu m) # ws)" by (intro on_stack_push) simp_all
  then have s: "on_stack ?m2 (c_ebp (mc_cpu m) # ws)" by (simp add: on_stack_def)
  show "on_stack (frame_made m) (c_edi (mc_cpu m) # c_esi (mc_cpu m) # c_ebx (mc_cpu m) # c_ebp (mc_cpu m) # ws)"
    unfolding m using on_stack_pushes [OF s, of "[c_edi (mc_cpu m), c_esi (mc_cpu m), c_ebx (mc_cpu m)]"] ws(2) by simp
qed

lemma context_stack: "stack_at m p (context_words x) \<longleftrightarrow>
    stack_at m p [x_eax x, x_ebx x, x_ecx x, x_edx x, x_esi x, x_edi x] \<and> stack_at m (p + 24) (drop 6 (context_words x))"
  by (simp add: context_words_def add.commute)

text \<open>The memory after the stores, and the registers the code has pushed.\<close>

definition stored :: "machine \<Rightarrow> ptr \<Rightarrow> mem" where
  "stored m old = (let c = mc_cpu m
     in put_words old [old, c_ebx c, c_ecx c, c_edx c, c_esi c, c_edi c] (mc_mem (frame_made m)))"

lemma stored_keeps:
  assumes "a \<notin> region old 24"
  shows "stored m old a = mc_mem (frame_made m) a"
    and "a \<notin> region (c_esp (mc_cpu m) - 16) 16 \<Longrightarrow> stored m old a = mc_mem m a"
proof -
  show 1: "stored m old a = mc_mem (frame_made m) a"
    unfolding stored_def Let_def by (rule put_words_other) (use assms in simp)
  show "stored m old a = mc_mem m a" if "a \<notin> region (c_esp (mc_cpu m) - 16) 16"
    using 1 frame_made_simps(3) [of m] that by (simp add: grown_def)
qed

lemma switch_run:
  assumes "on_stack m [ra, old, new]" and "stack_at (mc_mem m) new (ax # bx # cx # dx # ws)"
    and "region old 24 \<inter> region new (4 * length (ax # bx # cx # dx # ws)) = {}"
    and "region new (4 * length (ax # bx # cx # dx # ws)) \<inter> region (c_esp (mc_cpu m) - 16) 16 = {}"
    and "region old 24 \<inter> region (c_esp (mc_cpu m) - 16) 28 = {}"
  shows "run X task_switch_context_code m = Some ((frame_made m)\<lparr>mc_mem := stored m old,
    mc_cpu := (mc_cpu m)\<lparr>c_eax := ax, c_ecx := cx, c_edx := dx, c_esp := c_esp (mc_cpu m) + 4, c_eip := ra\<rparr>\<rparr>)"
proof -
  let ?c = "mc_cpu m" and ?k = "frame_made m"
  let ?saved = "[c_edi ?c, c_esi ?c, c_ebx ?c, c_ebp ?c, ra, old, new]"
  let ?s = "?k\<lparr>mc_cpu := (mc_cpu ?k)\<lparr>c_eax := old\<rparr>, mc_mem := stored m old\<rparr>"
  let ?t = "?s\<lparr>mc_cpu := (mc_cpu ?s)\<lparr>c_eax := ax, c_ebx := bx, c_ecx := cx, c_edx := dx,
    c_esi := word_at (mc_mem ?s) (dx + 16), c_edi := word_at (mc_mem ?s) (dx + 20)\<rparr>\<rparr>"
  have k: "stack_at (mc_mem ?k) (c_esp ?c - 16) ?saved"
    using frame_made_simps(2) [OF assms(1)] by (simp add: on_stack_def frame_made_simps(1))
  moreover have "stack_at (stored m old) (c_esp ?c - 16) ?saved = stack_at (mc_mem ?k) (c_esp ?c - 16) ?saved"
    by (rule stack_at_cong, rule stored_keeps) (use assms(5) in auto)
  ultimately have saved: "stack_at (stored m old) (c_esp ?c - 16) ?saved" by simp
  have "word_at (mc_mem ?k) (c_ebp (mc_cpu ?k) + 8) = old" using k by (simp add: frame_made_simps(1) add.commute)
  from store_run [OF this, of X] have store: "run X store_code ?k = Some ?s"
    by (simp add: frame_made_simps(1) stored_def Let_def del: put_words.simps)
  have "stack_at (stored m old) new (ax # bx # cx # dx # ws) = stack_at (mc_mem m) new (ax # bx # cx # dx # ws)"
    by (rule stack_at_cong, rule stored_keeps) (use assms(3,4) in auto)
  then have "stack_at (mc_mem ?s) new (ax # bx # cx # dx # ws)" using assms(2) by simp
  moreover have "word_at (mc_mem ?s) (c_ebp (mc_cpu ?s) + 12) = new" using saved by (simp add: frame_made_simps(1) add.commute)
  ultimately have load: "run X load_code ?s = Some ?t" by (intro load_run)
  have "on_stack ?t ?saved" using saved by (simp add: on_stack_def frame_made_simps(1))
  from leave_run [OF this, of X]
  have leave: "run X leave_code ?t = Some (?k\<lparr>mc_mem := stored m old,
      mc_cpu := ?c\<lparr>c_eax := ax, c_ecx := cx, c_edx := dx, c_esp := c_esp ?c + 4, c_eip := ra\<rparr>\<rparr>)"
    by (simp add: frame_made_simps(1))
  show ?thesis by (simp only: switch_code_parts run_append save_run store load leave Option.bind.simps)
qed

lemma stored_context:
  assumes "stack_at (mc_mem m) old (context_words octx)" and "region old 68 \<inter> region (c_esp (mc_cpu m) - 16) 16 = {}"
  shows "stack_at (stored m old) old (context_words (snd (task_switch_context old octx nctx (mc_cpu m))))"
proof -
  have "stack_at (stored m old) (old + 24) (drop 6 (context_words octx))
      = stack_at (mc_mem m) (old + 24) (drop 6 (context_words octx))"
  proof (rule stack_at_cong, rule stored_keeps)
    fix a assume "a \<in> region (old + 24) (4 * length (drop 6 (context_words octx)))"
    then have a: "a \<in> region (old + of_nat 24) 44" by (simp add: context_words_def)
    then show "a \<notin> region old 24" using region_split [of 24 44 old] by auto
    have "a \<in> region old 68" using a region_from [of old 24 44] by auto
    then show "a \<notin> region (c_esp (mc_cpu m) - 16) 16" using assms(2) by auto
  qed
  moreover have "stack_at (mc_mem m) (old + 24) (drop 6 (context_words octx))" using assms(1) context_stack by blast
  moreover have "drop 6 (context_words (snd (task_switch_context old octx nctx (mc_cpu m)))) = drop 6 (context_words octx)"
    by (simp add: context_words_def task_switch_context_def Let_def)
  ultimately have rest: "stack_at (stored m old) (old + 24)
      (drop 6 (context_words (snd (task_switch_context old octx nctx (mc_cpu m)))))" by simp
  have "stack_at (stored m old) old
      [old, c_ebx (mc_cpu m), c_ecx (mc_cpu m), c_edx (mc_cpu m), c_esi (mc_cpu m), c_edi (mc_cpu m)]"
    unfolding stored_def Let_def by (rule put_words_stack) simp
  then show ?thesis using rest unfolding context_stack [of _ _ "snd _"] by (simp add: task_switch_context_def Let_def)
qed

text \<open>C11. The context switch, run instruction by instruction on contexts in memory, is the function the
  scheduler uses: it stores six registers in the old context (the address of the context in place
  of \<open>eax\<close>) and then returns to its own caller on the same stack, with every register the caller
  may rely on unchanged, so it never switches to the new task.\<close>

theorem switch_refines:
  assumes "on_stack m [ra, old, new]" and "stack_at (mc_mem m) old (context_words octx)"
    and "stack_at (mc_mem m) new (context_words nctx)" and "region old 68 \<inter> region new 68 = {}"
    and "(region old 68 \<union> region new 68) \<inter> region (c_esp (mc_cpu m) - 16) 28 = {}"
  shows "case task_switch_context old octx nctx (mc_cpu m) of (c, octx') \<Rightarrow>
    \<exists>m'. run X task_switch_context_code m = Some m' \<and> mc_cpu m' = c\<lparr>c_esp := c_esp c + 4, c_eip := ra\<rparr>
      \<and> c_ebx c = c_ebx (mc_cpu m) \<and> c_esi c = c_esi (mc_cpu m) \<and> c_edi c = c_edi (mc_cpu m)
      \<and> c_ebp c = c_ebp (mc_cpu m) \<and> c_esp c = c_esp (mc_cpu m) \<and> mc_cr3 m' = mc_cr3 m
      \<and> stack_at (mc_mem m') old (context_words octx')
      \<and> (\<forall>a. a \<notin> region old 24 \<union> region (c_esp (mc_cpu m) - 16) 16 \<longrightarrow> mc_mem m' a = mc_mem m a)"
proof -
  let ?m' = "(frame_made m)\<lparr>mc_mem := stored m old, mc_cpu := (mc_cpu m)\<lparr>c_eax := x_eax nctx, c_ecx := x_ecx nctx,
    c_edx := x_edx nctx, c_esp := c_esp (mc_cpu m) + 4, c_eip := ra\<rparr>\<rparr>"
  have words: "context_words nctx = x_eax nctx # x_ebx nctx # x_ecx nctx # x_edx nctx # drop 4 (context_words nctx)"
    "4 * length (context_words nctx) = 68" by (simp_all add: context_words_def)
  have sub: "region (c_esp (mc_cpu m) - 16) 16 \<subseteq> region (c_esp (mc_cpu m) - 16) 28" "region old 24 \<subseteq> region old 68"
    by (intro region_mono; simp)+
  have "region old 24 \<inter> region new 68 = {}" "region new 68 \<inter> region (c_esp (mc_cpu m) - 16) 16 = {}"
    "region old 24 \<inter> region (c_esp (mc_cpu m) - 16) 28 = {}" "region old 68 \<inter> region (c_esp (mc_cpu m) - 16) 16 = {}"
    using assms(4,5) sub by blast+
  note apart = this
  have run: "run X task_switch_context_code m = Some ?m'"
    using switch_run [of m ra old new "x_eax nctx" "x_ebx nctx" "x_ecx nctx" "x_edx nctx" "drop 4 (context_words nctx)" X]
      assms(1,3) apart(1-3) unfolding words(1) [symmetric] words(2) by blast
  have "mc_cr3 ?m' = mc_cr3 m" by (simp add: frame_made_def Let_def)
  then show ?thesis using run stored_context [OF assms(2) apart(4), of nctx] stored_keeps(2)
    by (simp add: task_switch_context_def Let_def)
qed

text \<open>Two contexts above the stack.\<close>

theorem switch_refines_witness:
  "\<exists>m'. run idle_callee task_switch_context_code (quiet_machine\<lparr>mc_mem := put_words 0x9000 [0x100700, 0xA000, 0xB000]
      (put_words 0xA000 (context_words (entry_context 0)) (put_words 0xB000 (context_words (entry_context 0x100800)) (\<lambda>_. 0)))\<rparr>)
      = Some m'
    \<and> c_eip (mc_cpu m') = 0x100700 \<and> c_esp (mc_cpu m') = 0x9004 \<and> c_ebx (mc_cpu m') = 2"
proof -
  let ?low = "put_words 0xB000 (context_words (entry_context 0x100800)) (\<lambda>_. 0)"
  let ?mid = "put_words 0xA000 (context_words (entry_context 0)) ?low"
  let ?top = "put_words 0x9000 [0x100700, 0xA000, 0xB000] ?mid"
  let ?m = "quiet_machine\<lparr>mc_mem := ?top\<rparr>"
  have len: "length (context_words x) = 17" for x by (simp add: context_words_def)
  have apart: "region 0x9000 12 \<inter> region 0xA000 68 = {}" "region 0x9000 12 \<inter> region 0xB000 68 = {}"
    "region 0xA000 68 \<inter> region 0xB000 68 = ({} :: ptr set)" "region 0x8FF0 28 \<inter> region 0xA000 68 = {}"
    "region 0x8FF0 28 \<inter> region 0xB000 68 = {}"
    by (rule region_apart; simp)+
  have cpu: "mc_cpu ?m = mc_cpu quiet_machine" "c_esp (mc_cpu quiet_machine) = 0x9000" "c_ebx (mc_cpu quiet_machine) = 2"
    by (simp_all add: quiet_machine_def)
  have "stack_at ?top 0x9000 [0x100700, 0xA000, 0xB000]" by (rule put_words_stack) simp
  then have s: "on_stack ?m [0x100700, 0xA000, 0xB000]" unfolding on_stack_def cpu by simp
  have other: "put_words p ws m a = m a" if "a \<in> region q 68" "region p (4 * length ws) \<inter> region q 68 = {}" for p ws m a q
    using that by (intro put_words_other) blast
  have "stack_at ?top 0xA000 (context_words (entry_context 0)) = stack_at ?mid 0xA000 (context_words (entry_context 0))"
    by (rule stack_at_cong, rule other [of _ "0xA000"]) (use apart(1) in \<open>simp_all add: len\<close>)
  moreover have "stack_at ?mid 0xA000 (context_words (entry_context 0))" by (rule put_words_stack) (simp add: len)
  ultimately have old: "stack_at (mc_mem ?m) 0xA000 (context_words (entry_context 0))" by simp
  have "stack_at ?top 0xB000 (context_words (entry_context 0x100800)) = stack_at ?mid 0xB000 (context_words (entry_context 0x100800))"
    by (rule stack_at_cong, rule other [of _ "0xB000"]) (use apart(2) in \<open>simp_all add: len\<close>)
  moreover have "stack_at ?mid 0xB000 (context_words (entry_context 0x100800)) = stack_at ?low 0xB000 (context_words (entry_context 0x100800))"
    by (rule stack_at_cong, rule other [of _ "0xB000"]) (use apart(3) in \<open>simp_all add: len\<close>)
  moreover have "stack_at ?low 0xB000 (context_words (entry_context 0x100800))" by (rule put_words_stack) (simp add: len)
  ultimately have new: "stack_at (mc_mem ?m) 0xB000 (context_words (entry_context 0x100800))" by simp
  have "(region 0xA000 68 \<union> region 0xB000 68) \<inter> region (c_esp (mc_cpu ?m) - 16) 28 = {}"
    using apart(4,5) unfolding cpu by auto
  from switch_refines [OF s old new apart(3) this, of idle_callee] show ?thesis
    unfolding cpu by (auto simp: case_prod_beta cpu)
qed

subsection \<open>Descriptor tables, entry and paging\<close>

text \<open>C29. With the table that \<open>gdt_init\<close> fills, \<open>gdt_flush\<close> loads the table register and returns with
  every segment register selecting a flat 4 GB kernel segment, code for \<open>cs\<close> and data for the
  others: from then on an address of the program is an address of memory.\<close>

theorem gdt_flush_flat:
  assumes "on_stack m [ra, a]" and "load_table a (mc_mem m) = gp (gdt_init tab s)"
  shows "\<exists>m'. run X gdt_flush_code m = Some m' \<and> mc_gdtr m' = gp (gdt_init tab s) \<and> tp_base (mc_gdtr m') = tab
    \<and> flat_segment (gdt_init tab s) True (c_cs (mc_cpu m'))
    \<and> list_all (\<lambda>r. flat_segment (gdt_init tab s) False (get_seg r m')) [DS, ES, FS, GS, SS]
    \<and> c_eip (mc_cpu m') = ra \<and> c_esp (mc_cpu m') = c_esp (mc_cpu m) + 4 \<and> mc_mem m' = mc_mem m"
proof -
  have kernel: "gp (gdt_init tab s) = \<lparr>tp_limit = 39, tp_base = tab\<rparr>"
    by (simp add: gdt_init_def gdt_set_gate_def Let_def GDT_ENTRIES_def)
  show ?thesis using assms gdt_init_flat [of tab s]
    by (simp add: gdt_flush_code_def on_stack_def set_reg_def selector_ax drop_top_def top_def kernel)
qed

text \<open>\<open>idt_flush\<close> loads the other table register and returns.\<close>

lemma idt_flush_loads:
  assumes "on_stack m [ra, a]"
  shows "\<exists>m'. run X idt_flush_code m = Some m' \<and> mc_idtr m' = load_table a (mc_mem m) \<and> mc_mem m' = mc_mem m
    \<and> c_eip (mc_cpu m') = ra \<and> c_esp (mc_cpu m') = c_esp (mc_cpu m) + 4"
  using assms by (simp add: idt_flush_code_def on_stack_def set_reg_def drop_top_def top_def)

text \<open>The entry calls \<open>kernel_main\<close> on the kernel's stack with \<open>ebx\<close>, the address of the
  multiboot information, as its first parameter \<open>magic\<close> and \<open>eax\<close>, the magic number, as its second
  parameter \<open>addr\<close>: the two are exchanged.\<close>

theorem start_swaps_arguments:
  "\<exists>m1. run X (start_code stack_top ra) m = callee X ''kernel_main'' m1 \<and> c_esp (mc_cpu m1) = stack_top - 12
    \<and> c_argument 0 m1 = c_ebx (mc_cpu m) \<and> c_argument 1 m1 = c_eax (mc_cpu m)"
proof -
  let ?m = "set_reg ESP stack_top m"
  let ?m1 = "foldr push [ra, c_ebx (mc_cpu m), c_eax (mc_cpu m)] ?m"
  have "on_stack ?m1 ([ra, c_ebx (mc_cpu m), c_eax (mc_cpu m)] @ [])"
    by (rule on_stack_pushes) (simp_all add: on_stack_def)
  then have "c_argument 0 ?m1 = c_ebx (mc_cpu m)" "c_argument 1 ?m1 = c_eax (mc_cpu m)"
    by (simp_all add: on_stack_def c_argument_def add.commute del: push_simps)
  moreover have "c_esp (mc_cpu ?m1) = stack_top - 12" by (simp add: set_reg_def)
  moreover have "run X (start_code stack_top ra) m = callee X ''kernel_main'' ?m1"
  proof -
    have "run X [] = Some" by (rule ext) simp
    then show ?thesis by (simp add: start_code_def set_reg_def)
  qed
  ultimately show ?thesis by blast
qed

text \<open>The paging helpers do what their names say and keep the calling convention:
  \<open>load_page_directory\<close> makes its argument the page directory, \<open>enable_paging\<close> sets the paging bit
  and no other of \<open>cr0\<close>, both return to the caller with its registers and write only the word below
  the stack.\<close>

definition returns_to :: "ptr \<Rightarrow> machine \<Rightarrow> machine \<Rightarrow> bool" where
  "returns_to ra m m' \<longleftrightarrow> c_eip (mc_cpu m') = ra \<and> c_esp (mc_cpu m') = c_esp (mc_cpu m) + 4
     \<and> c_ebx (mc_cpu m') = c_ebx (mc_cpu m) \<and> c_esi (mc_cpu m') = c_esi (mc_cpu m) \<and> c_edi (mc_cpu m') = c_edi (mc_cpu m)
     \<and> c_ebp (mc_cpu m') = c_ebp (mc_cpu m) \<and> (\<forall>a. a \<notin> region (c_esp (mc_cpu m) - 4) 4 \<longrightarrow> mc_mem m' a = mc_mem m a)"

theorem paging_helpers:
  assumes "on_stack m [ra, d]"
  shows "\<exists>m1 m2. run X load_page_directory_code m = Some m1 \<and> mc_cr3 m1 = d \<and> mc_cr0 m1 = mc_cr0 m \<and> returns_to ra m m1
    \<and> run X enable_paging_code m = Some m2 \<and> mc_cr0 m2 = set_bit 31 (mc_cr0 m) \<and> mc_cr3 m2 = mc_cr3 m \<and> returns_to ra m m2"
proof -
  have "on_stack (push (c_ebp (mc_cpu m)) m) [c_ebp (mc_cpu m), ra, d]" by (rule on_stack_push [OF assms]) simp
  then have st: "word_at (mc_mem (push (c_ebp (mc_cpu m)) m)) (c_esp (mc_cpu m)) = ra"
    "word_at (mc_mem (push (c_ebp (mc_cpu m)) m)) (c_esp (mc_cpu m) + 4) = d"
    "word_at (mc_mem (push (c_ebp (mc_cpu m)) m)) (c_esp (mc_cpu m) - 4) = c_ebp (mc_cpu m)"
    by (simp_all add: on_stack_def)
  have "grown 1 m (push (c_ebp (mc_cpu m)) m)" by (rule grown_push)
  then have keep: "\<forall>a. a \<notin> region (c_esp (mc_cpu m) - 4) 4 \<longrightarrow> mc_mem (push (c_ebp (mc_cpu m)) m) a = mc_mem m a"
    by (simp add: grown_def)
  have "mc_cr0 m OR 0x80000000 = set_bit 31 (mc_cr0 m)" by (simp add: set_bit_eq_or push_bit_eq_mult)
  with st keep show ?thesis
    by (simp add: load_page_directory_code_def enable_paging_code_def set_reg_def set_flags_def pop_reg_def top_def
        drop_top_def returns_to_def Let_def add.commute)
qed

theorem paging_helpers_witness:
  "\<exists>m2. run idle_callee enable_paging_code (quiet_machine\<lparr>mc_mem := put_words 0x9000 [0x100700, 0xA000] (\<lambda>_. 0)\<rparr>) = Some m2
    \<and> mc_cr0 m2 = 0x80000000 \<and> c_eip (mc_cpu m2) = 0x100700"
proof -
  let ?k = "quiet_machine\<lparr>mc_mem := put_words 0x9000 [0x100700, 0xA000] (\<lambda>_. 0)\<rparr>"
  have "stack_at (put_words 0x9000 [0x100700, 0xA000] (\<lambda>_. 0)) 0x9000 [0x100700, 0xA000]" by (rule put_words_stack) simp
  then have "on_stack ?k [0x100700, 0xA000]" by (simp add: on_stack_def quiet_machine_def)
  moreover have "set_bit 31 (mc_cr0 ?k) = 0x80000000" by (simp add: quiet_machine_def set_bit_eq_or push_bit_eq_mult)
  ultimately show ?thesis using paging_helpers [of ?k "0x100700" "0xA000" idle_callee] unfolding returns_to_def by auto
qed

text \<open>A table register image for 39 and \<open>0x102000\<close>, with the stack below it.\<close>

theorem gdt_flush_flat_witness:
  "\<exists>m'. run idle_callee gdt_flush_code (quiet_machine\<lparr>mc_mem := put_words 0x9000 [0x100700, 0x9008, 0x20000027, 0x10] (\<lambda>_. 0)\<rparr>)
      = Some m' \<and> tp_base (mc_gdtr m') = 0x102000 \<and> c_eip (mc_cpu m') = 0x100700"
proof -
  let ?k = "quiet_machine\<lparr>mc_mem := put_words 0x9000 [0x100700, 0x9008, 0x20000027, 0x10] (\<lambda>_. 0)\<rparr>"
  have "stack_at (mc_mem ?k) 0x9000 [0x100700, 0x9008, 0x20000027, 0x10]" by (simp del: stack_at.simps put_words.simps) (rule put_words_stack, simp)
  then have "on_stack ?k [0x100700, 0x9008]" by (simp add: on_stack_def quiet_machine_def)
  moreover have "load_table 0x9008 (mc_mem ?k) = gp (gdt_init 0x102000 s)" for s
    by (simp add: load_table_def gdt_init_def gdt_set_gate_def GDT_ENTRIES_def Let_def word_at_def put_word_def)
  ultimately show ?thesis
    using gdt_flush_flat [of ?k "0x100700" "0x9008" "0x102000" undefined idle_callee] by blast
qed

end
