(* ===== verification/Spec2Isabelle.thy ===== *)
theory Spec2Isabelle
  imports CNumber Allocator Paging Interrupts Descriptors Printf Timer Keyboard Ramfs Stdlib Syscall Ata Shell Kernel
  Session Controllers BootLog Assembly
begin

text \<open>
  Verification of the Vaelen kernel, a 32-bit x86 kernel in C with a command-line shell.

  \<^bold>\<open>The program.\<close> \<open>kernel_main\<close> (\<open>kernel/kernel.c\<close>) clears the screen, loads the descriptor tables,
  programs the interrupt controllers and the timer, installs the keyboard, identifies the disk,
  sets up the memory manager and paging, the task list and the file system, and runs the shell.
  Interrupt stubs (\<open>arch/x86_64/irq.s\<close>) build a frame and call the dispatchers of
  \<open>arch/x86_64/isr.c\<close>, which call the handlers the drivers registered; the timer handler wakes
  sleeping tasks, the keyboard handler fills a ring buffer the shell's line editor reads. Tasks,
  nodes of the file systems, page tables and directories are blocks of the kernel heap, and page
  table entries hold frames of a bitmap. Everything prints through \<open>printf\<close> and the text screen.

  \<^bold>\<open>Conventions.\<close> A machine integer is a word of its width; an \<open>int\<close> the code keeps in a small
  range is a natural number, and the text of the definition says so. Memory that is accessed by
  byte is one flat function from 32-bit addresses to bytes; structures that are only accessed
  by field live in typed stores indexed by their address. \<open>None\<close> is a run that does not return;
  in a \<open>panicking\<close> result \<open>Inl msg\<close> is \<open>kernel_panic (msg)\<close>, which halts. Loops that C does not
  bound are \<open>partial_function\<close>s, and the properties say when they return; no fuel is used. The
  devices behind the ports are a parameter: a function from the accesses so far to the value
  read (theory \<open>Ports\<close>), and the accesses made are recorded in a trace.

  \<^bold>\<open>The theories.\<close>
  \<^item> \<open>Prelude\<close>: words, memory regions, C strings, panicking results, literal tables.
  \<^item> \<open>CString\<close>, \<open>CNumber\<close>: \<open>lib/string.c\<close> and \<open>strtol\<close>; each routine refines a function on byte lists.
  \<^item> \<open>Heap\<close>, \<open>Allocator\<close>: the \<open>kmalloc\<close> family and \<open>kfree\<close> of \<open>kernel/mm.c\<close>; \<open>Heap\<close> relates the linked
    blocks to an abstract block list with first-fit allocation and coalescing, \<open>Allocator\<close> states
    the contract of an allocator as a locale and interprets it on the heap. \<open>Stdlib\<close>: \<open>lib/stdlib.c\<close>.
  \<^item> \<open>Frames\<close>, \<open>FramePool\<close>, \<open>Paging\<close>: the frame bitmap, its contract as an exclusive pool (a locale the
    file descriptors satisfy as well), page directories, \<open>mm_init_paging\<close> and directory cloning.
  \<^item> \<open>Ports\<close>, \<open>Interrupts\<close>, \<open>Descriptors\<close>: port access, the frames of the interrupt stubs and their
    dispatch, GDT and IDT entries. \<open>Assembly\<close>: the interrupt stubs, table loads, context switch and
    entry as instruction lists on a machine with its stack in byte memory; they produce the frames of
    \<open>Interrupts\<close> and the context switch of \<open>Task\<close>.
  \<^item> \<open>Vga\<close>, \<open>Printf\<close>: the text screen as a window on an endless terminal; \<open>printf\<close> as the rendering of
    a format, and \<open>kernel_panic\<close>.
  \<^item> \<open>Task\<close>, \<open>Timer\<close>: \<open>kernel/task.c\<close>, the context switch, and the tick.
  \<^item> \<open>Keyboard\<close>: scan codes and the ring buffer, which satisfies the contract of a bounded queue.
  \<^item> \<open>Vfs\<close>, \<open>Ramfs\<close>: \<open>fs/vfs.c\<close> and \<open>fs/ramfs.c\<close>; a directory satisfies the contract of a table of names.
  \<^item> \<open>Syscall\<close>, \<open>Ata\<close>: the system calls and the disk driver.
  \<^item> \<open>ShellCommands\<close>, \<open>LineEditor\<close>, \<open>Shell\<close>: the 62 commands, the line editor with its history ring, the
    splitting and dispatch of a line and the main loop. \<open>Session\<close>: whole sessions, as a refinement of an
    abstract shell from typed lines to the text shown.
  \<^item> \<open>Controllers\<close>: the interrupt controllers and the timer chip as their data sheets describe them, folded
    over a trace of port accesses, and the drivers that leave them alone. \<open>Kernel\<close>: the state of all
    components, \<open>kernel_main\<close>, and what the boot programs; \<open>BootLog\<close>: its log on the screen, and how
    \<open>mm_init\<close> clears the first 8 KB of the kernel's image before the log ends.

  \<^bold>\<open>What the lemmas show.\<close> In each theory the operations come first, then an abstraction (block list,
  set of frames, terminal, rendered text, queue, table of names, words of a line, history, session) with lemmas
  that every operation keeps the well-formedness of the state and acts on the abstraction as
  its reference definition does; the properties, numbered \<open>C1\<close> to \<open>C40\<close> in the texts before
  them, rest on these. A property that shows a fault of the code is stated as the code behaves.

  \<^bold>\<open>Bounds.\<close> Regions a routine writes are assumed not to wrap around the address space where that
  matters, and the literals to lie outside the buffers written; the witnesses give such layouts.
  \<open>mm_init_paging\<close> needs heap for a directory and its tables, which the fresh heap of 16 MB has.

  \<^bold>\<open>Not modelled.\<close> The linker script and the second entry \<open>boot/boot.s\<close>, which the Makefile does not
  build; the machine code the compiler makes of the C functions (in \<open>Assembly\<close> a called function
  is a parameter that keeps the calling convention, except \<open>isr_handler\<close>, whose body is the model's and
  whose use of stack and registers is a parameter); the bytes of that machine code, so that a run of
  \<open>kernel_main\<close> here goes on after \<open>mm_init\<close> has cleared the addresses of its code (\<open>BootLog\<close>); \<open>sti\<close> and \<open>hlt\<close> other than as waits; the caches of
  the processor and the translation of addresses (the memory is accessed as before paging is on);
  interrupts at points other than the waits of the code; the prototypes of the headers and most
  constants no code uses; the build files.
\<close>

section \<open>From a key to a command\<close>

text \<open>
  The keyboard driver, the line editor and the dispatch, composed: what the interrupts left in
  the ring buffer is edited to a line, and the words of the line are run.
\<close>

definition typed_line :: "shenv \<Rightarrow> (nat \<Rightarrow> ptr) \<Rightarrow> shell \<Rightarrow> (int \<times> shell) option" where
  "typed_line env args0 st =
     Option.bind (shell_getline env (se_line env) MAX_LINE st) (shell_execute env args0 (se_line env))"

lemma keys_content:
  "kb_ok (fst (kb_irqs n dev (keyboard_boot, tr))) \<and> kb_content (fst (kb_irqs n dev (keyboard_boot, tr)))
    = take 256 (typed (False, False) (kb_reads n dev tr))"
  using kb_irqs_content [of keyboard_boot n dev tr] by (simp add: kb_ok_def kb_content_def keyboard_boot_def)

lemma names_in_cong:
  assumes "names_in env m"
    and "\<And>i a. i < 62 \<Longrightarrow> a \<in> region (se_lit env (fst (command_info ! i))) (Suc (length (command_name i))) \<Longrightarrow> m' a = m a"
  shows "names_in env m'"
  unfolding names_in_def
proof (intro allI impI)
  fix i :: nat assume i: "i < 62"
  have "cstr m' (se_lit env (fst (command_info ! i))) (command_name i)
      = cstr m (se_lit env (fst (command_info ! i))) (command_name i)"
    by (rule cstr_cong) (rule assms(2) [OF i])
  then show "cstr m' (se_lit env (fst (command_info ! i))) (command_name i)"
    using assms(1) i by (simp add: names_in_def)
qed

lemma names_apart_sub: "names_apart env p n \<Longrightarrow> k \<le> n \<Longrightarrow> names_apart env p k"
  unfolding names_apart_def using region_mono [of k n p] by blast

text \<open>C7. What is typed is run: when the interrupts so far read scan codes whose text is a line of fewer
  than 256 characters and return, the shell reads the line and runs the command its first word names,
  with the words of the edited line as arguments.\<close>

theorem typed_line_runs:
  assumes "typed (False, False) (kb_reads n dev tr) = cs @ [10]" and "10 \<notin> set cs" and "length cs < 256"
    and "sh_kbd st = fst (kb_irqs n dev (keyboard_boot, tr))" and "unat (se_line env) + MAX_LINE < 2 ^ 32"
    and "history_slot env st \<inter> region (se_line env) MAX_LINE = {}" and "names_in env (sh_mem st)"
    and "names_apart env (se_line env) MAX_LINE"
    and "names_apart env (history_addr env (hist_count st mod MAX_HISTORY)) MAX_LINE"
  shows "\<exists>st1 args. typed_line env args0 st = run_words env args (line_words (edit [] cs)) st1
    \<and> (\<forall>i < min 31 (length (line_words (edit [] cs))). cstr (sh_mem st1) (args i) (line_words (edit [] cs) ! i))
    \<and> sh_vga st1 = put_bytes (echo [] cs @ [10]) (sh_vga st) \<and> kb_content (sh_kbd st1) = []"
proof -
  let ?s = "edit [] cs" and ?p = "se_line env"
  have k: "kb_ok (sh_kbd st)" "kb_content (sh_kbd st) = cs @ 10 # []"
    using keys_content [of n dev tr] assms(1,3,4) by simp_all
  have len: "length cs < MAX_LINE - 1" using assms(3) by (simp add: MAX_LINE_def)
  obtain st1 where 1: "shell_getline env ?p MAX_LINE st = Some st1" "cstr (sh_mem st1) ?p ?s"
    "sh_vga st1 = put_bytes (echo [] cs @ [10]) (sh_vga st)" "kb_content (sh_kbd st1) = []"
    "\<forall>a. a \<notin> region ?p MAX_LINE \<union> (if ?s = [] then {} else history_slot env st) \<longrightarrow> sh_mem st1 a = sh_mem st a"
    using getline_line [OF k assms(2) len order.refl assms(6)] by blast
  then have same: "sh_mem st1 a = sh_mem st a" if "a \<notin> region ?p MAX_LINE \<union> history_slot env st" for a
    using that by (simp split: if_splits)
  have ls: "length ?s < MAX_LINE" using edit_length [of "[]" cs] len by simp
  then have fits: "unat ?p + length ?s < 2 ^ 32" using assms(5) by simp
  have names: "names_in env (sh_mem st1)"
    by (rule names_in_cong [OF assms(7)], rule same) (use assms(8,9) in \<open>auto simp: names_apart_def\<close>)
  have apart: "names_apart env ?p (length ?s)" using names_apart_sub [OF assms(8)] ls by simp
  obtain m args where
    2: "shell_execute env args0 ?p st1 = run_words env args (line_words ?s) (upd_sh_mem (\<lambda>_. m) st1)"
      "\<And>i. i < min 31 (length (line_words ?s)) \<Longrightarrow> cstr m (args i) (line_words ?s ! i)"
      "\<And>i. i < min 31 (length (line_words ?s)) \<Longrightarrow> within ?p (length ?s) (args i) (line_words ?s ! i)"
      "args (min 31 (length (line_words ?s))) = 0" "\<And>a. a \<notin> region ?p (length ?s) \<Longrightarrow> m a = sh_mem st1 a"
    using shell_execute_words [OF 1(2) fits names apart, of args0] by metis
  show ?thesis
    by (intro exI [of _ "upd_sh_mem (\<lambda>_. m) st1"] exI [of _ args]) (use 1(1,3,4) 2(1,2) in \<open>simp add: typed_line_def\<close>)
qed

text \<open>Typing \<open>cd\<close> and return.\<close>

definition cd_keys :: device where
  "cd_keys tr p = [0x2E, 0xAE, 0x20, 0xA0, 0x1C] ! length tr"

definition cd_env :: shenv where
  "cd_env = \<lparr>se_lit = lit_addr demo_lits, se_bp = 0x70000, se_hist = 0x90000, se_line = 0x80000, se_dev = cd_keys\<rparr>"

lemma cd_names: "names_in cd_env (lit_mem demo_lits)" "0x60000 \<le> unat p \<Longrightarrow> unat p + k \<le> 2 ^ 32 \<Longrightarrow> names_apart cd_env p k"
proof -
  have env: "cd_env\<lparr>se_lit := lit_addr demo_lits\<rparr> = cd_env" by (simp add: cd_env_def)
  then show "names_in cd_env (lit_mem demo_lits)" using demo_names [of cd_env] by simp
  assume p: "0x60000 \<le> unat p" "unat p + k \<le> 2 ^ 32"
  show "names_apart cd_env p k" unfolding names_apart_def
  proof (intro allI impI)
    fix i :: nat assume i: "i < 62"
    let ?n = "fst (command_info ! i)"
    have n: "?n \<in> set demo_lits" "length demo_lits < 0x1000" using i by (simp_all add: length_commands)
    have "list_all (\<lambda>s. length s < 64) (map fst command_info)" by code_simp
    then have "length ?n < 64" using i by (simp add: list_all_length length_commands)
    from lit_addr_less [OF n this] show "region (se_lit cd_env ?n) (Suc (length (command_name i))) \<inter> region p k = {}"
      using p by (intro region_apart) (simp_all add: cd_env_def command_name_def bytes_def)
  qed
qed

theorem typed_line_runs_witness:
  "\<forall>st args0. \<exists>st1. typed_line cd_env args0 (upd_sh_mem (\<lambda>_. lit_mem demo_lits)
       (st\<lparr>sh_kbd := fst (kb_irqs 5 cd_keys (keyboard_boot, [])), hist_count := 0\<rparr>)) = Some (0, st1)
     \<and> sh_vga st1 = put_bytes (bytes ''cd'' @ [10]) (sh_vga st)"
proof (intro allI)
  fix st :: shell and args0
  let ?st = "upd_sh_mem (\<lambda>_. lit_mem demo_lits) (st\<lparr>sh_kbd := fst (kb_irqs 5 cd_keys (keyboard_boot, [])), hist_count := 0\<rparr>)"
  have typed: "typed (False, False) (kb_reads 5 cd_keys []) = bytes ''cd'' @ [10]" by code_simp
  have words: "edit [] (bytes ''cd'') = bytes ''cd''" "echo [] (bytes ''cd'') = bytes ''cd''"
    "line_words (bytes ''cd'') = [bytes ''cd'']" by code_simp+
  have h: "history_addr cd_env (hist_count ?st mod MAX_HISTORY) = 0x90000" "se_line cd_env = 0x80000"
    by (simp_all add: history_addr_def MAX_HISTORY_def cd_env_def)
  have apart: "history_slot cd_env ?st \<inter> region (se_line cd_env) MAX_LINE = {}"
    unfolding h using region_apart [of "0x80000" MAX_LINE "0x90000" MAX_LINE] by (auto simp: MAX_LINE_def)
  have small: "10 \<notin> set (bytes ''cd'')" "length (bytes ''cd'') < 256" "unat (se_line cd_env) + MAX_LINE < 2 ^ 32"
    by (simp_all add: bytes_def h MAX_LINE_def)
  have n: "names_in cd_env (sh_mem ?st)" "names_apart cd_env (se_line cd_env) MAX_LINE"
    "names_apart cd_env (history_addr cd_env (hist_count ?st mod MAX_HISTORY)) MAX_LINE"
    using cd_names unfolding h by (simp_all add: MAX_LINE_def)
  have "sh_kbd ?st = fst (kb_irqs 5 cd_keys (keyboard_boot, []))" by simp
  from typed_line_runs [OF typed small(1,2) this small(3) apart n, of args0]
  show "\<exists>st1. typed_line cd_env args0 ?st = Some (0, st1) \<and> sh_vga st1 = put_bytes (bytes ''cd'' @ [10]) (sh_vga st)"
    unfolding words demo_cd by auto
qed

end
